(* ===== verification/Prelude.thy ===== *)
theory Prelude
  imports Main "HOL-Library.Word" "HOL-Library.AList" "HOL-Library.Sublist"
begin

text \<open>
  Shared vocabulary of the development: bytes, the outcome of running a goroutine alone,
  Go error values, Go maps as association lists behind an interface (locale \<open>go_map\<close>),
  \<open>copy\<close> on slices, \<open>sync.RWMutex\<close>, and a small theory of step relations with
  their invariants (locales \<open>invariant_system\<close> and \<open>stable_system\<close>) that every
  concurrent component instantiates.
\<close>

section \<open>Values\<close>

type_synonym byte = "8 word"

text \<open>
  The outcome of running a piece of Go code to its end with nobody else running: it panics,
  it blocks for ever (on a lock or a channel nobody will release), or it returns.
\<close>

datatype 'a go = Panic | Block | Ret 'a

primrec go_bind :: "'a go \<Rightarrow> ('a \<Rightarrow> 'b go) \<Rightarrow> 'b go" where
  "go_bind Panic f = Panic"
| "go_bind Block f = Block"
| "go_bind (Ret x) f = f x"

lemma go_bind_eq_Ret: "go_bind m f = Ret y \<longleftrightarrow> (\<exists>x. m = Ret x \<and> f x = Ret y)"
  by (cases m) auto

lemma go_bind_assoc: "go_bind (go_bind m f) g = go_bind m (\<lambda>x. go_bind (f x) g)"
  by (cases m) auto

text \<open>The gRPC status codes the program uses, the generated stubs included.\<close>

datatype grpc_code =
    InvalidArgument | NotFound | AlreadyExists | FailedPrecondition
  | Unauthenticated | StatusDeadlineExceeded | Unimplemented

text \<open>
  Go error values. \<open>Errorf\<close> is \<open>fmt.Errorf\<close> with a fixed text, \<open>Wrapf\<close> is
  \<open>fmt.Errorf\<close> with a \<open>%w\<close> operand, \<open>Status\<close> is \<open>status.Error\<close>,
  \<open>LibError\<close> is an error made by the operating system or a library, and
  \<open>ExitError\<close> is \<open>*exec.ExitError\<close> with the exit code it carries. The sentinel
  errors the code compares with \<open>==\<close> are constructors of their own.
\<close>

datatype go_error =
    ErrShutdown
  | ErrIDAlreadyExists
  | EOF
  | CtxCanceled
  | CtxDeadlineExceeded
  | Errorf string
  | Wrapf string go_error
  | OffsetOutOfBounds int nat
  | Status grpc_code string
  | LibError string
  | ExitError int

section \<open>Maps\<close>

text \<open>
  A Go map is an association list: \<open>gomap_get\<close> is indexing (\<open>None\<close> where the Go
  expression yields the zero value), \<open>gomap_set\<close> assignment, \<open>gomap_delete\<close> the
  built-in \<open>delete\<close>. The order of the list is one order in which \<open>range\<close> may
  visit the map.
\<close>

type_synonym ('k, 'v) gomap = "('k \<times> 'v) list"

definition gomap_get :: "('k, 'v) gomap \<Rightarrow> 'k \<Rightarrow> 'v option" where
  "gomap_get m k = map_of m k"

definition gomap_set :: "'k \<Rightarrow> 'v \<Rightarrow> ('k, 'v) gomap \<Rightarrow> ('k, 'v) gomap" where
  "gomap_set k v m = AList.update k v m"

definition gomap_delete :: "'k \<Rightarrow> ('k, 'v) gomap \<Rightarrow> ('k, 'v) gomap" where
  "gomap_delete k m = AList.delete k m"

text \<open>The contract the worker relies on, and what follows from it for any provider.\<close>

locale go_map =
  fixes get :: "'m \<Rightarrow> 'k \<Rightarrow> 'v option"
    and set_at :: "'k \<Rightarrow> 'v \<Rightarrow> 'm \<Rightarrow> 'm"
    and delete_at :: "'k \<Rightarrow> 'm \<Rightarrow> 'm"
  assumes get_set: "get (set_at k v m) k' = (if k' = k then Some v else get m k')"
    and get_delete: "get (delete_at k m) k' = (if k' = k then None else get m k')"
begin

lemma get_set_same: "get (set_at k v m) k = Some v"
  by (simp add: get_set)

lemma get_set_other: "k' \<noteq> k \<Longrightarrow> get (set_at k v m) k' = get m k'"
  by (simp add: get_set)

lemma rollback: "get m k = None \<Longrightarrow> get (delete_at k (set_at k v m)) = get m"
  by (rule ext) (simp add: get_set get_delete)

lemma overwrite: "get (set_at k v (set_at k u m)) = get (set_at k v m)"
  by (rule ext) (simp add: get_set)

end

interpretation gm: go_map gomap_get gomap_set gomap_delete
  by unfold_locales
    (auto simp: gomap_get_def gomap_set_def gomap_delete_def update_conv' delete_conv')

lemma gomap_get_Nil [simp]: "gomap_get [] k = None"
  by (simp add: gomap_get_def)

lemma gomap_get_Cons [simp]: "gomap_get ((a, b) # m) k = (if k = a then Some b else gomap_get m k)"
  by (simp add: gomap_get_def)

declare gm.get_set [simp] gm.get_delete [simp]

lemma gomap_get_mem: "gomap_get m k = Some v \<Longrightarrow> (k, v) \<in> set m"
  by (simp add: gomap_get_def map_of_SomeD)

text \<open>A Go map never holds a key twice.\<close>

definition gomap_wf :: "('k, 'v) gomap \<Rightarrow> bool" where
  "gomap_wf m \<longleftrightarrow> distinct (map fst m)"

lemma gomap_wf_simps [simp]:
  "gomap_wf []" "gomap_wf m \<Longrightarrow> gomap_wf (gomap_set k v m)" "gomap_wf m \<Longrightarrow> gomap_wf (gomap_delete k m)"
  by (simp_all add: gomap_wf_def gomap_set_def gomap_delete_def distinct_update distinct_delete)

lemma gomap_get_iff: "gomap_wf m \<Longrightarrow> gomap_get m k = Some v \<longleftrightarrow> (k, v) \<in> set m"
  by (simp add: gomap_wf_def gomap_get_def)

section \<open>Slices\<close>

text \<open>
  \<open>copy(dst, src)\<close>: the number of elements copied and the new contents of \<open>dst\<close>.
\<close>

definition go_copy :: "'a list \<Rightarrow> 'a list \<Rightarrow> nat \<times> 'a list" where
  "go_copy dst src =
     (let n = min (length dst) (length src) in (n, take n src @ drop n dst))"

lemma go_copy_count: "fst (go_copy dst src) = min (length dst) (length src)"
  by (simp add: go_copy_def Let_def)

lemma go_copy_length: "length (snd (go_copy dst src)) = length dst"
  by (simp add: go_copy_def Let_def)

lemma go_copy_prefix: "take (fst (go_copy dst src)) (snd (go_copy dst src)) = take (length dst) src"
  by (simp add: go_copy_def Let_def min_def)

lemma take_drop_chunk: "take n xs @ take m (drop n xs) = take (n + m) xs"
  by (simp add: take_add)

lemma prefix_take_same: "prefix xs ys \<Longrightarrow> n \<le> length xs \<Longrightarrow> take n ys = take n xs"
  by (auto simp: prefix_def)

lemma prefix_slice:
  "prefix xs ys \<Longrightarrow> n + m \<le> length xs \<Longrightarrow> take m (drop n ys) = take m (drop n xs)"
  by (auto simp: prefix_def)

section \<open>sync.RWMutex\<close>

text \<open>
  \<open>readers\<close> counts the read locks held. A writer first announces itself
  (\<open>pending\<close>), which keeps new readers out, and holds the lock (\<open>held\<close>) once the
  readers that were there have left. An operation that cannot proceed is \<open>None\<close>; the
  goroutine waits until it can.
\<close>

record rwmutex =
  readers :: nat
  pending :: bool
  held :: bool

definition unlocked_mutex :: rwmutex where
  "unlocked_mutex = \<lparr>readers = 0, pending = False, held = False\<rparr>"

definition mu_rlock :: "rwmutex \<Rightarrow> rwmutex option" where
  "mu_rlock m = (if pending m then None else Some (m\<lparr>readers := Suc (readers m)\<rparr>))"

text \<open>\<open>RUnlock\<close> of a mutex nobody has read-locked is a fatal error.\<close>

definition mu_runlock :: "rwmutex \<Rightarrow> rwmutex go" where
  "mu_runlock m = (if readers m = 0 then Panic else Ret (m\<lparr>readers := readers m - 1\<rparr>))"

definition mu_announce :: "rwmutex \<Rightarrow> rwmutex option" where
  "mu_announce m = (if pending m then None else Some (m\<lparr>pending := True\<rparr>))"

definition mu_acquire :: "rwmutex \<Rightarrow> rwmutex option" where
  "mu_acquire m =
     (if pending m \<and> \<not> held m \<and> readers m = 0 then Some (m\<lparr>held := True\<rparr>) else None)"

definition mu_unlock :: "rwmutex \<Rightarrow> rwmutex" where
  "mu_unlock m = m\<lparr>pending := False, held := False\<rparr>"

text \<open>Lock and RLock for a goroutine that runs alone: waiting is blocking for ever.\<close>

definition seq_rlock :: "rwmutex \<Rightarrow> rwmutex go" where
  "seq_rlock m = (case mu_rlock m of None \<Rightarrow> Block | Some m' \<Rightarrow> Ret m')"

definition seq_lock :: "rwmutex \<Rightarrow> rwmutex go" where
  "seq_lock m =
     (case mu_announce m of None \<Rightarrow> Block
      | Some m1 \<Rightarrow> (case mu_acquire m1 of None \<Rightarrow> Block | Some m2 \<Rightarrow> Ret m2))"

definition mutex_wf :: "rwmutex \<Rightarrow> bool" where
  "mutex_wf m \<longleftrightarrow> (held m \<longrightarrow> pending m \<and> readers m = 0)"

named_theorems mutex_defs "definitions of the mutex operations"

lemmas [mutex_defs] = unlocked_mutex_def mu_rlock_def mu_runlock_def mu_announce_def
  mu_acquire_def mu_unlock_def seq_rlock_def seq_lock_def mutex_wf_def

lemma seq_lock_blocked: "0 < readers m \<Longrightarrow> seq_lock m = Block"
  by (simp add: mutex_defs)

lemma mu_ops_wf:
  "mutex_wf m \<Longrightarrow> mu_rlock m = Some m' \<Longrightarrow> mutex_wf m'"
  "mutex_wf m \<Longrightarrow> mu_runlock m = Ret m' \<Longrightarrow> mutex_wf m'"
  "mutex_wf m \<Longrightarrow> mu_announce m = Some m' \<Longrightarrow> mutex_wf m'"
  "mutex_wf m \<Longrightarrow> mu_acquire m = Some m' \<Longrightarrow> mutex_wf m'"
  by (auto simp: mutex_defs split: if_splits)

section \<open>Step relations\<close>

inductive reach :: "('s \<Rightarrow> bool) \<Rightarrow> ('s \<Rightarrow> 's \<Rightarrow> bool) \<Rightarrow> 's \<Rightarrow> bool"
  for init step where
  reach_init: "init s \<Longrightarrow> reach init step s"
| reach_step: "reach init step s \<Longrightarrow> step s t \<Longrightarrow> reach init step t"

lemma reach_steps: "step\<^sup>*\<^sup>* s t \<Longrightarrow> reach init step s \<Longrightarrow> reach init step t"
  by (induction rule: rtranclp_induct) (auto intro: reach.intros)

text \<open>Runs: the state after a list of actions, if each is possible in turn.\<close>

fun run_actions :: "('a \<Rightarrow> 's \<Rightarrow> 's option) \<Rightarrow> 'a list \<Rightarrow> 's \<Rightarrow> 's option" where
  "run_actions exec [] s = Some s"
| "run_actions exec (a # as) s = (case exec a s of None \<Rightarrow> None | Some t \<Rightarrow> run_actions exec as t)"

lemma run_actions_append:
  "run_actions exec (as @ bs) s =
     (case run_actions exec as s of None \<Rightarrow> None | Some t \<Rightarrow> run_actions exec bs t)"
  by (induction as arbitrary: s) (auto split: option.splits)

text \<open>The state of a run in which action \<open>b\<close> is about to be taken for the first time; its last state if
  that action was not taken.\<close>

definition before_first :: "('a \<Rightarrow> 's \<Rightarrow> 's option) \<Rightarrow> 'a \<Rightarrow> 'a list \<Rightarrow> 's \<Rightarrow> 's" where
  "before_first exec b as s = the (run_actions exec (takeWhile (\<lambda>a. a \<noteq> b) as) s)"

lemma before_first_now: "before_first exec b (b # as) s = s"
  by (simp add: before_first_def)

lemma before_first_run:
  "run_actions exec as s = Some t \<Longrightarrow>
   run_actions exec (takeWhile (\<lambda>a. a \<noteq> b) as) s = Some (before_first exec b as s) \<and>
   run_actions exec (dropWhile (\<lambda>a. a \<noteq> b) as) (before_first exec b as s) = Some t"
  using run_actions_append [of exec "takeWhile (\<lambda>a. a \<noteq> b) as" "dropWhile (\<lambda>a. a \<noteq> b) as" s]
  by (auto simp: before_first_def split: option.splits)

text \<open>What only the first \<open>b\<close> settles, once and for all.\<close>

lemma first_action_settles:
  assumes "run_actions exec as s = Some t" and "early s"
    and "\<And>a u v. early u \<Longrightarrow> exec a u = Some v \<Longrightarrow> a \<noteq> b \<Longrightarrow> early v"
    and "\<And>u v. early u \<Longrightarrow> exec b u = Some v \<Longrightarrow> late (f u) v"
    and "\<And>a n u v. late n u \<Longrightarrow> exec a u = Some v \<Longrightarrow> late n v"
  shows "early t \<or> late (f (before_first exec b as s)) t"
proof -
  let ?u = "before_first exec b as s"
  have keep: "early v" if "run_actions exec cs u = Some v" "early u" "b \<notin> set cs" for cs u v
    using that by (induction cs arbitrary: u) (auto split: option.splits intro: assms(3))
  have stay: "late n v" if "run_actions exec cs u = Some v" "late n u" for cs u v n
    using that by (induction cs arbitrary: u) (auto split: option.splits intro: assms(5))
  note r = before_first_run [OF assms(1), of b]
  have u: "early ?u"
    by (rule keep [OF conjunct1 [OF r] assms(2)]) (auto dest: set_takeWhileD)
  show ?thesis
  proof (cases "dropWhile (\<lambda>a. a \<noteq> b) as")
    case Nil
    with r u show ?thesis by simp
  next
    case (Cons c cs)
    then have "c = b" by (simp add: dropWhile_eq_Cons_conv)
    with r Cons obtain v where "exec b ?u = Some v" "run_actions exec cs v = Some t"
      by (auto split: option.splits)
    with u stay assms(4) show ?thesis by blast
  qed
qed

text \<open>Systems whose steps are given by actions.\<close>

locale action_system =
  fixes exec :: "'a \<Rightarrow> 's \<Rightarrow> 's option"
    and step :: "'s \<Rightarrow> 's \<Rightarrow> bool"
  assumes step_iff: "step s t \<longleftrightarrow> (\<exists>a. exec a s = Some t)"
begin

lemma exec_step: "exec a s = Some t \<Longrightarrow> step s t"
  by (auto simp: step_iff)

lemma steps_run: "step\<^sup>*\<^sup>* s t \<Longrightarrow> \<exists>as. run_actions exec as s = Some t"
proof (induction rule: rtranclp_induct)
  case base
  show ?case by (rule exI [of _ "[]"]) simp
next
  case (step u v)
  then obtain as a where "run_actions exec as s = Some u" "exec a u = Some v"
    by (auto simp: step_iff)
  then have "run_actions exec (as @ [a]) s = Some v" by (simp add: run_actions_append)
  then show ?case by blast
qed

lemma run_steps: "run_actions exec as s = Some t \<Longrightarrow> step\<^sup>*\<^sup>* s t"
proof (induction as arbitrary: s)
  case (Cons a as)
  then obtain u where "exec a s = Some u" "run_actions exec as u = Some t"
    by (auto split: option.splits)
  with Cons.IH show ?case by (blast intro: converse_rtranclp_into_rtranclp exec_step)
qed simp

lemma run_reach:
  "run_actions exec as s = Some t \<Longrightarrow> reach init step s \<Longrightarrow> reach init step t"
  by (blast intro: reach_steps run_steps)

end

locale invariant_system =
  fixes init :: "'s \<Rightarrow> bool"
    and step :: "'s \<Rightarrow> 's \<Rightarrow> bool"
    and inv :: "'s \<Rightarrow> bool"
  assumes inv_init: "init s \<Longrightarrow> inv s"
    and inv_step: "inv s \<Longrightarrow> step s t \<Longrightarrow> inv t"
begin

lemma inv_reach: "reach init step s \<Longrightarrow> inv s"
  by (induction rule: reach.induct) (auto intro: inv_init inv_step)

lemma inv_steps: "step\<^sup>*\<^sup>* s t \<Longrightarrow> inv s \<Longrightarrow> inv t"
  by (induction rule: rtranclp_induct) (auto intro: inv_step)

end

text \<open>A property that, once true in a state of the invariant, stays true.\<close>

locale stable_system = invariant_system +
  fixes stable :: "'s \<Rightarrow> bool"
  assumes stable_step: "inv s \<Longrightarrow> stable s \<Longrightarrow> step s t \<Longrightarrow> stable t"
begin

lemma stable_steps: "step\<^sup>*\<^sup>* s t \<Longrightarrow> inv s \<Longrightarrow> stable s \<Longrightarrow> stable t"
  by (induction rule: rtranclp_induct) (auto intro: stable_step inv_steps)

lemma stable_from_reach: "reach init step s \<Longrightarrow> stable s \<Longrightarrow> step\<^sup>*\<^sup>* s t \<Longrightarrow> stable t"
  by (blast intro: stable_steps inv_reach)

end

end
