(* ===== verification/Job.thy ===== *)
theory Job
  imports Prelude
begin

text \<open>
  \<open>worker/job.go\<close>: the job object. Its public fields, the three contexts (a flag each:
  cancelled or not), the captured output, the exit code and the registered update listeners.
  Every method below runs under \<open>updateLock\<close> in the source, so each is one atomic step on
  the job. Channels live outside the job, in a store indexed by channel identity, because a
  listener channel is shared between the job and the goroutine that receives from it.
\<close>

section \<open>Types\<close>

datatype JobUpdate = JobUpdateStdout | JobUpdateStderr | JobUpdateExitCode

record job =
  Namespace :: string
  ID :: string
  Command :: string
  Args :: "string list"
  RootFS :: string
  CreatedAt :: int
  PID :: int
  doneCtx :: bool
  stopCtx :: bool
  forceStopCtx :: bool
  stdout :: "byte list"
  stderr :: "byte list"
  exitCode :: "int option"
  listeners :: "nat list option"

text \<open>
  A buffered channel of updates. Both callers in the repository make buffered channels
  (capacity 2 in \<open>streamOutput\<close>, 5 in \<open>runDirectExec\<close>).
\<close>

record chan =
  chan_cap :: nat
  chan_buf :: "JobUpdate list"

type_synonym chans = "nat \<Rightarrow> chan"

section \<open>Operations\<close>

definition newJob :: "int \<Rightarrow> string \<Rightarrow> string \<Rightarrow> string \<Rightarrow> string list \<Rightarrow> job" where
  "newJob now ns i command args =
     \<lparr>Namespace = ns, ID = i, Command = command, Args = args, RootFS = [],
      CreatedAt = now, PID = 0,
      doneCtx = False, stopCtx = False, forceStopCtx = False,
      stdout = [], stderr = [], exitCode = None, listeners = Some []\<rparr>"

text \<open>
  \<open>readOutput\<close> returns the number of bytes read, the total, the exit code, the error and
  the new contents of the caller's buffer. Slicing \<open>out[offset:]\<close> with a negative offset
  panics.
\<close>

type_synonym read_result = "nat \<times> nat \<times> int option \<times> go_error option \<times> byte list"

definition readOutput :: "job \<Rightarrow> bool \<Rightarrow> byte list \<Rightarrow> int \<Rightarrow> read_result go" where
  "readOutput j is_err b offset =
     (let out = (if is_err then stderr j else stdout j);
          total = length out;
          code = exitCode j
      in if 0 < length b then
           (if int total < offset then Ret (0, total, code, Some (OffsetOutOfBounds offset total), b)
            else if offset < 0 then Panic
            else case go_copy b (drop (nat offset) out) of
                   (n, b') \<Rightarrow> Ret (n, total, code, None, b'))
         else Ret (0, total, code, None, b))"

definition ReadStdout :: "job \<Rightarrow> byte list \<Rightarrow> int \<Rightarrow> read_result go" where
  "ReadStdout j b offset = readOutput j False b offset"

definition ReadStderr :: "job \<Rightarrow> byte list \<Rightarrow> int \<Rightarrow> read_result go" where
  "ReadStderr j b offset = readOutput j True b offset"

definition AddUpdateListener :: "nat \<Rightarrow> job \<Rightarrow> job" where
  "AddUpdateListener ch j =
     (let ls = (case listeners j of None \<Rightarrow> [] | Some ls \<Rightarrow> ls)
      in j\<lparr>listeners := Some (List.insert ch ls)\<rparr>)"

definition RemoveUpdateListener :: "nat \<Rightarrow> job \<Rightarrow> job" where
  "RemoveUpdateListener ch j = j\<lparr>listeners := map_option (removeAll ch) (listeners j)\<rparr>"

definition listener_list :: "job \<Rightarrow> nat list" where
  "listener_list j = (case listeners j of None \<Rightarrow> [] | Some ls \<Rightarrow> ls)"

text \<open>
  \<open>Stop\<close> cancels one of the two stop contexts and then selects on the caller's context
  and on \<open>doneCtx\<close>. \<open>Stop_wait\<close> is the select, on the job as it is when the select
  fires: \<open>ctx_err\<close> is the error of the caller's context if it is done, and
  \<open>prefer_ctx\<close> the choice made when both are ready.
\<close>

definition Stop_request :: "bool \<Rightarrow> job \<Rightarrow> job" where
  "Stop_request force j =
     (if force then j\<lparr>forceStopCtx := True\<rparr> else j\<lparr>stopCtx := True\<rparr>)"

definition ExitCode :: "job \<Rightarrow> int option" where
  "ExitCode j = exitCode j"

definition Stop_wait :: "go_error option \<Rightarrow> bool \<Rightarrow> job \<Rightarrow> (int \<times> go_error option) go" where
  "Stop_wait ctx_err prefer_ctx j =
     (case ctx_err of
        Some e \<Rightarrow>
          if doneCtx j \<and> \<not> prefer_ctx
          then (case ExitCode j of None \<Rightarrow> Panic | Some c \<Rightarrow> Ret (c, None))
          else Ret (0, Some e)
      | None \<Rightarrow>
          if doneCtx j then (case ExitCode j of None \<Rightarrow> Panic | Some c \<Rightarrow> Ret (c, None))
          else Block)"

text \<open>A non-blocking send drops the update when the buffer is full.\<close>

definition try_send :: "JobUpdate \<Rightarrow> chan \<Rightarrow> chan" where
  "try_send u c =
     (if length (chan_buf c) < chan_cap c then c\<lparr>chan_buf := chan_buf c @ [u]\<rparr> else c)"

definition notify :: "JobUpdate \<Rightarrow> nat list \<Rightarrow> chans \<Rightarrow> chans" where
  "notify u ls cs = fold (\<lambda>l cs. cs(l := try_send u (cs l))) ls cs"

definition updateOutput :: "bool \<Rightarrow> byte list \<Rightarrow> job \<times> chans \<Rightarrow> job \<times> chans" where
  "updateOutput is_err output s =
     (case s of (j, cs) \<Rightarrow>
        if is_err
        then (j\<lparr>stderr := stderr j @ output\<rparr>, notify JobUpdateStderr (listener_list j) cs)
        else (j\<lparr>stdout := stdout j @ output\<rparr>, notify JobUpdateStdout (listener_list j) cs))"

definition markDone :: "int \<Rightarrow> job \<times> chans \<Rightarrow> job \<times> chans" where
  "markDone code s =
     (case s of (j, cs) \<Rightarrow>
        (j\<lparr>exitCode := Some code, doneCtx := True\<rparr>,
         notify JobUpdateExitCode (listener_list j) cs))"

named_theorems job_defs "definitions of the job operations"

lemmas [job_defs] = newJob_def AddUpdateListener_def RemoveUpdateListener_def
  Stop_request_def ExitCode_def updateOutput_def markDone_def listener_list_def

lemma snd_updateOutput [simp]:
  "snd (updateOutput is_err b (j, cs)) =
    notify (if is_err then JobUpdateStderr else JobUpdateStdout) (listener_list j) cs"
  by (simp add: updateOutput_def)

lemma snd_markDone [simp]:
  "snd (markDone c (j, cs)) = notify JobUpdateExitCode (listener_list j) cs"
  by (simp add: markDone_def)

section \<open>Reading\<close>

definition output_of :: "bool \<Rightarrow> job \<Rightarrow> byte list" where
  "output_of is_err j = (if is_err then stderr j else stdout j)"

lemma readOutput_in_range:
  assumes "0 \<le> offset" "offset \<le> int (length (output_of is_err j))" "b \<noteq> []"
  shows "readOutput j is_err b offset =
    (let src = drop (nat offset) (output_of is_err j); n = min (length b) (length src)
     in Ret (n, length (output_of is_err j), exitCode j, None, take n src @ drop n b))"
  using assms by (simp add: readOutput_def output_of_def go_copy_def Let_def split: prod.splits)

lemma readOutput_empty_buffer:
  "readOutput j is_err [] offset = Ret (0, length (output_of is_err j), exitCode j, None, [])"
  by (simp add: readOutput_def output_of_def Let_def)

section \<open>Listeners and notification\<close>

lemma distinct_listener_list_Add:
  "distinct (listener_list j) \<Longrightarrow> distinct (listener_list (AddUpdateListener ch j))"
  by (simp add: job_defs Let_def split: option.splits)

lemma distinct_listener_list_Remove:
  "distinct (listener_list j) \<Longrightarrow> distinct (listener_list (RemoveUpdateListener ch j))"
  by (auto simp: job_defs distinct_removeAll split: option.splits)

lemma set_listener_list_Add [simp]:
  "set (listener_list (AddUpdateListener ch j)) = insert ch (set (listener_list j))"
  by (simp add: job_defs Let_def split: option.splits)

lemma set_listener_list_Remove [simp]:
  "set (listener_list (RemoveUpdateListener ch j)) = set (listener_list j) - {ch}"
  by (auto simp: job_defs split: option.splits)

lemma notify_apply:
  "distinct ls \<Longrightarrow> notify u ls cs l = (if l \<in> set ls then try_send u (cs l) else cs l)"
  by (induction ls arbitrary: cs) (auto simp: notify_def)

lemma try_send_cap [simp]: "chan_cap (try_send u c) = chan_cap c"
  by (simp add: try_send_def)

lemma try_send_nonempty: "0 < chan_cap c \<Longrightarrow> chan_buf (try_send u c) \<noteq> []"
  by (auto simp: try_send_def)

lemma try_send_keeps_nonempty: "chan_buf c \<noteq> [] \<Longrightarrow> chan_buf (try_send u c) \<noteq> []"
  by (auto simp: try_send_def)

lemma try_send_bounded:
  "length (chan_buf c) \<le> chan_cap c \<Longrightarrow> length (chan_buf (try_send u c)) \<le> chan_cap c"
  by (auto simp: try_send_def)

lemma chan_cap_notify [simp]: "chan_cap (notify u ls cs l) = chan_cap (cs l)"
  unfolding notify_def by (induction ls arbitrary: cs) auto

section \<open>Well-formed jobs and their histories\<close>

definition job_wf :: "job \<Rightarrow> bool" where
  "job_wf j \<longleftrightarrow> (doneCtx j \<longleftrightarrow> exitCode j \<noteq> None) \<and> distinct (listener_list j)"

text \<open>
  What can happen to a job after \<open>newJob\<close>: the events of its goroutines and callers, and
  their effect on the job and the channels.
\<close>

datatype job_event =
    EvOutput bool "byte list"
  | EvDone int
  | EvListen nat
  | EvUnlisten nat
  | EvStop bool

fun job_apply :: "job \<times> chans \<Rightarrow> job_event \<Rightarrow> job \<times> chans" where
  "job_apply s (EvOutput is_err b) = updateOutput is_err b s"
| "job_apply s (EvDone c) = markDone c s"
| "job_apply (j, cs) (EvListen ch) = (AddUpdateListener ch j, cs)"
| "job_apply (j, cs) (EvUnlisten ch) = (RemoveUpdateListener ch j, cs)"
| "job_apply (j, cs) (EvStop force) = (Stop_request force j, cs)"

text \<open>
  The discipline the comments of \<open>updateOutput\<close> and \<open>markDone\<close> ask of the runner:
  neither is called once the job is marked done. Theory \<open>JobProcess\<close> shows that the
  goroutines of \<open>startCmd\<close> keep it.
\<close>

fun event_allowed :: "job \<Rightarrow> job_event \<Rightarrow> bool" where
  "event_allowed j (EvOutput is_err b) = (exitCode j = None)"
| "event_allowed j (EvDone c) = (exitCode j = None)"
| "event_allowed j _ = True"

text \<open>
  \<open>job_extends j j'\<close>: what a reader who saw \<open>j\<close> may rely on when it sees \<open>j'\<close>
  later. Output only grows, and is frozen with the exit code.
\<close>

definition same_identity :: "job \<Rightarrow> job \<Rightarrow> bool" where
  "same_identity j j' \<longleftrightarrow>
     Namespace j' = Namespace j \<and> ID j' = ID j \<and> Command j' = Command j \<and> Args j' = Args j \<and>
     RootFS j' = RootFS j \<and> CreatedAt j' = CreatedAt j \<and> PID j' = PID j"

definition job_extends :: "job \<Rightarrow> job \<Rightarrow> bool" where
  "job_extends j j' \<longleftrightarrow>
     same_identity j j' \<and>
     prefix (stdout j) (stdout j') \<and> prefix (stderr j) (stderr j') \<and>
     (exitCode j \<noteq> None \<longrightarrow>
        exitCode j' = exitCode j \<and> stdout j' = stdout j \<and> stderr j' = stderr j)"

lemma job_extends_refl [simp]: "job_extends j j"
  by (simp add: job_extends_def same_identity_def)

lemma job_extends_trans: "job_extends a b \<Longrightarrow> job_extends b c \<Longrightarrow> job_extends a c"
  by (auto simp: job_extends_def same_identity_def)

lemma job_apply_wf: "job_wf j \<Longrightarrow> job_wf (fst (job_apply (j, cs) e))"
proof (cases e)
  case (EvListen ch)
  then show "job_wf j \<Longrightarrow> ?thesis"
    using distinct_listener_list_Add [of j ch] by (simp add: job_wf_def) (simp add: job_defs Let_def)
next
  case (EvUnlisten ch)
  then show "job_wf j \<Longrightarrow> ?thesis"
    using distinct_listener_list_Remove [of j ch] by (simp add: job_wf_def) (simp add: job_defs Let_def)
qed (auto simp: job_wf_def job_defs)

lemma job_apply_extends: "event_allowed j e \<Longrightarrow> job_extends j (fst (job_apply (j, cs) e))"
  by (cases e) (auto simp: job_extends_def same_identity_def job_defs Let_def)

lemma job_extends_output: "job_extends j j' \<Longrightarrow> prefix (output_of is_err j) (output_of is_err j')"
  by (simp add: job_extends_def output_of_def)

lemma job_extends_frozen:
  "job_extends j j' \<Longrightarrow> exitCode j \<noteq> None \<Longrightarrow>
   exitCode j' = exitCode j \<and> output_of is_err j' = output_of is_err j"
  by (auto simp: job_extends_def output_of_def)

text \<open>A run of events that respects the discipline throughout.\<close>

fun job_run :: "job \<times> chans \<Rightarrow> job_event list \<Rightarrow> job \<times> chans" where
  "job_run s [] = s"
| "job_run s (e # es) = job_run (job_apply s e) es"

fun run_allowed :: "job \<times> chans \<Rightarrow> job_event list \<Rightarrow> bool" where
  "run_allowed s [] = True"
| "run_allowed s (e # es) = (event_allowed (fst s) e \<and> run_allowed (job_apply s e) es)"

text \<open>The abstract view of a run: what was written to each stream, in order.\<close>

fun written :: "bool \<Rightarrow> job_event list \<Rightarrow> byte list" where
  "written is_err [] = []"
| "written is_err (EvOutput e b # es) = (if e = is_err then b else []) @ written is_err es"
| "written is_err (_ # es) = written is_err es"

lemma output_of_job_apply:
  "output_of is_err (fst (job_apply s e)) = output_of is_err (fst s) @ written is_err [e]"
  by (cases s; cases e) (auto simp: output_of_def job_defs Let_def)

lemma written_Cons: "written is_err (e # es) = written is_err [e] @ written is_err es"
  by (cases e) auto

lemma output_of_job_run:
  "output_of is_err (fst (job_run s es)) = output_of is_err (fst s) @ written is_err es"
proof (induction es arbitrary: s)
  case (Cons e es)
  then show ?case
    by (simp add: output_of_job_apply) (metis append.assoc written_Cons)
qed simp

lemma job_run_wf: "job_wf (fst s) \<Longrightarrow> job_wf (fst (job_run s es))"
  by (induction es arbitrary: s) (auto simp: job_apply_wf split: prod.splits, metis job_apply_wf prod.collapse)

lemma job_run_extends: "run_allowed s es \<Longrightarrow> job_extends (fst s) (fst (job_run s es))"
proof (induction es arbitrary: s)
  case (Cons e es)
  then have "job_extends (fst s) (fst (job_apply s e))"
    by (metis job_apply_extends prod.collapse run_allowed.simps(2))
  with Cons.IH [of "job_apply s e"] Cons.prems show ?case
    by (metis job_extends_trans job_run.simps(2) run_allowed.simps(2))
qed simp

lemma newJob_wf: "job_wf (newJob now ns i c as)"
  by (simp add: job_wf_def job_defs)

lemma run_allowed_append:
  "run_allowed s (es @ es') \<longleftrightarrow> run_allowed s es \<and> run_allowed (job_run s es) es'"
  by (induction es arbitrary: s) auto

lemma job_run_append: "job_run s (es @ es') = job_run (job_run s es) es'"
  by (induction es arbitrary: s) auto

section \<open>Properties\<close>

text \<open>A read into a non-empty buffer that does not fail copies exactly the slice of the
  stream at the offset, as long as the buffer allows, leaves the rest of the buffer alone,
  reports the true total, and reads nothing only when the offset is the total.\<close>

theorem read_output_slice:
  assumes "readOutput j is_err b offset = Ret (n, tot, code, None, b')" and "b \<noteq> []"
  shows "take n b' = take (length b) (drop (nat offset) (output_of is_err j)) \<and>
         drop n b' = drop n b \<and> length b' = length b \<and>
         tot = length (output_of is_err j) \<and> code = exitCode j \<and>
         0 \<le> offset \<and> nat offset + n \<le> tot \<and> (n = 0 \<longleftrightarrow> nat offset = tot)"
  using assms
  by (auto simp: readOutput_def output_of_def go_copy_def Let_def min_def split: if_splits)

theorem read_output_slice_witness:
  "take 2 [2, 3, 9 :: byte] = take 3 (drop (nat 1) [1, 2, 3 :: byte])"
  using read_output_slice
    [of "(newJob 0 [] ''i'' ''c'' [])\<lparr>stdout := [1, 2, 3]\<rparr>" False "[7, 8, 9]" 1 2 3 None "[2, 3, 9]"]
  by (simp add: readOutput_def newJob_def go_copy_def output_of_def)

text \<open>Output and completion updates wake every registered listener: its channel holds an
  update afterwards, never more than its capacity, and no other channel is touched.\<close>

theorem update_wakes_listeners:
  assumes "job_wf j" and "e = EvOutput is_err b \<or> e = EvDone c"
    and "length (chan_buf (cs l)) \<le> chan_cap (cs l)" and "0 < chan_cap (cs l)"
  shows "(l \<in> set (listener_list j) \<longrightarrow> chan_buf (snd (job_apply (j, cs) e) l) \<noteq> []) \<and>
         (l \<notin> set (listener_list j) \<longrightarrow> snd (job_apply (j, cs) e) l = cs l) \<and>
         length (chan_buf (snd (job_apply (j, cs) e) l)) \<le> chan_cap (cs l)"
  using assms
  by (auto simp: job_wf_def notify_apply try_send_nonempty intro: try_send_bounded)

theorem update_wakes_listeners_witness:
  "chan_buf (snd (job_apply (AddUpdateListener 4 (newJob 0 [] ''i'' ''c'' []),
      \<lambda>_. \<lparr>chan_cap = 2, chan_buf = []\<rparr>) (EvDone 0)) 4) \<noteq> []"
  using update_wakes_listeners
    [of "AddUpdateListener 4 (newJob 0 [] ''i'' ''c'' [])" "EvDone 0" False "[]" 0
      "\<lambda>_. \<lparr>chan_cap = 2, chan_buf = []\<rparr>" 4]
  by (simp add: job_wf_def job_defs)

text \<open>The captured stream is exactly what was written to it, in order, and once a run has
  given the job an exit code, no later part of an allowed run changes the output or the code.\<close>

theorem output_frozen_after_exit:
  assumes "run_allowed (j, cs) (es @ es')" and "exitCode (fst (job_run (j, cs) es)) = Some c"
  shows "output_of is_err (fst (job_run (j, cs) (es @ es'))) = output_of is_err j @ written is_err es \<and>
         exitCode (fst (job_run (j, cs) (es @ es'))) = Some c"
  using assms job_run_extends [of "job_run (j, cs) es" es']
  by (auto simp: run_allowed_append job_run_append output_of_job_run
      dest!: job_extends_frozen [where is_err = is_err])

theorem output_frozen_after_exit_witness:
  "output_of False (fst (job_run (newJob 0 [] ''i'' ''c'' [], \<lambda>_. \<lparr>chan_cap = 2, chan_buf = []\<rparr>)
     ([EvOutput False [5], EvDone 0] @ [EvStop True]))) = [5]"
  using output_frozen_after_exit
    [of "newJob 0 [] ''i'' ''c'' []" "\<lambda>_. \<lparr>chan_cap = 2, chan_buf = []\<rparr>"
      "[EvOutput False [5], EvDone 0]" "[EvStop True]" 0 False]
  by (simp add: job_defs output_of_def)

end
