(* ===== verification/Runner.thy ===== *)
theory Runner
  imports Job
begin

text \<open>
  \<open>worker/runner.go\<close>: the limit configuration, the \<open>runner\<close> interface (locale
  \<open>job_runner\<close>), the unlimited \<open>execRunner\<close>, the synchronous part of
  \<open>startCmd\<close>, and the pipe loop of \<open>startPipe\<close>. The operating system's answers
  (pipe creation, process start) are a parameter. The goroutines that \<open>startCmd\<close> leaves
  running are in theory \<open>JobProcess\<close>.
\<close>

section \<open>Configuration\<close>

record JobResourceLimits =
  CPUMaxPeriod :: "64 word"
  CPUMaxQuota :: "64 word"
  MemoryMax :: "64 word"
  DeviceIOMax :: "(string, 64 word) gomap"

record JobIsolation =
  IsoPID :: bool
  IsoNetwork :: bool
  IsoMount :: bool

record JobLimitConfig =
  ResourceLimits :: JobResourceLimits
  Isolation :: JobIsolation

section \<open>Commands and the operating system\<close>

text \<open>
  The part of \<open>exec.Cmd\<close> the program sets, and the answers of the operating system to
  \<open>StdoutPipe\<close>, \<open>StderrPipe\<close> and \<open>Start\<close> (an error or the new process id).
\<close>

record sys_proc_attr =
  Cloneflags :: "64 word"
  UidMappings :: "(int \<times> int \<times> int) list"
  GidMappings :: "(int \<times> int \<times> int) list"

record cmd =
  cmd_path :: string
  cmd_args :: "string list"
  cmd_attr :: "sys_proc_attr option"

record os_cmd =
  stdout_pipe_err :: "go_error option"
  stderr_pipe_err :: "go_error option"
  start_result :: "go_error + int"

type_synonym os = "cmd \<Rightarrow> os_cmd"

section \<open>Starting a command\<close>

text \<open>
  \<open>startCmd\<close> up to its return: the error, or \<open>None\<close> with the job's PID set and the
  goroutines of theory \<open>JobProcess\<close> started.
\<close>

definition startCmd :: "os_cmd \<Rightarrow> job \<Rightarrow> go_error option \<times> job" where
  "startCmd os j =
     (case stdout_pipe_err os of
        Some e \<Rightarrow> (Some (Wrapf ''creating stdout pipe'' e), j)
      | None \<Rightarrow>
        (case stderr_pipe_err os of
           Some e \<Rightarrow> (Some (Wrapf ''creating stderr pipe'' e), j)
         | None \<Rightarrow>
           (case start_result os of
              Inl e \<Rightarrow> (Some e, j)
            | Inr pid \<Rightarrow> (None, j\<lparr>PID := pid\<rparr>))))"

definition exec_command :: "string \<Rightarrow> string list \<Rightarrow> cmd" where
  "exec_command path args = \<lparr>cmd_path = path, cmd_args = args, cmd_attr = None\<rparr>"

definition execRunner_start :: "os \<Rightarrow> job \<Rightarrow> go_error option \<times> job" where
  "execRunner_start os j =
     (if RootFS j \<noteq> [] then (Some (Errorf ''cannot have job root in non-limited runner''), j)
      else startCmd (os (exec_command (Command j) (Args j))) j)"

text \<open>
  The exit code the waiting goroutine derives from the error of \<open>cmd.Wait\<close>.
\<close>

definition exit_code_of_wait :: "go_error option \<Rightarrow> int" where
  "exit_code_of_wait err =
     (case err of
        Some (ExitError c) \<Rightarrow> c
      | Some _ \<Rightarrow> -1
      | None \<Rightarrow> 0)"

section \<open>The runner interface\<close>

text \<open>
  What \<open>SubmitJob\<close> relies on when it calls \<open>runner.start\<close>: a failing start leaves the
  job as it was, a successful one changes the PID and nothing else.
\<close>

locale job_runner =
  fixes start :: "os \<Rightarrow> job \<Rightarrow> go_error option \<times> job"
  assumes start_ok: "start os j = (None, j') \<Longrightarrow> \<exists>pid. j' = j\<lparr>PID := pid\<rparr>"
    and start_err: "start os j = (Some e, j') \<Longrightarrow> j' = j"
begin

lemma start_keeps:
  assumes "start os j = (r, j')"
  shows "Namespace j' = Namespace j" "ID j' = ID j" "Command j' = Command j"
    "Args j' = Args j" "RootFS j' = RootFS j" "stdout j' = stdout j" "stderr j' = stderr j"
    "exitCode j' = exitCode j" "listeners j' = listeners j" "doneCtx j' = doneCtx j"
  using assms start_ok [of os j j'] start_err [of os j _ j'] by (cases r; force)+

lemma start_wf: "start os j = (r, j') \<Longrightarrow> job_wf j \<Longrightarrow> job_wf j'"
  using start_keeps [of os j r j'] by (simp add: job_wf_def listener_list_def)

end

lemma startCmd_cases:
  "startCmd os j = (None, j') \<Longrightarrow> \<exists>pid. start_result os = Inr pid \<and> j' = j\<lparr>PID := pid\<rparr>"
  "startCmd os j = (Some e, j') \<Longrightarrow> j' = j"
  by (auto simp: startCmd_def split: option.splits sum.splits)

interpretation exec_runner: job_runner execRunner_start
  by unfold_locales (auto simp: execRunner_start_def split: if_splits dest: startCmd_cases)

section \<open>The pipe loop\<close>

text \<open>
  One turn of the loop of \<open>startPipe\<close>, for the result of one \<open>Read\<close>: the bytes (if
  any) go to the job whatever the error, and any error ends the loop.
\<close>

definition startPipe_turn ::
  "bool \<Rightarrow> byte list \<times> go_error option \<Rightarrow> job \<times> chans \<Rightarrow> (job \<times> chans) \<times> bool" where
  "startPipe_turn is_err r s =
     (case r of (b, err) \<Rightarrow>
        (if 0 < length b then updateOutput is_err b s else s, err \<noteq> None))"

text \<open>The loop over the results of successive reads; the flag says the loop has returned.\<close>

fun startPipe ::
  "bool \<Rightarrow> (byte list \<times> go_error option) list \<Rightarrow> job \<times> chans \<Rightarrow> (job \<times> chans) \<times> bool" where
  "startPipe is_err [] s = (s, False)"
| "startPipe is_err (r # rs) s =
     (case startPipe_turn is_err r s of
        (s', True) \<Rightarrow> (s', True)
      | (s', False) \<Rightarrow> startPipe is_err rs s')"

text \<open>The reads the loop makes: up to and including the first that returns an error.\<close>

fun reads_made :: "(byte list \<times> go_error option) list \<Rightarrow> (byte list \<times> go_error option) list" where
  "reads_made [] = []"
| "reads_made (r # rs) = (if snd r = None then r # reads_made rs else [r])"

lemma output_of_turn:
  "output_of e (fst (fst (startPipe_turn is_err r s))) =
   output_of e (fst s) @ (if e = is_err then fst r else [])"
  by (cases s; cases r) (auto simp: startPipe_turn_def updateOutput_def output_of_def)

lemma startPipe_output:
  "output_of e (fst (fst (startPipe is_err rs s))) =
   output_of e (fst s) @ (if e = is_err then concat (map fst (reads_made rs)) else [])"
proof (induction rs arbitrary: s)
  case (Cons r rs)
  obtain s' d where turn: "startPipe_turn is_err r s = (s', d)"
    by (cases "startPipe_turn is_err r s")
  then have d: "d = (snd r \<noteq> None)"
    by (auto simp: startPipe_turn_def split: prod.splits)
  have "output_of e (fst s') = output_of e (fst s) @ (if e = is_err then fst r else [])"
    using output_of_turn [of e is_err r s] turn by simp
  with Cons.IH [of s'] turn d show ?case by (cases d) auto
qed simp

lemma startPipe_returns: "snd (startPipe is_err rs s) \<longleftrightarrow> (\<exists>r \<in> set rs. snd r \<noteq> None)"
  by (induction rs arbitrary: s) (auto simp: startPipe_turn_def split: prod.splits bool.splits)

lemma startPipe_exit: "exitCode (fst (fst (startPipe is_err rs s))) = exitCode (fst s)"
proof (induction rs arbitrary: s)
  case (Cons r rs)
  show ?case
    using Cons.IH [of "fst (startPipe_turn is_err r s)"]
    by (cases s; cases r) (auto simp: startPipe_turn_def updateOutput_def split: prod.splits bool.splits)
qed simp

section \<open>Properties\<close>

text \<open>The pipe loop captures every byte read from its pipe, in order, up to and including
  the read that ends it, on its own stream only, and never sets an exit code.\<close>

theorem pipe_captures_everything:
  "output_of is_err (fst (fst (startPipe is_err rs s))) =
     output_of is_err (fst s) @ concat (map fst (reads_made rs)) \<and>
   output_of (\<not> is_err) (fst (fst (startPipe is_err rs s))) = output_of (\<not> is_err) (fst s) \<and>
   exitCode (fst (fst (startPipe is_err rs s))) = exitCode (fst s) \<and>
   (snd (startPipe is_err rs s) \<longleftrightarrow> (\<exists>r \<in> set rs. snd r \<noteq> None))"
  by (simp add: startPipe_output startPipe_returns startPipe_exit)

text \<open>The unlimited runner refuses a job with a root filesystem before touching the
  operating system; otherwise it starts exactly the job's command line, and the job gets a PID
  exactly when both pipes and the process were created. Nothing else of the job changes.\<close>

theorem exec_runner_start_outcome:
  "execRunner_start os j =
     (if RootFS j \<noteq> [] then (Some (Errorf ''cannot have job root in non-limited runner''), j)
      else case startCmd (os \<lparr>cmd_path = Command j, cmd_args = Args j, cmd_attr = None\<rparr>) j of
        (r, j') \<Rightarrow> (r, if r = None then j\<lparr>PID := PID j'\<rparr> else j))"
  by (auto simp: execRunner_start_def exec_command_def startCmd_def split: option.splits sum.splits)

end
