(* ===== verification/JobProcess.thy ===== *)
theory JobProcess
  imports Runner
begin

text \<open>
  The goroutines \<open>startCmd\<close> of \<open>worker/runner.go\<close> leaves running for a started job,
  as a step system: the two pipe readers, the goroutine that waits for both pipes and then for
  the process, and the goroutine that turns stop requests into signals. Callers of the job
  (stop requests, listeners) interleave with them.
\<close>

section \<open>State and steps\<close>

datatype signal = SIGTERM | SIGKILL

datatype waiter_pc = AwaitStdout | AwaitStderr | AwaitCmd | WaiterDone

record proc =
  p_job :: "job \<times> chans"
  out_open :: bool
  err_open :: bool
  waiter :: waiter_pc
  stopCh :: bool
  forceStopCh :: bool
  stopper_running :: bool
  signals :: "signal list"

text \<open>
  One action of one goroutine. \<open>ReadPipe\<close> is a turn of a pipe loop with the result of its
  \<open>Read\<close> into the 1024-byte buffer; \<open>StdoutClosed\<close>, \<open>StderrClosed\<close> and
  \<open>CmdWait\<close> are the three waits of the waiting goroutine; the \<open>Stopper\<close> actions are
  the branches of the \<open>select\<close> of the stopping goroutine and its loop exit.
\<close>

datatype proc_action =
    ReadPipe bool "byte list" "go_error option"
  | StdoutClosed
  | StderrClosed
  | CmdWait "go_error option"
  | Listen nat
  | Unlisten nat
  | StopRequest bool
  | StopperDone
  | StopperTerm
  | StopperKill
  | StopperExit

definition stopper_selecting :: "proc \<Rightarrow> bool" where
  "stopper_selecting p \<longleftrightarrow> stopper_running p \<and> (stopCh p \<or> forceStopCh p)"

text \<open>
  The third branch of the stopping goroutine's \<open>select\<close> receives from
  \<open>j.forceStopCtx.Done()\<close>, not from the local \<open>forceStopCh\<close> that it sets to nil, so
  \<open>StopperKill\<close> does not ask for \<open>forceStopCh p\<close>.
\<close>

fun proc_exec :: "proc_action \<Rightarrow> proc \<Rightarrow> proc option" where
  "proc_exec (ReadPipe is_err b err) p =
     (if (if is_err then err_open p else out_open p) \<and> length b \<le> 1024 then
        (case startPipe_turn is_err (b, err) (p_job p) of
           (s, finished) \<Rightarrow>
             Some (if is_err then p\<lparr>p_job := s, err_open := \<not> finished\<rparr>
                   else p\<lparr>p_job := s, out_open := \<not> finished\<rparr>))
      else None)"
| "proc_exec StdoutClosed p =
     (if waiter p = AwaitStdout \<and> \<not> out_open p then Some (p\<lparr>waiter := AwaitStderr\<rparr>) else None)"
| "proc_exec StderrClosed p =
     (if waiter p = AwaitStderr \<and> \<not> err_open p then Some (p\<lparr>waiter := AwaitCmd\<rparr>) else None)"
| "proc_exec (CmdWait err) p =
     (if waiter p = AwaitCmd
      then Some (p\<lparr>p_job := markDone (exit_code_of_wait err) (p_job p), waiter := WaiterDone\<rparr>)
      else None)"
| "proc_exec (Listen ch) p = Some (p\<lparr>p_job := job_apply (p_job p) (EvListen ch)\<rparr>)"
| "proc_exec (Unlisten ch) p = Some (p\<lparr>p_job := job_apply (p_job p) (EvUnlisten ch)\<rparr>)"
| "proc_exec (StopRequest force) p = Some (p\<lparr>p_job := job_apply (p_job p) (EvStop force)\<rparr>)"
| "proc_exec StopperDone p =
     (if stopper_selecting p \<and> doneCtx (fst (p_job p)) then Some (p\<lparr>stopper_running := False\<rparr>)
      else None)"
| "proc_exec StopperTerm p =
     (if stopper_selecting p \<and> stopCh p \<and> stopCtx (fst (p_job p))
      then Some (p\<lparr>stopCh := False, signals := signals p @ [SIGTERM]\<rparr>) else None)"
| "proc_exec StopperKill p =
     (if stopper_selecting p \<and> forceStopCtx (fst (p_job p))
      then Some (p\<lparr>forceStopCh := False, signals := signals p @ [SIGKILL]\<rparr>) else None)"
| "proc_exec StopperExit p =
     (if stopper_running p \<and> \<not> stopCh p \<and> \<not> forceStopCh p
      then Some (p\<lparr>stopper_running := False\<rparr>) else None)"

inductive proc_step :: "proc \<Rightarrow> proc \<Rightarrow> bool" where
  "proc_exec a p = Some q \<Longrightarrow> proc_step p q"

text \<open>The state in which \<open>startCmd\<close> returns, for a job just made by \<open>newJob\<close>.\<close>

definition proc_start :: "job \<times> chans \<Rightarrow> proc" where
  "proc_start s =
     \<lparr>p_job = s, out_open = True, err_open = True, waiter = AwaitStdout,
      stopCh = True, forceStopCh = True, stopper_running = True, signals = []\<rparr>"

definition fresh_job :: "job \<Rightarrow> bool" where
  "fresh_job j \<longleftrightarrow> job_wf j \<and> exitCode j = None \<and> \<not> stopCtx j \<and> \<not> forceStopCtx j"

inductive proc_init :: "proc \<Rightarrow> bool" where
  "fresh_job (fst s) \<Longrightarrow> proc_init (proc_start s)"

abbreviation proc_run :: "proc_action list \<Rightarrow> proc \<Rightarrow> proc option" where
  "proc_run \<equiv> run_actions proc_exec"

interpretation proc_actions: action_system proc_exec proc_step
  by unfold_locales (auto intro: proc_step.intros elim: proc_step.cases)

lemmas proc_run_steps = proc_actions.run_steps

section \<open>Invariant\<close>

definition proc_inv :: "proc \<Rightarrow> bool" where
  "proc_inv p \<longleftrightarrow>
     job_wf (fst (p_job p)) \<and>
     (waiter p \<noteq> AwaitStdout \<longrightarrow> \<not> out_open p) \<and>
     (waiter p = AwaitCmd \<or> waiter p = WaiterDone \<longrightarrow> \<not> err_open p) \<and>
     (exitCode (fst (p_job p)) \<noteq> None \<longleftrightarrow> waiter p = WaiterDone) \<and>
     length (filter ((=) SIGTERM) (signals p)) = (if stopCh p then 0 else 1) \<and>
     (SIGTERM \<in> set (signals p) \<longrightarrow> stopCtx (fst (p_job p))) \<and>
     (SIGKILL \<in> set (signals p) \<longrightarrow> forceStopCtx (fst (p_job p)))"

text \<open>What an action does to the job is an allowed event, or nothing.\<close>

lemma job_apply_fields:
  "exitCode (fst (job_apply s (EvOutput e b))) = exitCode (fst s)"
  "stopCtx (fst (job_apply s (EvOutput e b))) = stopCtx (fst s)"
  "forceStopCtx (fst (job_apply s (EvOutput e b))) = forceStopCtx (fst s)"
  "exitCode (fst (job_apply s (EvDone c))) = Some c"
  "stopCtx (fst (job_apply s (EvDone c))) = stopCtx (fst s)"
  "forceStopCtx (fst (job_apply s (EvDone c))) = forceStopCtx (fst s)"
  "exitCode (fst (job_apply s (EvListen l))) = exitCode (fst s)"
  "stopCtx (fst (job_apply s (EvListen l))) = stopCtx (fst s)"
  "forceStopCtx (fst (job_apply s (EvListen l))) = forceStopCtx (fst s)"
  "exitCode (fst (job_apply s (EvUnlisten l))) = exitCode (fst s)"
  "stopCtx (fst (job_apply s (EvUnlisten l))) = stopCtx (fst s)"
  "forceStopCtx (fst (job_apply s (EvUnlisten l))) = forceStopCtx (fst s)"
  "exitCode (fst (job_apply s (EvStop f))) = exitCode (fst s)"
  "stopCtx (fst (job_apply s (EvStop f))) = (stopCtx (fst s) \<or> \<not> f)"
  "forceStopCtx (fst (job_apply s (EvStop f))) = (forceStopCtx (fst s) \<or> f)"
  by (cases s; simp add: job_defs Let_def)+

definition proc_event :: "proc_action \<Rightarrow> job_event option" where
  "proc_event a =
     (case a of
        ReadPipe is_err b err \<Rightarrow> if 0 < length b then Some (EvOutput is_err b) else None
      | CmdWait err \<Rightarrow> Some (EvDone (exit_code_of_wait err))
      | Listen ch \<Rightarrow> Some (EvListen ch)
      | Unlisten ch \<Rightarrow> Some (EvUnlisten ch)
      | StopRequest f \<Rightarrow> Some (EvStop f)
      | _ \<Rightarrow> None)"

lemma proc_exec_job:
  "proc_exec a p = Some q \<Longrightarrow>
   p_job q = (case proc_event a of None \<Rightarrow> p_job p | Some e \<Rightarrow> job_apply (p_job p) e)"
  by (cases a) (auto simp: proc_event_def startPipe_turn_def split: if_splits)

lemma proc_exec_allowed:
  assumes "proc_inv p" "proc_exec a p = Some q" "proc_event a = Some e"
  shows "event_allowed (fst (p_job p)) e"
  using assms by (cases a) (auto simp: proc_event_def proc_inv_def split: if_splits)

lemma proc_exec_wf: "proc_inv p \<Longrightarrow> proc_exec a p = Some q \<Longrightarrow> job_wf (fst (p_job q))"
  using proc_exec_job [of a p q] job_apply_wf [of "fst (p_job p)" "snd (p_job p)"]
  by (auto simp: proc_inv_def split: option.splits)

lemma proc_exec_extends:
  "proc_inv p \<Longrightarrow> proc_exec a p = Some q \<Longrightarrow> job_extends (fst (p_job p)) (fst (p_job q))"
  using proc_exec_job [of a p q] proc_exec_allowed [of p a q]
    job_apply_extends [of "fst (p_job p)" _ "snd (p_job p)"]
  by (auto split: option.splits)

text \<open>The fields of the job and of the goroutines after an action.\<close>

lemma proc_exec_fields:
  assumes "proc_exec a p = Some q"
  shows "exitCode (fst (p_job q)) =
      (case a of CmdWait r \<Rightarrow> Some (exit_code_of_wait r) | _ \<Rightarrow> exitCode (fst (p_job p)))"
    and "stopCtx (fst (p_job q)) = (stopCtx (fst (p_job p)) \<or> a = StopRequest False)"
    and "forceStopCtx (fst (p_job q)) = (forceStopCtx (fst (p_job p)) \<or> a = StopRequest True)"
  unfolding proc_exec_job [OF assms]
  by (cases a; simp add: proc_event_def job_apply_fields del: job_apply.simps)+

lemma proc_exec_control:
  assumes "proc_exec a p = Some q"
  shows "out_open q \<longrightarrow> out_open p" and "err_open q \<longrightarrow> err_open p"
    and "waiter q = (case a of StdoutClosed \<Rightarrow> AwaitStderr | StderrClosed \<Rightarrow> AwaitCmd
           | CmdWait r \<Rightarrow> WaiterDone | _ \<Rightarrow> waiter p)"
    and "stopCh q = (stopCh p \<and> a \<noteq> StopperTerm)"
    and "signals q = signals p @ (if a = StopperTerm then [SIGTERM] else [])
           @ (if a = StopperKill then [SIGKILL] else [])"
  using assms by (cases a; auto split: if_splits prod.splits)+

lemma proc_exec_guard:
  assumes "proc_exec a p = Some q"
  shows "a = StdoutClosed \<Longrightarrow> waiter p = AwaitStdout \<and> \<not> out_open p"
    and "a = StderrClosed \<Longrightarrow> waiter p = AwaitStderr \<and> \<not> err_open p"
    and "a = CmdWait r \<Longrightarrow> waiter p = AwaitCmd"
    and "a = StopperTerm \<Longrightarrow> stopCh p \<and> stopCtx (fst (p_job p))"
    and "a = StopperKill \<Longrightarrow> forceStopCtx (fst (p_job p))"
  using assms by (auto split: if_splits)

lemma proc_inv_exec:
  assumes inv: "proc_inv p" and step: "proc_exec a p = Some q"
  shows "proc_inv q"
  using inv proc_exec_wf [OF assms] proc_exec_guard [OF step] proc_exec_control(1,2) [OF step]
  unfolding proc_inv_def proc_exec_fields [OF step] proc_exec_control(3-) [OF step]
  by (cases a; simp; blast)

interpretation procs: invariant_system proc_init proc_step proc_inv
proof
  show "proc_inv p" if "proc_init p" for p
    using that by cases (simp add: proc_inv_def proc_start_def fresh_job_def)
next
  show "proc_inv q" if "proc_inv p" "proc_step p q" for p q
    using that(2,1) by cases (rule proc_inv_exec)
qed

text \<open>Every later state of the job extends an earlier one.\<close>

interpretation proc_history: stable_system proc_init proc_step proc_inv
  "\<lambda>p. job_extends j (fst (p_job p))" for j
  by unfold_locales (auto elim!: proc_step.cases intro: job_extends_trans proc_exec_extends)

text \<open>The stopping goroutine: each channel is there until its signal was sent, and the goroutine ends
  only when the job is done or both channels are gone.\<close>

definition stopper_inv :: "proc \<Rightarrow> bool" where
  "stopper_inv p \<longleftrightarrow>
     (stopCh p \<or> SIGTERM \<in> set (signals p)) \<and> (forceStopCh p \<or> SIGKILL \<in> set (signals p)) \<and>
     (stopper_running p \<or> doneCtx (fst (p_job p)) \<or> \<not> stopCh p \<and> \<not> forceStopCh p)"

lemma stopper_inv_exec:
  assumes "proc_inv p" and "stopper_inv p" and "proc_exec a p = Some q"
  shows "stopper_inv q"
proof -
  have "doneCtx (fst (p_job p)) \<longrightarrow> doneCtx (fst (p_job q))"
    using proc_exec_extends [OF assms(1,3)] assms(1) proc_exec_wf [OF assms(1,3)]
    by (auto simp: job_extends_def proc_inv_def job_wf_def)
  with assms(2,3) show ?thesis
    by (cases a) (auto simp: stopper_inv_def stopper_selecting_def split: if_splits prod.splits)
qed

interpretation stops: invariant_system proc_init proc_step "\<lambda>p. proc_inv p \<and> stopper_inv p"
proof
  show "proc_inv p \<and> stopper_inv p" if "proc_init p" for p
    using that procs.inv_init by (auto simp: stopper_inv_def proc_start_def elim: proc_init.cases)
next
  show "proc_inv q \<and> stopper_inv q" if "proc_inv p \<and> stopper_inv p" "proc_step p q" for p q
    using that(2,1) by cases (blast intro: proc_inv_exec stopper_inv_exec)
qed

lemma proc_run_reach:
  "proc_init p \<Longrightarrow> proc_run as p = Some q \<Longrightarrow> reach proc_init proc_step q"
  by (blast intro: proc_actions.run_reach reach.reach_init)

abbreviation sample_proc :: proc where
  "sample_proc \<equiv> proc_start (newJob 0 [] ''i'' ''c'' [], \<lambda>_. \<lparr>chan_cap = 2, chan_buf = []\<rparr>)"

lemma proc_init_sample: "proc_init sample_proc"
  by (rule proc_init.intros) (simp add: fresh_job_def newJob_wf, simp add: newJob_def)

lemma reach_sample: "reach proc_init proc_step sample_proc"
  by (rule proc_run_reach [OF proc_init_sample, of "[]"]) simp

text \<open>The waiting goroutine's path to completion, from wherever it is.\<close>

definition finish_actions :: "proc \<Rightarrow> proc_action list" where
  "finish_actions p =
     (if out_open p then [ReadPipe False [] (Some EOF)] else []) @
     (if err_open p then [ReadPipe True [] (Some EOF)] else []) @
     (case waiter p of
        AwaitStdout \<Rightarrow> [StdoutClosed, StderrClosed, CmdWait None]
      | AwaitStderr \<Rightarrow> [StderrClosed, CmdWait None]
      | AwaitCmd \<Rightarrow> [CmdWait None]
      | WaiterDone \<Rightarrow> [])"

lemma markDone_fields [simp]:
  "exitCode (fst (markDone c s)) = Some c" "doneCtx (fst (markDone c s)) = True"
  by (simp_all add: markDone_def split: prod.splits)

lemma finish_actions_run:
  "proc_inv p \<Longrightarrow> \<exists>q. proc_run (finish_actions p) p = Some q \<and> doneCtx (fst (p_job q)) \<and>
     exitCode (fst (p_job q)) \<noteq> None"
  by (cases "waiter p")
    (auto simp: finish_actions_def proc_inv_def job_wf_def startPipe_turn_def)

lemma spin:
  "stopper_running p \<Longrightarrow> stopCh p \<Longrightarrow> forceStopCtx (fst (p_job p)) \<Longrightarrow>
   \<exists>p'. proc_run (replicate (Suc n) StopperKill) p = Some p' \<and>
      signals p' = signals p @ replicate (Suc n) SIGKILL \<and> \<not> forceStopCh p' \<and> stopper_running p'"
proof (induction n arbitrary: p)
  case 0
  then show ?case by (simp add: stopper_selecting_def)
next
  case (Suc n)
  let ?q = "p\<lparr>forceStopCh := False, signals := signals p @ [SIGKILL]\<rparr>"
  from Suc.prems have "proc_exec StopperKill p = Some ?q"
    by (simp add: stopper_selecting_def)
  with Suc.IH [of ?q] Suc.prems show ?case
    by (simp del: proc_exec.simps replicate.simps add: replicate_Suc [of "Suc n"])
qed

section \<open>Properties\<close>

text \<open>C20: Whatever the process, the pipes and the callers do, a job only grows: what a reader has
  seen stays, and from the moment the exit code is there both pipes have been read to their end
  and neither the output nor the code changes any more.\<close>

theorem exit_code_freezes_output:
  assumes "reach proc_init proc_step p" and "proc_step\<^sup>*\<^sup>* p q"
  shows "job_extends (fst (p_job p)) (fst (p_job q)) \<and>
    (exitCode (fst (p_job p)) \<noteq> None \<longrightarrow>
       \<not> out_open p \<and> \<not> err_open p \<and>
       exitCode (fst (p_job q)) = exitCode (fst (p_job p)) \<and>
       output_of is_err (fst (p_job q)) = output_of is_err (fst (p_job p)))"
proof -
  have ext: "job_extends (fst (p_job p)) (fst (p_job q))"
    using assms by (rule proc_history.stable_from_reach [OF _ job_extends_refl])
  have "proc_inv p"
    using assms(1) by (rule procs.inv_reach)
  with ext show ?thesis
    by (auto simp: proc_inv_def dest: job_extends_frozen [where is_err = is_err])
qed

theorem exit_code_freezes_output_witness:
  "\<exists>p q. proc_run [ReadPipe False [7] (Some EOF), ReadPipe True [] (Some EOF), StdoutClosed,
        StderrClosed, CmdWait (Some (ExitError 3))] sample_proc = Some p \<and>
     proc_run [StopRequest True] p = Some q \<and>
     exitCode (fst (p_job q)) = Some 3 \<and> output_of False (fst (p_job q)) = [7]"
proof -
  obtain p where p: "proc_run [ReadPipe False [7] (Some EOF), ReadPipe True [] (Some EOF),
      StdoutClosed, StderrClosed, CmdWait (Some (ExitError 3))] sample_proc = Some p"
    and fields: "exitCode (fst (p_job p)) = Some 3" "output_of False (fst (p_job p)) = [7]"
    by (simp add: proc_start_def startPipe_turn_def exit_code_of_wait_def newJob_def
        updateOutput_def markDone_def output_of_def)
  obtain q where q: "proc_run [StopRequest True] p = Some q"
    by simp
  show ?thesis
    using exit_code_freezes_output [OF proc_run_reach [OF proc_init_sample p] proc_run_steps [OF q]]
      p q fields by auto
qed

text \<open>A signal is only ever sent because a caller asked for that kind of stop, and SIGTERM is
  sent at most once.\<close>

theorem signals_follow_requests:
  assumes "reach proc_init proc_step p"
  shows "length (filter ((=) SIGTERM) (signals p)) \<le> 1 \<and>
    (SIGTERM \<in> set (signals p) \<longrightarrow> stopCtx (fst (p_job p))) \<and>
    (SIGKILL \<in> set (signals p) \<longrightarrow> forceStopCtx (fst (p_job p)))"
  using procs.inv_reach [OF assms] by (simp add: proc_inv_def)

theorem signals_follow_requests_witness:
  "\<exists>p. proc_run [StopRequest False, StopperTerm] sample_proc = Some p \<and>
     SIGTERM \<in> set (signals p) \<and> stopCtx (fst (p_job p))"
proof -
  obtain p where p: "proc_run [StopRequest False, StopperTerm] sample_proc = Some p"
    and "SIGTERM \<in> set (signals p)"
    by (simp add: proc_start_def stopper_selecting_def newJob_def Stop_request_def)
  with signals_follow_requests [OF proc_run_reach [OF proc_init_sample p]] show ?thesis
    by blast
qed

text \<open>C21: Stop requests and signals answer each other: a signal is only sent because a caller asked for
  that kind of stop, and SIGTERM at most once; and as long as the job has no exit code, a request
  whose signal has not been sent yet can be served by the stopping goroutine at once, whatever other
  requests came before it: neither request can be lost, and no order of the two blocks the other.\<close>

theorem stop_requests_become_signals:
  assumes "reach proc_init proc_step p"
  shows "length (filter ((=) SIGTERM) (signals p)) \<le> 1 \<and>
    (SIGTERM \<in> set (signals p) \<longrightarrow> stopCtx (fst (p_job p))) \<and>
    (SIGKILL \<in> set (signals p) \<longrightarrow> forceStopCtx (fst (p_job p))) \<and>
    (exitCode (fst (p_job p)) = None \<and> stopCtx (fst (p_job p)) \<and> SIGTERM \<notin> set (signals p) \<longrightarrow>
       (\<exists>q. proc_exec StopperTerm p = Some q \<and> signals q = signals p @ [SIGTERM])) \<and>
    (exitCode (fst (p_job p)) = None \<and> forceStopCtx (fst (p_job p)) \<and> SIGKILL \<notin> set (signals p) \<longrightarrow>
       (\<exists>q. proc_exec StopperKill p = Some q \<and> signals q = signals p @ [SIGKILL]))"
  using stops.inv_reach [OF assms]
  by (auto simp: proc_inv_def stopper_inv_def stopper_selecting_def job_wf_def)

theorem stop_requests_become_signals_witness:
  "\<exists>p q. proc_run [StopRequest True, StopperKill, StopRequest False] sample_proc = Some p \<and>
     signals p = [SIGKILL] \<and> proc_exec StopperTerm p = Some q \<and> signals q = [SIGKILL, SIGTERM]"
proof -
  obtain p where p: "proc_run [StopRequest True, StopperKill, StopRequest False] sample_proc = Some p"
    and f: "signals p = [SIGKILL]" "exitCode (fst (p_job p)) = None" "stopCtx (fst (p_job p))"
    by (simp add: proc_start_def stopper_selecting_def newJob_def Stop_request_def)
  from stop_requests_become_signals [OF proc_run_reach [OF proc_init_sample p]] f
  obtain q where "proc_exec StopperTerm p = Some q" "signals q = [SIGKILL, SIGTERM]"
    by (auto simp del: proc_exec.simps)
  with p f(1) show ?thesis by blast
qed

text \<open>C22: The stopping goroutine spins after a forced stop: for every number there is an execution,
  with one forced stop request and no other, in which SIGKILL has been sent more often than that,
  although the nil-ed channel records after the first one that this way of stopping was tried.\<close>

theorem force_stop_spins:
  "\<exists>p. proc_run (StopRequest True # replicate (Suc n) StopperKill) sample_proc = Some p \<and>
     reach proc_init proc_step p \<and> signals p = replicate (Suc n) SIGKILL \<and>
     \<not> forceStopCh p \<and> stopper_running p"
proof -
  obtain p where p: "proc_run (StopRequest True # replicate (Suc n) StopperKill) sample_proc = Some p"
    and rest: "signals p = replicate (Suc n) SIGKILL" "\<not> forceStopCh p" "stopper_running p"
    using spin [of "sample_proc\<lparr>p_job := job_apply (p_job sample_proc) (EvStop True)\<rparr>" n]
    by (auto simp: proc_start_def Stop_request_def)
  with proc_run_reach [OF proc_init_sample p] show ?thesis
    by blast
qed

text \<open>No reachable state is a dead end for completion: if the pipes report end of file and
  the process is waited for, the job gets its exit code.\<close>

theorem job_can_complete:
  assumes "reach proc_init proc_step p"
  shows "\<exists>q. proc_run (finish_actions p) p = Some q \<and> proc_step\<^sup>*\<^sup>* p q \<and>
    doneCtx (fst (p_job q)) \<and> exitCode (fst (p_job q)) \<noteq> None"
  using finish_actions_run [OF procs.inv_reach [OF assms]] proc_run_steps by blast

theorem job_can_complete_witness:
  "\<exists>q. proc_run (finish_actions sample_proc) sample_proc = Some q \<and> doneCtx (fst (p_job q))"
  using job_can_complete [OF reach_sample] by blast

text \<open>Stop never dereferences a missing exit code: on every reachable job the select of Stop
  returns the exit code of a finished job or the context's error, and it can only block while
  the job runs and the context is open.\<close>

theorem stop_returns_exit_code:
  assumes "reach proc_init proc_step p"
  shows "Stop_wait ctx_err prefer_ctx (fst (p_job p)) \<noteq> Panic \<and>
    (Stop_wait ctx_err prefer_ctx (fst (p_job p)) = Ret (c, None) \<longrightarrow>
       exitCode (fst (p_job p)) = Some c) \<and>
    (Stop_wait ctx_err prefer_ctx (fst (p_job p)) = Block \<longleftrightarrow>
       ctx_err = None \<and> exitCode (fst (p_job p)) = None)"
  using procs.inv_reach [OF assms]
  by (auto simp: Stop_wait_def ExitCode_def proc_inv_def job_wf_def
      split: option.splits if_splits)

theorem stop_returns_exit_code_witness:
  "\<exists>p. proc_run (finish_actions sample_proc) sample_proc = Some p \<and>
     Stop_wait None False (fst (p_job p)) \<noteq> Panic \<and> Stop_wait None False (fst (p_job p)) \<noteq> Block"
proof -
  obtain p where p: "proc_run (finish_actions sample_proc) sample_proc = Some p"
    and "exitCode (fst (p_job p)) \<noteq> None"
    using finish_actions_run [OF procs.inv_init [OF proc_init_sample]] by blast
  with stop_returns_exit_code [OF proc_run_reach [OF proc_init_sample p], of None False] show ?thesis
    by simp
qed

end
