(* ===== verification/Paths.thy ===== *)
theory Paths
  imports Prelude
begin

text \<open>
  The parts of the Go standard library the program uses on strings: decimal printing
  (\<open>strconv.FormatUint\<close>, \<open>%v\<close> of an unsigned number), \<open>strings.Join\<close>,
  \<open>filepath.Clean\<close> and \<open>filepath.Join\<close> on a Unix system.
\<close>

section \<open>Decimal numbers\<close>

definition digit_char :: "nat \<Rightarrow> char" where
  "digit_char d = char_of (48 + d)"

fun show_nat :: "nat \<Rightarrow> string" where
  "show_nat n = (if n < 10 then [digit_char n] else show_nat (n div 10) @ [digit_char (n mod 10)])"

declare show_nat.simps [simp del]

definition FormatUint :: "64 word \<Rightarrow> string" where
  "FormatUint w = show_nat (unat w)"

definition read_nat :: "string \<Rightarrow> nat" where
  "read_nat s = foldl (\<lambda>n c. 10 * n + (of_char c - 48)) 0 s"

lemma of_char_digit: "d < 10 \<Longrightarrow> (of_char (digit_char d) :: nat) = 48 + d"
  by (simp add: digit_char_def)

lemma read_show_nat: "read_nat (show_nat n) = n"
proof (induction n rule: show_nat.induct)
  case (1 n)
  then show ?case
    by (cases "n < 10")
      (simp_all add: show_nat.simps [of n] read_nat_def of_char_digit)
qed

lemma show_nat_inj: "show_nat m = show_nat n \<longleftrightarrow> m = n"
  by (metis read_show_nat)

lemma FormatUint_inj: "FormatUint v = FormatUint w \<longleftrightarrow> v = w"
  by (simp add: FormatUint_def show_nat_inj word_unat_eq_iff)

lemma show_nat_nonempty: "show_nat n \<noteq> []"
  by (subst show_nat.simps) simp

lemma set_show_nat: "set (show_nat n) \<subseteq> digit_char ` {..<10}"
proof (induction n rule: show_nat.induct)
  case (1 n)
  then show ?case by (cases "n < 10") (simp_all add: show_nat.simps [of n])
qed

lemma digit_char_neq:
  "d < 10 \<Longrightarrow> of_char c < (48 :: nat) \<or> 57 < (of_char c :: nat) \<Longrightarrow> digit_char d \<noteq> c"
  using of_char_digit by fastforce

lemma colon_not_digit: "CHR '':'' \<notin> set (show_nat n)"
  using set_show_nat [of n] digit_char_neq [of _ "CHR '':''"] by fastforce

section \<open>Joining and cleaning paths\<close>

fun join_with :: "string \<Rightarrow> string list \<Rightarrow> string" where
  "join_with sep [] = []"
| "join_with sep [s] = s"
| "join_with sep (s # ss) = s @ sep @ join_with sep ss"

fun split_on :: "char \<Rightarrow> string \<Rightarrow> string list" where
  "split_on c [] = [[]]"
| "split_on c (x # xs) =
     (if x = c then [] # split_on c xs
      else case split_on c xs of [] \<Rightarrow> [[x]] | p # ps \<Rightarrow> (x # p) # ps)"

text \<open>
  The elements kept by \<open>filepath.Clean\<close>, the accumulator being what is kept so far, last
  element first: empty and \<open>.\<close> elements are dropped, \<open>..\<close> removes the element before
  it, is dropped at the root, and is kept at the start of a relative path.
\<close>

fun clean_parts :: "bool \<Rightarrow> string list \<Rightarrow> string list \<Rightarrow> string list" where
  "clean_parts rooted acc [] = rev acc"
| "clean_parts rooted acc (p # ps) =
     (if p = [] \<or> p = ''.'' then clean_parts rooted acc ps
      else if p = ''..'' then
        (case acc of
           [] \<Rightarrow> clean_parts rooted (if rooted then [] else [p]) ps
         | a # as \<Rightarrow> clean_parts rooted (if a = ''..'' then p # acc else as) ps)
      else clean_parts rooted (p # acc) ps)"

definition path_clean :: "string \<Rightarrow> string" where
  "path_clean s =
     (case s of
        [] \<Rightarrow> ''.''
      | c # _ \<Rightarrow>
          let rooted = (c = CHR ''/'');
              body = join_with ''/'' (clean_parts rooted [] (split_on (CHR ''/'') s))
          in if rooted then CHR ''/'' # body else if body = [] then ''.'' else body)"

definition path_join :: "string list \<Rightarrow> string" where
  "path_join es =
     (case dropWhile (\<lambda>e. e = []) es of
        [] \<Rightarrow> []
      | es' \<Rightarrow> path_clean (join_with ''/'' es'))"

lemma path_clean_nonempty: "path_clean s \<noteq> []"
  by (auto simp: path_clean_def Let_def split: list.splits)

text \<open>The last element of a joined path, when it is an ordinary name, is still there after cleaning.\<close>

definition plain_name :: "string \<Rightarrow> bool" where
  "plain_name f \<longleftrightarrow> f \<noteq> [] \<and> f \<noteq> ''.'' \<and> f \<noteq> ''..'' \<and> CHR ''/'' \<notin> set f"

definition last_element :: "string \<Rightarrow> string" where
  "last_element p = rev (takeWhile (\<lambda>c. c \<noteq> CHR ''/'') (rev p))"

lemma split_on_nonempty: "split_on c xs \<noteq> []"
  by (cases xs) (auto split: list.splits)

lemma split_on_plain: "c \<notin> set xs \<Longrightarrow> split_on c xs = [xs]"
  by (induction xs) auto

lemma split_on_append: "split_on c (xs @ c # ys) = split_on c xs @ split_on c ys"
  by (induction xs) (auto simp: split_on_nonempty split: list.splits)

lemma clean_parts_snoc:
  "plain_name f \<Longrightarrow> clean_parts rooted acc (ps @ [f]) = clean_parts rooted acc ps @ [f]"
  by (induction ps arbitrary: acc) (auto simp: plain_name_def split: list.splits)

lemma join_with_snoc: "ps \<noteq> [] \<Longrightarrow> join_with sep (ps @ [f]) = join_with sep ps @ sep @ f"
  by (induction sep ps rule: join_with.induct) auto

lemma last_element_append: "CHR ''/'' \<notin> set f \<Longrightarrow> last_element (p @ CHR ''/'' # f) = f"
  "CHR ''/'' \<notin> set f \<Longrightarrow> last_element f = f"
proof -
  have "takeWhile (\<lambda>c. c \<noteq> CHR ''/'') (rev f @ ys) = rev f @ takeWhile (\<lambda>c. c \<noteq> CHR ''/'') ys"
    if "CHR ''/'' \<notin> set f" for ys
    by (rule takeWhile_append2) (use that in auto)
  note t = this
  show "last_element (p @ CHR ''/'' # f) = f" if "CHR ''/'' \<notin> set f"
    using t [OF that, of "CHR ''/'' # rev p"] by (simp add: last_element_def)
  show "last_element f = f" if "CHR ''/'' \<notin> set f"
    using t [OF that, of "[]"] by (simp only: last_element_def append_Nil2 takeWhile.simps rev_rev_ident)
qed

lemma last_element_join:
  assumes "d \<noteq> []" and "plain_name f"
  shows "last_element (path_join [d, f]) = f"
proof -
  obtain c d' where d: "d = c # d'" using assms(1) by (cases d) auto
  let ?rooted = "c = CHR ''/''"
  let ?ps = "clean_parts ?rooted [] (split_on (CHR ''/'') d)"
  have f: "f \<noteq> []" "CHR ''/'' \<notin> set f" using assms(2) by (simp_all add: plain_name_def)
  have "clean_parts ?rooted [] (split_on (CHR ''/'') (d @ CHR ''/'' # f)) = ?ps @ [f]"
    by (simp add: split_on_append split_on_plain [OF f(2)] clean_parts_snoc [OF assms(2)])
  then have p: "path_join [d, f] = (if ?rooted then [CHR ''/''] else []) @ join_with ''/'' (?ps @ [f])"
    using f(1) by (cases "?ps = []") (auto simp: path_join_def path_clean_def d Let_def join_with_snoc)
  show ?thesis
    using f(2) last_element_append(1) [of f "[]"] last_element_append(1) [of f "join_with ''/'' ?ps"]
      last_element_append(1) [of f "CHR ''/'' # join_with ''/'' ?ps"] last_element_append(2) [of f]
    by (cases "?ps = []") (auto simp: p join_with_snoc)
qed

lemma joined_names_differ:
  "d \<noteq> [] \<Longrightarrow> d' \<noteq> [] \<Longrightarrow> plain_name f \<Longrightarrow> plain_name f' \<Longrightarrow> f \<noteq> f' \<Longrightarrow>
   path_join [d, f] \<noteq> path_join [d', f']"
  using last_element_join by metis

text \<open>Joining ordinary names under an absolute path of ordinary names only puts slashes between them.\<close>

lemma split_on_joined:
  "ps \<noteq> [] \<Longrightarrow> \<forall>p \<in> set ps. plain_name p \<Longrightarrow> split_on (CHR ''/'') (join_with ''/'' ps) = ps"
  by (induction "''/''" ps rule: join_with.induct)
    (auto simp: plain_name_def split_on_append split_on_plain)

lemma clean_parts_plain: "\<forall>p \<in> set ps. plain_name p \<Longrightarrow> clean_parts rooted acc ps = rev acc @ ps"
  by (induction ps arbitrary: acc) (auto simp: plain_name_def)

lemma path_clean_plain:
  "ps \<noteq> [] \<Longrightarrow> \<forall>p \<in> set ps. plain_name p \<Longrightarrow>
   path_clean (CHR ''/'' # join_with ''/'' ps) = CHR ''/'' # join_with ''/'' ps"
  by (simp add: path_clean_def Let_def split_on_joined clean_parts_plain plain_name_def)

lemma path_join_nonempty: "e \<noteq> [] \<Longrightarrow> path_join (e # es) \<noteq> []"
  by (simp add: path_join_def path_clean_nonempty)

end
