(* ===== verification/Limits.thy ===== *)
theory Limits
  imports Runner Paths
begin

text \<open>
  \<open>worker/runner_linux.go\<close> and \<open>worker/runner_nonlinux.go\<close>: the limited runner and the
  re-executed child that applies the limits. System calls go through a \<open>kernel\<close>, a
  function from the calls made so far and the next call to its error; the state of the
  sequential code is the trace of calls made. JSON encoding, the user and group ids, the
  container id and the result of \<open>stat\<close> are parameters.
\<close>

section \<open>System calls\<close>

datatype syscall =
    SysMkdirAll string nat
  | SysWriteFile string string nat
  | SysRemoveAll string
  | SysMount string string string nat string
  | SysPivotRoot string string
  | SysChdir string
  | SysUnmount string nat
  | SysRun string "string list"

type_synonym kernel = "syscall list \<Rightarrow> syscall \<Rightarrow> go_error option"

text \<open>
  The source's \<open>if err := call; err != nil { return fmt.Errorf(msg, err) }\<close>, repeated:
  calls with their messages, run until the first failure.
\<close>

fun exec_all :: "kernel \<Rightarrow> (syscall \<times> string) list \<Rightarrow> syscall list \<Rightarrow> go_error option \<times> syscall list" where
  "exec_all k [] h = (None, h)"
| "exec_all k ((c, msg) # cs) h =
     (case k h c of
        Some e \<Rightarrow> (Some (Wrapf msg e), h @ [c])
      | None \<Rightarrow> exec_all k cs (h @ [c]))"

fun all_ok :: "kernel \<Rightarrow> syscall list \<Rightarrow> syscall list \<Rightarrow> bool" where
  "all_ok k h [] = True"
| "all_ok k h (c # cs) = (k h c = None \<and> all_ok k (h @ [c]) cs)"

lemma all_ok_append: "all_ok k h (cs @ ds) \<longleftrightarrow> all_ok k h cs \<and> all_ok k (h @ cs) ds"
  by (induction cs arbitrary: h) auto

lemma exec_all_ok: "exec_all k cs h = (None, h') \<longleftrightarrow> all_ok k h (map fst cs) \<and> h' = h @ map fst cs"
  by (induction k cs h rule: exec_all.induct) (auto split: option.splits)

lemma exec_all_trace: "exec_all k cs h = (r, h') \<Longrightarrow> \<exists>ds. h' = h @ ds \<and> prefix ds (map fst cs)"
proof (induction k cs h rule: exec_all.induct)
  case (2 k c msg cs h)
  show ?case
  proof (cases "k h c")
    case None
    with 2 obtain ds where "h' = (h @ [c]) @ ds" "prefix ds (map fst cs)" by auto
    then show ?thesis by (intro exI [of _ "c # ds"]) simp
  next
    case (Some e)
    with 2 show ?thesis by (intro exI [of _ "[c]"]) simp
  qed
qed simp

section \<open>Configuration of the limited runner\<close>

record jobLimitArgs = JobResourceLimits +
  RootMount :: string

definition device_name :: "64 word \<Rightarrow> string" where
  "device_name dev = show_nat (unat (dev div 256)) @ '':'' @ show_nat (unat (dev mod 256))"

text \<open>
  \<open>newLimitedRunner\<close> works on the caller's configuration through a pointer, so it returns
  the configuration as it leaves it beside its result. \<open>stat\<close> is the outcome of
  \<open>syscall.Stat\<close> on the executable: an error or the device number.
\<close>

definition newLimitedRunner ::
  "go_error + 64 word \<Rightarrow> JobLimitConfig \<Rightarrow> (go_error + JobLimitConfig) \<times> JobLimitConfig" where
  "newLimitedRunner stat config =
     (let rl = ResourceLimits config in
      if (CPUMaxPeriod rl = 0) \<noteq> (CPUMaxQuota rl = 0)
      then (Inl (Errorf ''must set either both or neither CPU limit''), config)
      else
        let limit = (case gomap_get (DeviceIOMax rl) [] of None \<Rightarrow> 0 | Some l \<Rightarrow> l) in
        if 0 < limit then
          let deleted = config\<lparr>ResourceLimits :=
                rl\<lparr>DeviceIOMax := gomap_delete [] (DeviceIOMax rl)\<rparr>\<rparr> in
          (case stat of
             Inl e \<Rightarrow> (Inl (Wrapf ''getting device info for executable'' e), deleted)
           | Inr dev \<Rightarrow>
               let config' = config\<lparr>ResourceLimits :=
                     rl\<lparr>DeviceIOMax := gomap_set (device_name dev) limit
                          (gomap_delete [] (DeviceIOMax rl))\<rparr>\<rparr>
               in (Inr config', config'))
        else (Inr config, config))"

text \<open>The stand-ins on other systems.\<close>

definition newLimitedRunner_nonlinux :: "JobLimitConfig \<Rightarrow> go_error + JobLimitConfig" where
  "newLimitedRunner_nonlinux config =
     Inl (Errorf ''resource limited runner only supported on linux'')"

definition ExecLimitedChild_nonlinux :: "string list \<Rightarrow> go_error option" where
  "ExecLimitedChild_nonlinux args =
     Some (Errorf ''limited child execution only supported on linux'')"

section \<open>Starting a limited job\<close>

abbreviation "CLONE_NEWNS \<equiv> (0x00020000 :: 64 word)"
abbreviation "CLONE_NEWUTS \<equiv> (0x04000000 :: 64 word)"
abbreviation "CLONE_NEWIPC \<equiv> (0x08000000 :: 64 word)"
abbreviation "CLONE_NEWUSER \<equiv> (0x10000000 :: 64 word)"
abbreviation "CLONE_NEWPID \<equiv> (0x20000000 :: 64 word)"
abbreviation "CLONE_NEWNET \<equiv> (0x40000000 :: 64 word)"

unbundle bit_operations_syntax

definition clone_flags :: "JobIsolation \<Rightarrow> 64 word" where
  "clone_flags isolation =
     (let f0 = CLONE_NEWUTS OR CLONE_NEWIPC OR CLONE_NEWUSER;
          f1 = (if IsoPID isolation then f0 OR CLONE_NEWPID else f0);
          f2 = (if IsoNetwork isolation then f1 OR CLONE_NEWNET else f1)
      in if IsoMount isolation then f2 OR CLONE_NEWNS else f2)"

definition limit_args :: "JobLimitConfig \<Rightarrow> job \<Rightarrow> jobLimitArgs" where
  "limit_args cfg j = JobResourceLimits.extend (ResourceLimits cfg) (jobLimitArgs.fields (RootFS j))"

text \<open>
  \<open>marshal\<close> stands for \<open>json.Marshal\<close> of the limit arguments, \<open>uid\<close> and
  \<open>gid\<close> for \<open>os.Getuid\<close> and \<open>os.Getgid\<close>.
\<close>

definition limited_cmd ::
  "(jobLimitArgs \<Rightarrow> go_error + string) \<Rightarrow> int \<Rightarrow> int \<Rightarrow> JobLimitConfig \<Rightarrow> job \<Rightarrow> go_error + cmd" where
  "limited_cmd marshal uid gid cfg j =
     (case marshal (limit_args cfg j) of
        Inl e \<Rightarrow> Inl e
      | Inr json \<Rightarrow> Inr
          \<lparr>cmd_path = ''/proc/self/exe'',
           cmd_args = [''child-exec'', json, Command j] @ Args j,
           cmd_attr = Some \<lparr>Cloneflags = clone_flags (Isolation cfg),
             UidMappings = [(0, uid, 1)], GidMappings = [(0, gid, 1)]\<rparr>\<rparr>)"

definition limitedRunner_start ::
  "(jobLimitArgs \<Rightarrow> go_error + string) \<Rightarrow> int \<Rightarrow> int \<Rightarrow> JobLimitConfig \<Rightarrow> os \<Rightarrow> job \<Rightarrow>
     go_error option \<times> job" where
  "limitedRunner_start marshal uid gid cfg os j =
     (case limited_cmd marshal uid gid cfg j of
        Inl e \<Rightarrow> (Some e, j)
      | Inr cmd \<Rightarrow> startCmd (os cmd) j)"

interpretation limited_runner: job_runner "limitedRunner_start marshal uid gid cfg"
  for marshal uid gid cfg
  by unfold_locales (auto simp: limitedRunner_start_def split: sum.splits dest: startCmd_cases)

section \<open>The child\<close>

abbreviation "perm_0755 \<equiv> (7 * 64 + 5 * 8 + 5 :: nat)"
abbreviation "perm_0644 \<equiv> (6 * 64 + 4 * 8 + 4 :: nat)"

definition cgroup_dir :: "string \<Rightarrow> string \<Rightarrow> string" where
  "cgroup_dir cid controller = path_join [''/sys/fs/cgroup'', controller, ''teleworker'', cid]"

definition setting_calls :: "string \<Rightarrow> (string \<times> string) list \<Rightarrow> (syscall \<times> string) list" where
  "setting_calls dir settings =
     map (\<lambda>(f, v). (SysWriteFile (path_join [dir, f]) v perm_0644, ''writing file '' @ path_join [dir, f]))
       (settings @ [(''cgroup.procs'', ''0'')])"

definition writeCGroupSettings ::
  "kernel \<Rightarrow> string \<Rightarrow> string \<Rightarrow> (string \<times> string) list \<Rightarrow> syscall list \<Rightarrow>
     string \<times> go_error option \<times> syscall list" where
  "writeCGroupSettings k cid controller settings h =
     (let dir = cgroup_dir cid controller in
      case exec_all k [(SysMkdirAll dir perm_0755, ''creating dir '' @ dir)] h of
        (Some e, h') \<Rightarrow> ([], Some e, h')
      | (None, h') \<Rightarrow>
          (case exec_all k (setting_calls dir settings) h' of (err, h'') \<Rightarrow> (dir, err, h'')))"

definition pivot_calls :: "string \<Rightarrow> (syscall \<times> string) list" where
  "pivot_calls target =
     (let procDir = path_join [target, ''proc'']; pivotOld = path_join [target, ''.pivot_old''] in
      [(SysMkdirAll procDir perm_0755, ''creating proc in root mount''),
       (SysMount ''proc'' procDir ''proc'' 0 '''', ''mounting proc''),
       (SysMount target target '''' (4096 + 16384) '''', ''mounting root''),
       (SysMkdirAll pivotOld perm_0755, ''creating pivot old dir''),
       (SysPivotRoot target pivotOld, ''calling pivot root''),
       (SysChdir ''/'', ''changing root dir''),
       (SysUnmount ''/.pivot_old'' 2, ''unmounting pivot old dir''),
       (SysRemoveAll ''/.pivot_old'', ''removing pivot old dir'')])"

definition pivotRoot :: "kernel \<Rightarrow> string \<Rightarrow> syscall list \<Rightarrow> go_error option \<times> syscall list" where
  "pivotRoot k target h = exec_all k (pivot_calls target) h"

text \<open>
  The loop over \<open>DeviceIOMax\<close> builds the read and the write settings together; it tests
  the length of the read builder for both separators.
\<close>

fun device_lines :: "(string, 64 word) gomap \<Rightarrow> string \<times> string \<Rightarrow> string \<times> string" where
  "device_lines [] rw = rw"
| "device_lines ((dev, bps) # m) (r, w) =
     (let sep = (if 0 < length r then [CHR 0x0A] else []);
          str = dev @ ''  '' @ FormatUint bps
      in device_lines m (r @ sep @ str, w @ sep @ str))"

text \<open>The three guarded blocks of \<open>ExecLimitedChild\<close>: which controllers get which settings.\<close>

definition requested_limits :: "jobLimitArgs \<Rightarrow> (string \<times> (string \<times> string) list) list" where
  "requested_limits la =
     (if 0 < CPUMaxPeriod la \<and> 0 < CPUMaxQuota la
      then [(''cpu'', [(''cpu.cfs_period_us'', FormatUint (CPUMaxPeriod la)),
                       (''cpu.cfs_quota_us'', FormatUint (CPUMaxQuota la))])] else []) @
     (if 0 < MemoryMax la
      then [(''memory'', [(''memory.limit_in_bytes'', FormatUint (MemoryMax la)),
                          (''memory.memsw.limit_in_bytes'', FormatUint (MemoryMax la))])] else []) @
     (if 0 < length (DeviceIOMax la)
      then (case device_lines (DeviceIOMax la) ([], []) of
              (r, w) \<Rightarrow> [(''blkio'', [(''blkio.throttle.read_bps_device'', r),
                                   (''blkio.throttle.write_bps_device'', w)])]) else [])"

text \<open>
  The blocks in order. The directories for the deferred removals are collected, newest first;
  the first error ends the sequence.
\<close>

fun apply_limits ::
  "kernel \<Rightarrow> string \<Rightarrow> (string \<times> (string \<times> string) list) list \<Rightarrow> string list \<Rightarrow> syscall list \<Rightarrow>
     go_error option \<times> string list \<times> syscall list" where
  "apply_limits k cid [] dirs h = (None, dirs, h)"
| "apply_limits k cid ((controller, settings) # ls) dirs h =
     (case writeCGroupSettings k cid controller settings h of
        (dir, err, h') \<Rightarrow>
          let dirs' = (if dir \<noteq> [] then dir # dirs else dirs) in
          case err of Some e \<Rightarrow> (Some e, dirs', h') | None \<Rightarrow> apply_limits k cid ls dirs' h')"

definition run_command :: "kernel \<Rightarrow> string \<Rightarrow> string list \<Rightarrow> syscall list \<Rightarrow> go_error option \<times> syscall list" where
  "run_command k path args h = (k h (SysRun path args), h @ [SysRun path args])"

text \<open>
  \<open>ExecLimitedChild\<close> on \<open>args\<close>, returning its error and the trace. The deferred
  \<open>os.RemoveAll\<close> calls run at every return, last deferred first, and their errors are
  ignored.
\<close>

definition ExecLimitedChild ::
  "kernel \<Rightarrow> (string \<Rightarrow> go_error + jobLimitArgs) \<Rightarrow> string \<Rightarrow> string list \<Rightarrow> syscall list \<Rightarrow>
     go_error option \<times> syscall list" where
  "ExecLimitedChild k unmarshal cid args h =
     (case args of
        json # path # rest \<Rightarrow>
          (case unmarshal json of
             Inl e \<Rightarrow> (Some (Wrapf ''invalid child exec args'' e), h)
           | Inr la \<Rightarrow>
               (case apply_limits k cid (requested_limits la) [] h of
                  (Some e, dirs, h1) \<Rightarrow> (Some e, h1 @ map SysRemoveAll dirs)
                | (None, dirs, h1) \<Rightarrow>
                    (case (if RootMount la \<noteq> [] then pivotRoot k (RootMount la) h1 else (None, h1)) of
                       (Some e, h2) \<Rightarrow> (Some e, h2 @ map SysRemoveAll dirs)
                     | (None, h2) \<Rightarrow>
                         (case run_command k path rest h2 of
                            (err, h3) \<Rightarrow> (err, h3 @ map SysRemoveAll dirs)))))
      | _ \<Rightarrow> (Some (Errorf ''invalid arg count''), h))"

section \<open>Traces of the child\<close>

definition group_calls :: "string \<Rightarrow> string \<times> (string \<times> string) list \<Rightarrow> syscall list" where
  "group_calls cid l = (case l of (c, st) \<Rightarrow>
     SysMkdirAll (cgroup_dir cid c) perm_0755 # map fst (setting_calls (cgroup_dir cid c) st))"

definition limit_calls :: "string \<Rightarrow> jobLimitArgs \<Rightarrow> syscall list" where
  "limit_calls cid la = concat (map (group_calls cid) (requested_limits la))"

definition setup_calls :: "string \<Rightarrow> jobLimitArgs \<Rightarrow> syscall list" where
  "setup_calls cid la =
     limit_calls cid la @ (if RootMount la \<noteq> [] then map fst (pivot_calls (RootMount la)) else [])"

text \<open>The directories whose creation succeeded in a trace, in order.\<close>

fun made_dirs :: "kernel \<Rightarrow> syscall list \<Rightarrow> syscall list \<Rightarrow> string list" where
  "made_dirs k h [] = []"
| "made_dirs k h (c # cs) =
     (case c of SysMkdirAll d p \<Rightarrow> (if k h c = None then [d] else []) | _ \<Rightarrow> []) @
     made_dirs k (h @ [c]) cs"

lemma made_dirs_append: "made_dirs k h (cs @ ds) = made_dirs k h cs @ made_dirs k (h @ cs) ds"
  by (induction cs arbitrary: h) auto

lemma made_dirs_none: "\<forall>d p. SysMkdirAll d p \<notin> set cs \<Longrightarrow> made_dirs k h cs = []"
  by (induction cs arbitrary: h) (auto split: syscall.splits)

lemma cgroup_dir_nonempty: "cgroup_dir cid c \<noteq> []"
  unfolding cgroup_dir_def by (rule path_join_nonempty) simp

lemma made_dirs_settings:
  assumes "prefix ds (map fst (setting_calls dir st))"
  shows "made_dirs k h ds = []"
proof (rule made_dirs_none)
  have "SysMkdirAll d p \<notin> set (map fst (setting_calls dir st))" for d p
    by (auto simp: setting_calls_def)
  with assms show "\<forall>d p. SysMkdirAll d p \<notin> set ds"
    by (meson set_mono_prefix subsetD)
qed

lemma writeCGroupSettings_trace:
  assumes "writeCGroupSettings k cid c st h = (dir, err, h')"
  shows "\<exists>ds. h' = h @ ds \<and> prefix ds (group_calls cid (c, st)) \<and>
    (if dir \<noteq> [] then [dir] else []) = made_dirs k h ds \<and>
    (err = None \<longleftrightarrow> all_ok k h (group_calls cid (c, st))) \<and>
    (err = None \<longrightarrow> ds = group_calls cid (c, st))"
proof (cases "k h (SysMkdirAll (cgroup_dir cid c) perm_0755)")
  case None
  let ?h1 = "h @ [SysMkdirAll (cgroup_dir cid c) perm_0755]"
  from None assms have dir: "dir = cgroup_dir cid c"
    and ex: "exec_all k (setting_calls dir st) ?h1 = (err, h')"
    by (auto simp: writeCGroupSettings_def Let_def split: prod.splits)
  obtain ds where ds: "h' = ?h1 @ ds" "prefix ds (map fst (setting_calls dir st))"
    using exec_all_trace [OF ex] by blast
  have "err = None \<longleftrightarrow> all_ok k ?h1 (map fst (setting_calls dir st))"
    using exec_all_ok [of k "setting_calls dir st" ?h1 h'] ex
    by (metis exec_all_ok prod.inject prod.exhaust_sel)
  moreover have "err = None \<Longrightarrow> ds = map fst (setting_calls dir st)"
    using exec_all_ok [of k "setting_calls dir st" ?h1 h'] ex ds by simp
  ultimately show ?thesis
    using None ds dir made_dirs_settings [OF ds(2)]
    by (intro exI [of _ "SysMkdirAll (cgroup_dir cid c) perm_0755 # ds"])
      (auto simp: group_calls_def cgroup_dir_nonempty)
next
  case (Some e)
  with assms show ?thesis
    by (intro exI [of _ "[SysMkdirAll (cgroup_dir cid c) perm_0755]"])
      (auto simp: writeCGroupSettings_def Let_def group_calls_def)
qed

lemma apply_limits_trace:
  assumes "apply_limits k cid ls dirs h = (err, dirs', h')"
  shows "\<exists>ds. h' = h @ ds \<and> prefix ds (concat (map (group_calls cid) ls)) \<and>
    dirs' = rev (made_dirs k h ds) @ dirs \<and>
    (err = None \<longleftrightarrow> all_ok k h (concat (map (group_calls cid) ls))) \<and>
    (err = None \<longrightarrow> ds = concat (map (group_calls cid) ls))"
  using assms
proof (induction ls arbitrary: dirs h)
  case (Cons l ls)
  obtain c st where l: "l = (c, st)" by (cases l)
  obtain dir e1 h1 where w: "writeCGroupSettings k cid c st h = (dir, e1, h1)"
    by (cases "writeCGroupSettings k cid c st h") auto
  obtain ds1 where d1: "h1 = h @ ds1" "prefix ds1 (group_calls cid l)"
      "(if dir \<noteq> [] then [dir] else []) = made_dirs k h ds1"
      "e1 = None \<longleftrightarrow> all_ok k h (group_calls cid l)" "e1 = None \<longrightarrow> ds1 = group_calls cid l"
    using writeCGroupSettings_trace [OF w] l by auto
  have dirs: "(if dir \<noteq> [] then dir # dirs else dirs) = rev (made_dirs k h ds1) @ dirs"
    using d1(3) [symmetric] by simp
  show ?case
  proof (cases e1)
    case None
    from Cons.prems have rest: "apply_limits k cid ls (rev (made_dirs k h ds1) @ dirs) h1 = (err, dirs', h')"
      using None w l dirs by (simp add: Let_def)
    obtain ds2 where "h' = h1 @ ds2" "prefix ds2 (concat (map (group_calls cid) ls))"
      "dirs' = rev (made_dirs k h1 ds2) @ rev (made_dirs k h ds1) @ dirs"
      "err = None \<longleftrightarrow> all_ok k h1 (concat (map (group_calls cid) ls))"
      "err = None \<longrightarrow> ds2 = concat (map (group_calls cid) ls)"
      using Cons.IH [OF rest] by blast
    with d1 None show ?thesis
      by (intro exI [of _ "ds1 @ ds2"]) (auto simp: made_dirs_append all_ok_append)
  next
    case (Some e)
    with Cons.prems w l dirs have "err = e1" "dirs' = rev (made_dirs k h ds1) @ dirs" "h' = h1"
      by (simp_all add: Let_def)
    with Some d1 show ?thesis
      by (intro exI [of _ ds1]) (auto simp: all_ok_append)
  qed
qed simp

lemma no_run_in_setup: "SysRun p as \<notin> set (setup_calls cid la)" "SysRun p as \<notin> set (limit_calls cid la)"
  by (auto simp: setup_calls_def limit_calls_def group_calls_def setting_calls_def pivot_calls_def Let_def)

lemma no_run_in_pivot: "SysRun p as \<notin> fst ` set (pivot_calls t)"
  by (auto simp: pivot_calls_def Let_def)

lemma ExecLimitedChild_trace:
  assumes "unmarshal json = Inr la"
    and "ExecLimitedChild k unmarshal cid (json # path # rest) h = (err, h')"
  shows "\<exists>lim mid. h' = h @ lim @ mid @ map SysRemoveAll (rev (made_dirs k h lim)) \<and>
    prefix lim (limit_calls cid la) \<and>
    (if all_ok k h (setup_calls cid la)
     then lim @ mid = setup_calls cid la @ [SysRun path rest] \<and> lim = limit_calls cid la \<and>
       err = k (h @ setup_calls cid la) (SysRun path rest)
     else err \<noteq> None \<and>
       prefix mid (if RootMount la \<noteq> [] then map fst (pivot_calls (RootMount la)) else []))"
proof -
  obtain e1 dirs h1 where al: "apply_limits k cid (requested_limits la) [] h = (e1, dirs, h1)"
    by (cases "apply_limits k cid (requested_limits la) [] h") auto
  obtain lim where lim: "h1 = h @ lim" "prefix lim (limit_calls cid la)"
      "dirs = rev (made_dirs k h lim)" "e1 = None \<longleftrightarrow> all_ok k h (limit_calls cid la)"
      "e1 = None \<longrightarrow> lim = limit_calls cid la"
    using apply_limits_trace [OF al] by (auto simp: limit_calls_def)
  show ?thesis
  proof (cases e1)
    case (Some e)
    with assms al lim show ?thesis
      by (intro exI [of _ lim] exI [of _ "[]"])
        (auto simp: ExecLimitedChild_def setup_calls_def all_ok_append)
  next
    case None
    let ?pv = "if RootMount la \<noteq> [] then pivotRoot k (RootMount la) h1 else (None, h1)"
    obtain e2 h2 where pv: "?pv = (e2, h2)" by (cases ?pv)
    let ?pc = "if RootMount la \<noteq> [] then map fst (pivot_calls (RootMount la)) else []"
    obtain mid where mid: "h2 = h1 @ mid" "prefix mid ?pc"
        "e2 = None \<longleftrightarrow> all_ok k h1 ?pc" "e2 = None \<longrightarrow> mid = ?pc"
    proof (cases "RootMount la = []")
      case False
      with pv have ex: "exec_all k (pivot_calls (RootMount la)) h1 = (e2, h2)"
        by (simp add: pivotRoot_def)
      obtain mid where "h2 = h1 @ mid" "prefix mid (map fst (pivot_calls (RootMount la)))"
        using exec_all_trace [OF ex] by blast
      moreover have "e2 = None \<longleftrightarrow> all_ok k h1 (map fst (pivot_calls (RootMount la)))"
        using exec_all_ok [of k "pivot_calls (RootMount la)" h1] ex
        by (metis prod.inject)
      ultimately show thesis
        using False that exec_all_ok [of k "pivot_calls (RootMount la)" h1 h2] ex by auto
    qed (use pv that in auto)
    show ?thesis
    proof (cases e2)
      case (Some e)
      with assms al lim None pv mid show ?thesis
        by (intro exI [of _ lim] exI [of _ mid])
          (auto simp: ExecLimitedChild_def setup_calls_def all_ok_append)
    next
      case N2: None
      with assms al lim None pv mid show ?thesis
        by (intro exI [of _ lim] exI [of _ "mid @ [SysRun path rest]"])
          (auto simp: ExecLimitedChild_def setup_calls_def all_ok_append run_command_def)
    qed
  qed
qed

section \<open>What the calls do\<close>

text \<open>
  A semantics of the system calls that knows nothing of the program: the host's directories and files,
  by their paths from the host's root, and where the caller's root is. A path the caller gives is taken
  from its root; a call changes something only if the kernel carries it out. Removing a directory takes
  what is below it. Of the directories on the way to one that is made, nothing is kept.
\<close>

record host =
  h_root :: string
  h_dirs :: "string set"
  h_files :: "string \<Rightarrow> string option"

definition below :: "string \<Rightarrow> string \<Rightarrow> bool" where
  "below d p \<longleftrightarrow> p = d \<or> prefix (d @ ''/'') p"

definition sys_effect :: "syscall \<Rightarrow> host \<Rightarrow> host" where
  "sys_effect c s =
     (case c of
        SysMkdirAll d m \<Rightarrow> s\<lparr>h_dirs := insert (h_root s @ d) (h_dirs s)\<rparr>
      | SysWriteFile f v m \<Rightarrow> s\<lparr>h_files := (h_files s)(h_root s @ f \<mapsto> v)\<rparr>
      | SysRemoveAll d \<Rightarrow>
          s\<lparr>h_dirs := {x \<in> h_dirs s. \<not> below (h_root s @ d) x},
            h_files := (\<lambda>x. if below (h_root s @ d) x then None else h_files s x)\<rparr>
      | SysPivotRoot t old \<Rightarrow> s\<lparr>h_root := h_root s @ t\<rparr>
      | _ \<Rightarrow> s)"

fun host_after :: "kernel \<Rightarrow> syscall list \<Rightarrow> syscall list \<Rightarrow> host \<Rightarrow> host" where
  "host_after k h [] s = s"
| "host_after k h (c # cs) s = host_after k (h @ [c]) cs (if k h c = None then sys_effect c s else s)"

lemma host_after_append: "host_after k h (cs @ ds) s = host_after k (h @ cs) ds (host_after k h cs s)"
  by (induction cs arbitrary: h s) auto

lemma host_after_ok: "all_ok k h cs \<Longrightarrow> host_after k h cs s = fold sys_effect cs s"
  by (induction cs arbitrary: h s) auto

text \<open>
  What the limits mean on the host, from their values and the names the kernel gives its files
  (cgroups of version 1): a group of the controller with the value in each of its files, joined by the
  process, which writes 0 into \<open>cgroup.procs\<close> for itself.
\<close>

definition group_path :: "string \<Rightarrow> string \<Rightarrow> string" where
  "group_path cid controller = path_join [''/sys/fs/cgroup'', controller, ''teleworker'', cid]"

definition group_has :: "string \<Rightarrow> string \<Rightarrow> host \<Rightarrow> string \<Rightarrow> string \<Rightarrow> bool" where
  "group_has cid controller s f v \<longleftrightarrow> h_files s (path_join [group_path cid controller, f]) = Some v"

definition joined :: "string \<Rightarrow> string \<Rightarrow> host \<Rightarrow> bool" where
  "joined cid controller s \<longleftrightarrow>
     group_path cid controller \<in> h_dirs s \<and> group_has cid controller s ''cgroup.procs'' ''0''"

definition limits_in_force :: "string \<Rightarrow> jobLimitArgs \<Rightarrow> host \<Rightarrow> bool" where
  "limits_in_force cid la s \<longleftrightarrow>
     (0 < CPUMaxPeriod la \<and> 0 < CPUMaxQuota la \<longrightarrow>
        joined cid ''cpu'' s \<and>
        group_has cid ''cpu'' s ''cpu.cfs_period_us'' (FormatUint (CPUMaxPeriod la)) \<and>
        group_has cid ''cpu'' s ''cpu.cfs_quota_us'' (FormatUint (CPUMaxQuota la))) \<and>
     (0 < MemoryMax la \<longrightarrow>
        joined cid ''memory'' s \<and>
        group_has cid ''memory'' s ''memory.limit_in_bytes'' (FormatUint (MemoryMax la)) \<and>
        group_has cid ''memory'' s ''memory.memsw.limit_in_bytes'' (FormatUint (MemoryMax la))) \<and>
     (DeviceIOMax la \<noteq> [] \<longrightarrow>
        joined cid ''blkio'' s \<and>
        (let lines = join_with [CHR 0x0A] (map (\<lambda>(d, b). d @ ''  '' @ FormatUint b) (DeviceIOMax la))
         in group_has cid ''blkio'' s ''blkio.throttle.read_bps_device'' lines \<and>
            group_has cid ''blkio'' s ''blkio.throttle.write_bps_device'' lines))"

definition groups_of :: "string \<Rightarrow> jobLimitArgs \<Rightarrow> string set" where
  "groups_of cid la =
     (if 0 < CPUMaxPeriod la \<and> 0 < CPUMaxQuota la then {group_path cid ''cpu''} else {}) \<union>
     (if 0 < MemoryMax la then {group_path cid ''memory''} else {}) \<union>
     (if DeviceIOMax la \<noteq> [] then {group_path cid ''blkio''} else {})"

text \<open>The way into a root mount, written out: proc and the new root mounted, the old one put under
  \<open>.pivot_old\<close> and then let go of.\<close>

definition pivot_steps :: "string \<Rightarrow> syscall list" where
  "pivot_steps t =
     [SysMkdirAll (path_join [t, ''proc'']) 493, SysMount ''proc'' (path_join [t, ''proc'']) ''proc'' 0 [],
      SysMount t t [] 20480 [], SysMkdirAll (path_join [t, ''.pivot_old'']) 493,
      SysPivotRoot t (path_join [t, ''.pivot_old'']), SysChdir ''/'', SysUnmount ''/.pivot_old'' 2,
      SysRemoveAll ''/.pivot_old'']"

lemma pivot_calls_steps: "map fst (pivot_calls t) = pivot_steps t"
  by (simp add: pivot_calls_def pivot_steps_def Let_def)

text \<open>Where a group is, when its id is an ordinary name.\<close>

lemma group_path_plain:
  "plain_name cid \<Longrightarrow> plain_name c \<Longrightarrow>
   group_path cid c = ''/sys/fs/cgroup/'' @ c @ ''/teleworker/'' @ cid"
  using path_clean_plain [of "[''sys'', ''fs'', ''cgroup'', c, ''teleworker'', cid]"]
  by (simp add: group_path_def path_join_def plain_name_def)

lemma device_lines_from:
  "r = w \<Longrightarrow> device_lines m (r, w) =
    (let t = r @ (if r = [] \<or> m = [] then [] else [CHR 0x0A]) @
       join_with [CHR 0x0A] (map (\<lambda>(d, b). d @ ''  '' @ FormatUint b) m) in (t, t))"
proof (induction m arbitrary: r w)
  case (Cons x m)
  then show ?case by (cases x; cases m) (auto simp: Let_def)
qed simp

lemma group_path_nonempty: "group_path cid c \<noteq> []"
  unfolding group_path_def by (rule path_join_nonempty) simp

lemma group_files_differ:
  "plain_name f \<Longrightarrow> plain_name f' \<Longrightarrow> f \<noteq> f' \<Longrightarrow>
   path_join [group_path cid c, f] \<noteq> path_join [group_path cid c', f']"
  by (rule joined_names_differ) (simp_all add: group_path_nonempty)

lemma group_calls_written:
  "group_calls cid (c, st) =
     SysMkdirAll (group_path cid c) 493 #
     map (\<lambda>(f, v). SysWriteFile (path_join [group_path cid c, f]) v 420) (st @ [(''cgroup.procs'', ''0'')])"
  by (auto simp: group_calls_def setting_calls_def cgroup_dir_def group_path_def)

lemma group_file_names:
  "plain_name ''cgroup.procs''" "plain_name ''cpu.cfs_period_us''" "plain_name ''cpu.cfs_quota_us''"
  "plain_name ''memory.limit_in_bytes''" "plain_name ''memory.memsw.limit_in_bytes''"
  "plain_name ''blkio.throttle.read_bps_device''" "plain_name ''blkio.throttle.write_bps_device''"
  by (simp_all add: plain_name_def)

text \<open>The calls of one group, as what they make and write.\<close>

fun written_files :: "string \<Rightarrow> (string \<times> string) list \<Rightarrow> (string \<Rightarrow> string option) \<Rightarrow> string \<Rightarrow> string option" where
  "written_files g [] m = m"
| "written_files g ((f, v) # st) m = written_files g st (m(path_join [g, f] \<mapsto> v))"

lemma write_calls_effect:
  "h_root s = [] \<Longrightarrow> fold sys_effect (map (\<lambda>(f, v). SysWriteFile (path_join [g, f]) v 420) st) s =
     s\<lparr>h_files := written_files g st (h_files s)\<rparr>"
  by (induction st arbitrary: s) (auto simp: sys_effect_def)

lemma group_calls_effect:
  "h_root s = [] \<Longrightarrow> fold sys_effect (group_calls cid (c, st)) s =
     s\<lparr>h_dirs := insert (group_path cid c) (h_dirs s),
       h_files := written_files (group_path cid c) (st @ [(''cgroup.procs'', ''0'')]) (h_files s)\<rparr>"
  unfolding group_calls_written
  by (subst fold.simps(2), unfold o_apply, subst write_calls_effect) (simp_all add: sys_effect_def)

lemma limit_calls_effect:
  assumes "all_ok k h (limit_calls cid la)" and "h_root s = []"
  shows "limits_in_force cid la (host_after k h (limit_calls cid la) s)"
    and "h_dirs (host_after k h (limit_calls cid la) s) = h_dirs s \<union> groups_of cid la"
    and "h_root (host_after k h (limit_calls cid la) s) = []"
proof -
  note effects = limit_calls_def requested_limits_def group_calls_effect assms(2) device_lines_from Let_def
  show "h_dirs (host_after k h (limit_calls cid la) s) = h_dirs s \<union> groups_of cid la"
    "h_root (host_after k h (limit_calls cid la) s) = []"
    unfolding host_after_ok [OF assms(1)] by (auto simp: effects groups_of_def)
  show "limits_in_force cid la (host_after k h (limit_calls cid la) s)"
    unfolding host_after_ok [OF assms(1)] limits_in_force_def joined_def group_has_def
    by (simp add: effects group_files_differ group_file_names)
qed

section \<open>Properties\<close>

text \<open>C14: The child runs the command exactly when every call of its setup succeeds, and then all its
  limits are in force first, on the host as the calls leave it: for each limit that was given there is a
  control group with the values in its files (one line per device), no other group was made, and the
  process has joined every one; with a root mount it has then made that its root and let go of the old
  one. The trace is the setup, the command and the removals, and the command's error is the child's. In
  every other case the command is never run and an error is returned.\<close>

theorem command_runs_iff_limits_applied:
  assumes "unmarshal json = Inr la"
    and "ExecLimitedChild k unmarshal cid (json # path # rest) h = (err, h')"
    and "h_root s = []"
  shows "\<exists>lim. let piv = (if RootMount la \<noteq> [] then pivot_steps (RootMount la) else []) in
    setup_calls cid la = lim @ piv \<and>
    (if all_ok k h (lim @ piv)
     then h' = h @ lim @ piv @ [SysRun path rest] @ map SysRemoveAll (rev (made_dirs k h lim)) \<and>
       err = k (h @ lim @ piv) (SysRun path rest) \<and>
       limits_in_force cid la (host_after k h lim s) \<and>
       h_dirs (host_after k h lim s) = h_dirs s \<union> groups_of cid la \<and>
       h_root (host_after k h (lim @ piv) s) = RootMount la
     else err \<noteq> None \<and> (\<forall>p as. SysRun p as \<notin> set (drop (length h) h')))"
proof -
  obtain lim mid where t: "h' = h @ lim @ mid @ map SysRemoveAll (rev (made_dirs k h lim))"
    "prefix lim (limit_calls cid la)"
    "if all_ok k h (setup_calls cid la)
     then lim @ mid = setup_calls cid la @ [SysRun path rest] \<and> lim = limit_calls cid la \<and>
       err = k (h @ setup_calls cid la) (SysRun path rest)
     else err \<noteq> None \<and> prefix mid (if RootMount la \<noteq> [] then map fst (pivot_calls (RootMount la)) else [])"
    using ExecLimitedChild_trace [OF assms(1,2)] by blast
  let ?piv = "if RootMount la \<noteq> [] then pivot_steps (RootMount la) else []"
  have parts: "setup_calls cid la = limit_calls cid la @ ?piv"
    by (simp add: setup_calls_def pivot_calls_steps)
  have "SysRun p as \<notin> set lim \<union> set mid" if "\<not> all_ok k h (setup_calls cid la)" for p as
    using that t(3) no_run_in_setup(2) [of p as cid la] no_run_in_pivot [of p as "RootMount la"]
      set_mono_prefix [OF t(2)] by (auto dest!: set_mono_prefix split: if_splits)
  moreover have "h_root (host_after k h (limit_calls cid la @ ?piv) s) = RootMount la"
    if "all_ok k h (limit_calls cid la @ ?piv)"
    using that limit_calls_effect(3) [OF _ assms(3), of k h cid la]
      host_after_ok [of k "h @ limit_calls cid la" ?piv]
    by (simp add: all_ok_append host_after_append pivot_steps_def sys_effect_def)
  ultimately show ?thesis
    using t limit_calls_effect [OF _ assms(3), of k h cid la]
    by (intro exI [of _ "limit_calls cid la"]) (auto simp: Let_def parts all_ok_append)
qed

theorem command_runs_iff_limits_applied_witness:
  "\<exists>err h' s. ExecLimitedChild (\<lambda>h c. None) (\<lambda>s. Inr (jobLimitArgs.make 0 0 5 [] [])) ''u''
      [''j'', ''sh'', ''x''] [] = (err, h') \<and> SysRun ''sh'' [''x''] \<in> set h' \<and> err = None \<and>
      group_has ''u'' ''memory'' s ''memory.limit_in_bytes'' ''5'' \<and> joined ''u'' ''memory'' s"
proof -
  let ?la = "jobLimitArgs.make 0 0 5 [] []"
  let ?s = "\<lparr>h_root = [], h_dirs = {}, h_files = (\<lambda>_. None)\<rparr>"
  obtain err h' where e: "ExecLimitedChild (\<lambda>h c. None) (\<lambda>s. Inr ?la) ''u'' [''j'', ''sh'', ''x''] [] = (err, h')"
    by (cases "ExecLimitedChild (\<lambda>h c. None) (\<lambda>s. Inr ?la) ''u'' [''j'', ''sh'', ''x''] []")
  have ok: "all_ok (\<lambda>h c. None) h cs" for h cs
    by (induction cs arbitrary: h) auto
  have five: "FormatUint 5 = ''5''"
    by (simp add: FormatUint_def show_nat.simps digit_char_def) code_simp
  obtain lim where "h' = lim @ [SysRun ''sh'' [''x'']] @ map SysRemoveAll (rev (made_dirs (\<lambda>h c. None) [] lim))"
    "err = None" "limits_in_force ''u'' ?la (host_after (\<lambda>h c. None) [] lim ?s)"
    using command_runs_iff_limits_applied [OF _ e, of ?la ?s] ok by (auto simp: Let_def jobLimitArgs.make_def)
  with e show ?thesis
    by (intro exI [of _ err] exI [of _ h'] exI [of _ "host_after (\<lambda>h c. None) [] lim ?s"])
      (simp add: limits_in_force_def jobLimitArgs.make_def five)
qed

text \<open>The calls that are left when the root is not changed make and write, or run; they take nothing away.\<close>

lemma dirs_kept:
  "\<forall>d. SysRemoveAll d \<notin> set cs \<Longrightarrow> h_dirs s \<subseteq> h_dirs (host_after k h cs s)"
  by (induction cs arbitrary: h s) (fastforce simp: sys_effect_def split: syscall.splits)+

lemma made_dirs_are_there:
  "h_root s = [] \<Longrightarrow> \<forall>t old. SysPivotRoot t old \<notin> set cs \<Longrightarrow> \<forall>d. SysRemoveAll d \<notin> set cs \<Longrightarrow>
   set (made_dirs k h cs) \<subseteq> h_dirs (host_after k h cs s)"
proof (induction cs arbitrary: h s)
  case (Cons c cs)
  let ?s = "if k h c = None then sys_effect c s else s"
  have root: "h_root ?s = []"
    using Cons.prems(1,2) by (cases c) (auto simp: sys_effect_def)
  have "set (made_dirs k (h @ [c]) cs) \<subseteq> h_dirs (host_after k (h @ [c]) cs ?s)"
    by (rule Cons.IH [OF root]) (use Cons.prems in auto)
  moreover have "h_dirs ?s \<subseteq> h_dirs (host_after k (h @ [c]) cs ?s)"
    by (rule dirs_kept) (use Cons.prems in auto)
  moreover have "d \<in> h_dirs ?s" if "c = SysMkdirAll d p" "k h c = None" for d p
    using that Cons.prems(1) by (simp add: sys_effect_def)
  ultimately show ?case by (auto split: syscall.splits if_splits)
qed simp

lemma host_root_kept:
  "\<forall>t old. SysPivotRoot t old \<notin> set cs \<Longrightarrow> h_root (host_after k h cs s) = h_root s"
  by (induction cs arbitrary: h s) (auto simp: sys_effect_def split: syscall.splits)

lemma removed_dirs:
  "all_ok k h (map SysRemoveAll ds) \<Longrightarrow> h_root s = [] \<Longrightarrow>
   h_dirs (host_after k h (map SysRemoveAll ds) s) \<subseteq> h_dirs s - set ds"
proof (induction ds arbitrary: h s)
  case (Cons d ds)
  then have "h_dirs (host_after k (h @ [SysRemoveAll d]) (map SysRemoveAll ds) (sys_effect (SysRemoveAll d) s)) \<subseteq>
      h_dirs (sys_effect (SysRemoveAll d) s) - set ds"
    by (intro Cons.IH) (auto simp: sys_effect_def)
  with Cons.prems show ?case by (auto simp: sys_effect_def below_def)
qed simp

fun none_ok :: "kernel \<Rightarrow> syscall list \<Rightarrow> syscall list \<Rightarrow> bool" where
  "none_ok k h [] = True"
| "none_ok k h (c # cs) = (k h c \<noteq> None \<and> none_ok k (h @ [c]) cs)"

lemma host_after_none: "none_ok k h cs \<Longrightarrow> host_after k h cs s = s"
  by (induction cs arbitrary: h) auto

text \<open>
  A group that has a member cannot be removed: a kernel that keeps to this refuses to remove a
  directory once 0 was written into its \<open>cgroup.procs\<close>, by which the process that asks has joined it.
\<close>

definition refuses_joined :: "kernel \<Rightarrow> bool" where
  "refuses_joined k \<longleftrightarrow>
     (\<forall>h d m. SysWriteFile (path_join [d, ''cgroup.procs'']) ''0'' m \<in> set h \<longrightarrow> k h (SysRemoveAll d) \<noteq> None)"

lemma refused_removals:
  "refuses_joined k \<Longrightarrow> \<forall>d \<in> set ds. \<exists>m. SysWriteFile (path_join [d, ''cgroup.procs'']) ''0'' m \<in> set h \<Longrightarrow>
   none_ok k h (map SysRemoveAll ds)"
  by (induction ds arbitrary: h) (fastforce simp: refuses_joined_def)+

lemma made_by_limits:
  "d \<in> set (made_dirs k h (limit_calls cid la)) \<Longrightarrow>
   \<exists>m. SysWriteFile (path_join [d, ''cgroup.procs'']) ''0'' m \<in> set (limit_calls cid la)"
proof -
  have "d \<in> {d. \<exists>p. SysMkdirAll d p \<in> set cs}" if "d \<in> set (made_dirs k h cs)" for cs h
    using that by (induction cs arbitrary: h) (fastforce split: syscall.splits if_splits)+
  moreover assume "d \<in> set (made_dirs k h (limit_calls cid la))"
  ultimately obtain p where "SysMkdirAll d p \<in> set (limit_calls cid la)" by blast
  then obtain c st where l: "(c, st) \<in> set (requested_limits la)" "SysMkdirAll d p \<in> set (group_calls cid (c, st))"
    by (auto simp: limit_calls_def)
  then have "SysWriteFile (path_join [d, ''cgroup.procs'']) ''0'' 420 \<in> set (group_calls cid (c, st))"
    by (auto simp: group_calls_written)
  with l(1) show ?thesis unfolding limit_calls_def by force
qed

text \<open>So when the command has run, none of the child's own removals of its groups succeeds on such a
  kernel: the child is a member of every one of them, and they all stay.\<close>

lemma joined_cgroups_stay:
  assumes "unmarshal json = Inr la"
    and "ExecLimitedChild k unmarshal cid (json # path # rest) h = (err, h')"
    and "refuses_joined k" and "all_ok k h (setup_calls cid la)" and "h_root s = []" and "RootMount la = []"
  shows "groups_of cid la \<subseteq> h_dirs (host_after k h (drop (length h) h') s)"
proof -
  let ?lim = "limit_calls cid la"
  let ?removals = "map SysRemoveAll (rev (made_dirs k h ?lim))"
  have h': "h' = h @ ?lim @ [SysRun path rest] @ ?removals"
    using ExecLimitedChild_trace [OF assms(1,2)] assms(4,6) by (auto simp: setup_calls_def)
  have ok: "all_ok k h ?lim" using assms(4,6) by (simp add: setup_calls_def)
  have "none_ok k (h @ ?lim @ [SysRun path rest]) ?removals"
    by (rule refused_removals [OF assms(3)]) (use made_by_limits in fastforce)
  then have "host_after k h (?lim @ [SysRun path rest] @ ?removals) s = host_after k h ?lim s"
    using host_after_none by (simp add: host_after_append sys_effect_def)
  with limit_calls_effect(2) [OF ok assms(5)] show ?thesis by (simp add: h')
qed

text \<open>A kernel that refuses to remove a group with a member, and nothing else.\<close>

definition busy_kernel :: kernel where
  "busy_kernel h c =
     (case c of
        SysRemoveAll d \<Rightarrow>
          if \<exists>w \<in> set h. case w of
               SysWriteFile f v m \<Rightarrow> f = path_join [d, ''cgroup.procs''] \<and> v = ''0'' | _ \<Rightarrow> False
          then Some (LibError ''EBUSY'') else None
      | _ \<Rightarrow> None)"

lemma busy_kernel_keeps_groups:
  "\<exists>err h'. ExecLimitedChild busy_kernel (\<lambda>s. Inr (jobLimitArgs.make 0 0 5 [] [])) ''u'' [''j'', ''sh''] [] =
       (err, h') \<and>
     group_path ''u'' ''memory'' \<in>
       h_dirs (host_after busy_kernel [] h' \<lparr>h_root = [], h_dirs = {}, h_files = (\<lambda>_. None)\<rparr>)"
proof -
  let ?la = "jobLimitArgs.make 0 0 5 [] []"
  let ?s = "\<lparr>h_root = [], h_dirs = {}, h_files = (\<lambda>_. None)\<rparr>"
  obtain err h' where
    e: "ExecLimitedChild busy_kernel (\<lambda>s. Inr ?la) ''u'' (''j'' # ''sh'' # []) [] = (err, h')"
    by (cases "ExecLimitedChild busy_kernel (\<lambda>s. Inr ?la) ''u'' (''j'' # ''sh'' # []) []")
  have busy: "refuses_joined busy_kernel"
    by (force simp: refuses_joined_def busy_kernel_def)
  have grants: "all_ok busy_kernel h cs" if "\<forall>d. SysRemoveAll d \<notin> set cs" for h cs
    using that by (induction cs arbitrary: h) (auto simp: busy_kernel_def split: syscall.splits)
  have ok: "all_ok busy_kernel [] (setup_calls ''u'' ?la)"
    by (rule grants) (simp add: setup_calls_def limit_calls_def requested_limits_def group_calls_written
        jobLimitArgs.make_def)
  have "groups_of ''u'' ?la \<subseteq> h_dirs (host_after busy_kernel [] h' ?s)"
    using joined_cgroups_stay [OF refl e busy ok, of ?s] by (simp add: jobLimitArgs.make_def)
  moreover have "group_path ''u'' ''memory'' \<in> groups_of ''u'' ?la"
    by (simp add: groups_of_def jobLimitArgs.make_def)
  ultimately show ?thesis using e by blast
qed

text \<open>C38: On every path out of the child, with or without an error, the last it does is to ask for the
  removal of exactly the control-group directories it managed to create, in reverse order; the results
  are not looked at. As long as \<open>pivot_root\<close> was not reached, because there is no root mount or something
  before it failed, the requests are about the directories that were made: they are all there when the
  first request is made, none is left on the host if the kernel grants the requests, and all stay if
  it refuses them. After a command that has run without a root mount, a kernel that does not remove a
  group with a member leaves every group of the limits there, as the child itself is a member.\<close>

theorem cgroup_removal_requests:
  assumes "unmarshal json = Inr la"
    and "ExecLimitedChild k unmarshal cid (json # path # rest) h = (err, h')"
    and "h_root s = []"
  shows "\<exists>lim mid. let made = made_dirs k h lim; removals = map SysRemoveAll (rev made);
      at_end = host_after k h (lim @ mid) s; left = host_after k h (lim @ mid @ removals) s in
    h' = h @ lim @ mid @ removals \<and>
    prefix lim (limit_calls cid la) \<and>
    set mid \<subseteq> (if RootMount la \<noteq> [] then set (pivot_steps (RootMount la)) else {}) \<union> {SysRun path rest} \<and>
    ((\<forall>t old. SysPivotRoot t old \<notin> set mid) \<longrightarrow>
       set made \<subseteq> h_dirs at_end \<and>
       (all_ok k (h @ lim @ mid) removals \<longrightarrow> set made \<inter> h_dirs left = {}) \<and>
       (none_ok k (h @ lim @ mid) removals \<longrightarrow> set made \<subseteq> h_dirs left)) \<and>
    (refuses_joined k \<and> all_ok k h (setup_calls cid la) \<and> RootMount la = [] \<longrightarrow>
       groups_of cid la \<subseteq> h_dirs left)"
proof -
  obtain lim mid where t: "h' = h @ lim @ mid @ map SysRemoveAll (rev (made_dirs k h lim))"
    "prefix lim (limit_calls cid la)"
    "if all_ok k h (setup_calls cid la)
     then lim @ mid = setup_calls cid la @ [SysRun path rest] \<and> lim = limit_calls cid la \<and>
       err = k (h @ setup_calls cid la) (SysRun path rest)
     else err \<noteq> None \<and> prefix mid (if RootMount la \<noteq> [] then map fst (pivot_calls (RootMount la)) else [])"
    using ExecLimitedChild_trace [OF assms(1,2)] by blast
  let ?piv = "if RootMount la \<noteq> [] then pivot_steps (RootMount la) else []"
  have mid: "prefix mid (?piv @ [SysRun path rest])"
    using t(3) by (auto simp: setup_calls_def pivot_calls_steps split: if_splits)
  have lim: "SysPivotRoot x y \<notin> set lim" "SysRemoveAll x \<notin> set lim" for x y
    using set_mono_prefix [OF t(2)] by (auto simp: limit_calls_def group_calls_def setting_calls_def)
  let ?made = "made_dirs k h lim"
  let ?finish = "host_after k h (lim @ mid) s"
  have there: "set ?made \<subseteq> h_dirs ?finish \<and> h_root ?finish = []" if "\<forall>x y. SysPivotRoot x y \<notin> set mid"
  proof -
    have "SysRemoveAll x \<notin> set mid" for x
      using mid that by (auto simp: pivot_steps_def prefix_Cons split: if_splits)
    with lim that have "\<forall>x y. SysPivotRoot x y \<notin> set (lim @ mid)" "\<forall>x. SysRemoveAll x \<notin> set (lim @ mid)"
      by auto
    with made_dirs_are_there [OF assms(3), of "lim @ mid" k h] host_root_kept [of "lim @ mid" k h s] assms(3)
    show ?thesis by (simp add: made_dirs_append)
  qed
  have "set mid \<subseteq> (if RootMount la \<noteq> [] then set (pivot_steps (RootMount la)) else {}) \<union> {SysRun path rest}"
    using set_mono_prefix [OF mid] by (auto split: if_splits)
  moreover have "groups_of cid la \<subseteq> h_dirs (host_after k h (lim @ mid @ map SysRemoveAll (rev ?made)) s)"
    if "refuses_joined k" "all_ok k h (setup_calls cid la)" "RootMount la = []"
    using joined_cgroups_stay [OF assms(1,2) that(1,2) assms(3) that(3)] t(1) by simp
  ultimately show ?thesis
    using t(1,2) there removed_dirs [of k "h @ lim @ mid" "rev ?made" ?finish]
    host_after_none [of k "h @ lim @ mid" "map SysRemoveAll (rev ?made)" ?finish]
    host_after_append [of k h "lim @ mid" "map SysRemoveAll (rev ?made)" s]
    by (intro exI [of _ lim] exI [of _ mid]) (auto simp: Let_def)
qed

text \<open>A kernel on which the second directory cannot be created.\<close>

definition no_memory_group :: kernel where
  "no_memory_group h c =
     (if c = SysMkdirAll (cgroup_dir ''u'' ''memory'') perm_0755 then Some (LibError ''EPERM'') else None)"

theorem cgroup_removal_requests_witness:
  "\<exists>lim mid err h'. ExecLimitedChild no_memory_group (\<lambda>s. Inr (jobLimitArgs.make 10 2 5 [] []))
      ''u'' [''j'', ''sh''] [] = (err, h') \<and>
     (let made = made_dirs no_memory_group [] lim; s = \<lparr>h_root = [], h_dirs = {}, h_files = (\<lambda>_. None)\<rparr> in
      h' = lim @ mid @ map SysRemoveAll (rev made) \<and>
      set made \<subseteq> h_dirs (host_after no_memory_group [] (lim @ mid) s) \<and>
      set made \<inter> h_dirs (host_after no_memory_group [] h' s) = {})"
proof -
  let ?la = "jobLimitArgs.make 10 2 5 [] []"
  let ?s = "\<lparr>h_root = [], h_dirs = {}, h_files = (\<lambda>_. None)\<rparr>"
  obtain err h' where
    e: "ExecLimitedChild no_memory_group (\<lambda>s. Inr ?la) ''u'' (''j'' # ''sh'' # []) [] = (err, h')"
    by (cases "ExecLimitedChild no_memory_group (\<lambda>s. Inr ?la) ''u'' (''j'' # ''sh'' # []) []")
  have ok: "all_ok no_memory_group h (map SysRemoveAll ds)" for h ds
    by (induction ds arbitrary: h) (auto simp: no_memory_group_def)
  have s: "h_root ?s = []" and root: "RootMount ?la = []" by (simp_all add: jobLimitArgs.make_def)
  obtain lim mid where m: "h' = lim @ mid @ map SysRemoveAll (rev (made_dirs no_memory_group [] lim))"
    "set mid \<subseteq> {SysRun ''sh'' []}"
    "(\<forall>t old. SysPivotRoot t old \<notin> set mid) \<longrightarrow>
       set (made_dirs no_memory_group [] lim) \<subseteq> h_dirs (host_after no_memory_group [] (lim @ mid) ?s) \<and>
       set (made_dirs no_memory_group [] lim) \<inter> h_dirs (host_after no_memory_group [] h' ?s) = {}"
    using cgroup_removal_requests [OF refl e s] ok root unfolding Let_def by auto
  then have "\<forall>t old. SysPivotRoot t old \<notin> set mid" by auto
  with m e show ?thesis
    by (intro exI [of _ lim] exI [of _ mid] exI [of _ err] exI [of _ h']) (simp add: Let_def)
qed

text \<open>C39: With a root mount, the removals of the control-group directories come after a successful
  pivot_root, while the directories were created before it: the paths are then looked up in the
  new root, so the groups of the host's file system are not the ones being removed.\<close>

theorem cgroup_removal_after_pivot:
  assumes "unmarshal json = Inr la" and "RootMount la \<noteq> []" and "all_ok k h (setup_calls cid la)"
    and "ExecLimitedChild k unmarshal cid (json # path # rest) h = (err, h')"
  shows "\<exists>before_pivot after_pivot.
    h' = h @ before_pivot @
      [SysPivotRoot (RootMount la) (path_join [RootMount la, ''.pivot_old''])] @ after_pivot \<and>
    (\<forall>l \<in> set (requested_limits la).
       SysMkdirAll (cgroup_dir cid (fst l)) perm_0755 \<in> set before_pivot) \<and>
    (\<forall>d \<in> set (made_dirs k h (limit_calls cid la)).
       SysRemoveAll d \<notin> set before_pivot \<and> SysRemoveAll d \<in> set after_pivot)"
proof -
  let ?pc = "map fst (pivot_calls (RootMount la))"
  have h': "h' = h @ limit_calls cid la @ ?pc @ [SysRun path rest] @
      map SysRemoveAll (rev (made_dirs k h (limit_calls cid la)))"
    using ExecLimitedChild_trace [OF assms(1,4)] assms(2,3) by (auto simp: setup_calls_def)
  have "SysMkdirAll (cgroup_dir cid (fst l)) perm_0755 \<in> set (limit_calls cid la)"
    if "l \<in> set (requested_limits la)" for l
  proof -
    have "SysMkdirAll (cgroup_dir cid (fst l)) perm_0755 \<in> set (group_calls cid l)"
      by (cases l) (simp add: group_calls_def)
    with that show ?thesis by (auto simp: limit_calls_def)
  qed
  moreover have "SysRemoveAll d \<notin> set (limit_calls cid la)" for d
    by (auto simp: limit_calls_def group_calls_def setting_calls_def)
  ultimately show ?thesis
    by (intro exI [of _ "limit_calls cid la @ take 4 ?pc"]
          exI [of _ "drop 5 ?pc @ [SysRun path rest] @
            map SysRemoveAll (rev (made_dirs k h (limit_calls cid la)))"])
      (auto simp: h' pivot_calls_def Let_def)
qed

theorem cgroup_removal_after_pivot_witness:
  "\<exists>err h' before_pivot after_pivot.
     ExecLimitedChild (\<lambda>h c. None) (\<lambda>s. Inr (jobLimitArgs.make 0 0 5 [] ''/r'')) ''u'' [''j'', ''sh''] [] =
       (err, h') \<and>
     h' = before_pivot @ [SysPivotRoot ''/r'' (path_join [''/r'', ''.pivot_old''])] @ after_pivot \<and>
     SysMkdirAll (cgroup_dir ''u'' ''memory'') perm_0755 \<in> set before_pivot"
proof -
  let ?la = "jobLimitArgs.make 0 0 5 [] ''/r''"
  obtain err h' where
    e: "ExecLimitedChild (\<lambda>h c. None) (\<lambda>s. Inr ?la) ''u'' (''j'' # ''sh'' # []) [] = (err, h')"
    by (cases "ExecLimitedChild (\<lambda>h c. None) (\<lambda>s. Inr ?la) ''u'' (''j'' # ''sh'' # []) []")
  have la: "RootMount ?la = ''/r''"
    "requested_limits ?la = [(''memory'', [(''memory.limit_in_bytes'', FormatUint 5),
        (''memory.memsw.limit_in_bytes'', FormatUint 5)])]"
    by (simp_all add: jobLimitArgs.make_def requested_limits_def)
  have ok: "all_ok (\<lambda>h c. None) h cs" for h cs
    by (induction cs arbitrary: h) auto
  show ?thesis
    using cgroup_removal_after_pivot [OF _ _ ok e] e by (auto simp: la)
qed

text \<open>The block device settings written for reads and for writes are the same text: one line
  per configured device, in the order the map was visited, separated by single newlines.\<close>

theorem device_settings_one_line_per_device:
  "device_lines m ([], []) =
    (join_with [CHR 0x0A] (map (\<lambda>(d, b). d @ ''  '' @ FormatUint b) m),
     join_with [CHR 0x0A] (map (\<lambda>(d, b). d @ ''  '' @ FormatUint b) m))"
  by (simp add: device_lines_from Let_def)

text \<open>Each namespace flag of a limited job is set exactly when that isolation is configured;
  the host name, IPC and user namespaces are always new.\<close>

theorem clone_flags_follow_isolation:
  "(clone_flags isolation AND CLONE_NEWPID \<noteq> 0 \<longleftrightarrow> IsoPID isolation) \<and>
   (clone_flags isolation AND CLONE_NEWNET \<noteq> 0 \<longleftrightarrow> IsoNetwork isolation) \<and>
   (clone_flags isolation AND CLONE_NEWNS \<noteq> 0 \<longleftrightarrow> IsoMount isolation) \<and>
   clone_flags isolation AND (CLONE_NEWUTS OR CLONE_NEWIPC OR CLONE_NEWUSER) =
     CLONE_NEWUTS OR CLONE_NEWIPC OR CLONE_NEWUSER"
  by (simp add: clone_flags_def Let_def)

text \<open>When the limited runner is made, the limit of the default device moves, value unchanged,
  to the name of the device the executable is on; every other device keeps its limit, the other
  limits and the isolation are untouched, and both CPU limits are set or neither.\<close>

theorem new_limited_runner_resolves_device:
  assumes "newLimitedRunner stat config = (Inr config', left)"
    and "gomap_get (DeviceIOMax (ResourceLimits config)) [] = Some limit" and "0 < limit"
  shows "\<exists>dev. stat = Inr dev \<and> left = config' \<and>
    gomap_get (DeviceIOMax (ResourceLimits config')) (device_name dev) = Some limit \<and>
    gomap_get (DeviceIOMax (ResourceLimits config')) [] = None \<and>
    (\<forall>d. d \<noteq> [] \<and> d \<noteq> device_name dev \<longrightarrow>
       gomap_get (DeviceIOMax (ResourceLimits config')) d =
       gomap_get (DeviceIOMax (ResourceLimits config)) d) \<and>
    Isolation config' = Isolation config \<and>
    MemoryMax (ResourceLimits config') = MemoryMax (ResourceLimits config) \<and>
    (CPUMaxPeriod (ResourceLimits config') = 0 \<longleftrightarrow> CPUMaxQuota (ResourceLimits config') = 0)"
  using assms by (auto simp: newLimitedRunner_def Let_def device_name_def split: if_splits sum.splits)

abbreviation sample_limits :: JobLimitConfig where
  "sample_limits \<equiv> \<lparr>ResourceLimits = \<lparr>CPUMaxPeriod = 10, CPUMaxQuota = 2, MemoryMax = 5,
      DeviceIOMax = [([], 7)]\<rparr>,
    Isolation = \<lparr>IsoPID = True, IsoNetwork = False, IsoMount = True\<rparr>\<rparr>"

theorem new_limited_runner_resolves_device_witness:
  "\<exists>config'. newLimitedRunner (Inr 2049) sample_limits = (Inr config', config') \<and>
     gomap_get (DeviceIOMax (ResourceLimits config')) (device_name 2049) = Some 7"
proof -
  obtain c where c: "newLimitedRunner (Inr 2049) sample_limits = (Inr c, c)"
    by (simp add: newLimitedRunner_def Let_def)
  show ?thesis
    using new_limited_runner_resolves_device [OF c, of 7] c by auto
qed

text \<open>C40: If the executable cannot be examined, making the limited runner fails but has already
  deleted the default device limit from the caller's configuration: the next attempt with the
  same configuration succeeds, whatever \<open>stat\<close> says, with no limit for that device at all.\<close>

theorem failed_runner_loses_device_limit:
  assumes "gomap_get (DeviceIOMax (ResourceLimits config)) [] = Some limit" and "0 < limit"
    and "CPUMaxPeriod (ResourceLimits config) = 0 \<longleftrightarrow> CPUMaxQuota (ResourceLimits config) = 0"
    and "newLimitedRunner (Inl e) config = (r, left)"
  shows "r = Inl (Wrapf ''getting device info for executable'' e) \<and>
    newLimitedRunner stat left = (Inr left, left) \<and>
    gomap_get (DeviceIOMax (ResourceLimits left)) [] = None \<and>
    (\<forall>d. d \<noteq> [] \<longrightarrow> gomap_get (DeviceIOMax (ResourceLimits left)) d =
                     gomap_get (DeviceIOMax (ResourceLimits config)) d)"
  using assms by (auto simp: newLimitedRunner_def Let_def)

theorem failed_runner_loses_device_limit_witness:
  "\<exists>r left. newLimitedRunner (Inl (LibError ''ENOENT'')) sample_limits = (r, left) \<and>
     newLimitedRunner (Inr 2049) left = (Inr left, left) \<and>
     gomap_get (DeviceIOMax (ResourceLimits left)) [] = None"
proof -
  obtain r left where f: "newLimitedRunner (Inl (LibError ''ENOENT'')) sample_limits = (r, left)"
    by (cases "newLimitedRunner (Inl (LibError ''ENOENT'')) sample_limits")
  show ?thesis
    using failed_runner_loses_device_limit [OF _ _ _ f, of 7 "Inr 2049"] f by simp
qed

end
