(* ===== verification/Worker.thy ===== *)
theory Worker
  imports JobProcess Limits
begin

text \<open>
  \<open>worker/worker.go\<close>: the worker, its table of jobs keyed by namespace and ID, and its
  public operations. Jobs are objects on a heap (a list; the pointer is the index) because the
  table stores pointers, with \<open>None\<close> for the nil pointer that holds the place of a job being
  submitted. Each critical section of \<open>jobsLock\<close> is one definition, run as a whole;
  \<open>shutdownLock\<close>, which is held across whole operations, is part of the state. The
  operations here run alone; theory \<open>WorkerConc\<close> interleaves the same definitions.
\<close>

section \<open>State\<close>

datatype runner = ExecRunner | LimitedRunner JobLimitConfig

record worker =
  runner_of :: runner
  hasLimits :: bool
  jobs :: "(string, (string, nat option) gomap) gomap option"
  shutdown :: bool
  shutdownLock :: rwmutex
  heap :: "job list"

text \<open>
  What the operations take from outside: the clock, a fresh UUID, the operating system, the
  JSON encoder and the process's user and group.
\<close>

record env =
  env_now :: int
  env_uuid :: string
  env_os :: os
  env_marshal :: "jobLimitArgs \<Rightarrow> go_error + string"
  env_uid :: int
  env_gid :: int

section \<open>Construction\<close>

definition StandardConfig :: "JobLimitConfig option" where
  "StandardConfig = Some
     \<lparr>ResourceLimits =
        \<lparr>CPUMaxPeriod = 10000, CPUMaxQuota = 2000, MemoryMax = 50 * 1024 * 1024,
         DeviceIOMax = [([], 1 * 1024 * 1024)]\<rparr>,
      Isolation = \<lparr>IsoPID = True, IsoNetwork = True, IsoMount = True\<rparr>\<rparr>"

text \<open>\<open>New\<close>, with the caller's configuration as it leaves it.\<close>

definition worker_New ::
  "go_error + 64 word \<Rightarrow> JobLimitConfig option \<Rightarrow> (go_error + worker) \<times> JobLimitConfig option" where
  "worker_New stat limits =
     (let w = (\<lambda>r. \<lparr>runner_of = r, hasLimits = (limits \<noteq> None), jobs = Some [], shutdown = False,
                 shutdownLock = unlocked_mutex, heap = []\<rparr>) in
      case limits of
        Some config \<Rightarrow>
          (case newLimitedRunner stat config of
             (Inl e, left) \<Rightarrow> (Inl (Wrapf ''creating limited runner'' e), Some left)
           | (Inr r, left) \<Rightarrow> (Inr (w (LimitedRunner r)), Some left))
      | None \<Rightarrow> (Inr (w ExecRunner), None))"

section \<open>The job table\<close>

text \<open>
  \<open>w.jobs[namespace][id]\<close>: absent, a placeholder (\<open>Some None\<close>) or a job. Indexing a
  nil map is allowed.
\<close>

definition job_entry :: "worker \<Rightarrow> string \<Rightarrow> string \<Rightarrow> nat option option" where
  "job_entry w ns i =
     (case jobs w of
        None \<Rightarrow> None
      | Some m \<Rightarrow> (case gomap_get m ns of None \<Rightarrow> None | Some inner \<Rightarrow> gomap_get inner i))"

definition lookup_job :: "worker \<Rightarrow> string \<Rightarrow> string \<Rightarrow> nat option" where
  "lookup_job w ns i = (case job_entry w ns i of None \<Rightarrow> None | Some p \<Rightarrow> p)"

text \<open>
  The first critical section of \<open>SubmitJob\<close>: report whether the ID is in use, and if not
  put nil there. Assigning into a nil map panics.
\<close>

definition submit_reserve :: "string \<Rightarrow> string \<Rightarrow> worker \<Rightarrow> (bool \<times> worker) go" where
  "submit_reserve ns i w =
     (if job_entry w ns i \<noteq> None then Ret (True, w)
      else case jobs w of
             None \<Rightarrow> Panic
           | Some m \<Rightarrow>
               let inner = (case gomap_get m ns of None \<Rightarrow> [] | Some inner \<Rightarrow> inner)
               in Ret (False, w\<lparr>jobs := Some (gomap_set ns (gomap_set i None inner) m)\<rparr>))"

text \<open>The deferred clean-up on failure: \<open>delete\<close> on a nil map does nothing.\<close>

definition submit_rollback :: "string \<Rightarrow> string \<Rightarrow> worker \<Rightarrow> worker" where
  "submit_rollback ns i w =
     (case jobs w of
        None \<Rightarrow> w
      | Some m \<Rightarrow>
          (case gomap_get m ns of
             None \<Rightarrow> w
           | Some inner \<Rightarrow> w\<lparr>jobs := Some (gomap_set ns (gomap_delete i inner) m)\<rparr>))"

text \<open>The last critical section, which stores the job.\<close>

definition submit_commit :: "string \<Rightarrow> string \<Rightarrow> nat \<Rightarrow> worker \<Rightarrow> worker go" where
  "submit_commit ns i p w =
     (case jobs w of
        None \<Rightarrow> Panic
      | Some m \<Rightarrow>
          (case gomap_get m ns of
             None \<Rightarrow> Panic
           | Some inner \<Rightarrow> Ret (w\<lparr>jobs := Some (gomap_set ns (gomap_set i (Some p) inner) m)\<rparr>)))"

section \<open>Operations\<close>

text \<open>
  \<open>GetJob\<close>. The source defers \<open>w.shutdownLock.RLock()\<close> where its siblings defer
  \<open>RUnlock()\<close>: the read lock is taken a second time on the way out.
\<close>

definition worker_GetJob ::
  "worker \<Rightarrow> string \<Rightarrow> string \<Rightarrow> ((go_error option \<times> nat option) \<times> worker) go" where
  "worker_GetJob w ns i =
     go_bind (seq_rlock (shutdownLock w)) (\<lambda>m.
       let res = (if shutdown w then (Some ErrShutdown, None) else (None, lookup_job w ns i)) in
       go_bind (seq_rlock m) (\<lambda>m'. Ret (res, w\<lparr>shutdownLock := m'\<rparr>)))"

definition WithRootFS :: "string \<Rightarrow> job \<Rightarrow> job" where
  "WithRootFS root j = j\<lparr>RootFS := root\<rparr>"

definition runner_start :: "env \<Rightarrow> runner \<Rightarrow> os \<Rightarrow> job \<Rightarrow> go_error option \<times> job" where
  "runner_start env r os j =
     (case r of
        ExecRunner \<Rightarrow> execRunner_start os j
      | LimitedRunner cfg \<Rightarrow>
          limitedRunner_start (env_marshal env) (env_uid env) (env_gid env) cfg os j)"

text \<open>Making and starting the job, between the critical sections of \<open>SubmitJob\<close>.\<close>

definition submit_make ::
  "env \<Rightarrow> worker \<Rightarrow> string \<Rightarrow> string \<Rightarrow> string \<Rightarrow> string list \<Rightarrow> (job \<Rightarrow> job) list \<Rightarrow> go_error + job" where
  "submit_make env w ns i command args opts =
     (let j = fold (\<lambda>opt j. opt j) opts (newJob (env_now env) ns i command args) in
      if \<not> hasLimits w \<and> RootFS j \<noteq> []
      then Inl (Errorf ''cannot set root FS on non-limited worker'')
      else case runner_start env (runner_of w) (env_os env) j of
             (Some e, _) \<Rightarrow> Inl (Wrapf ''starting job'' e)
           | (None, j') \<Rightarrow> Inr j')"

definition submit_body ::
  "env \<Rightarrow> worker \<Rightarrow> string \<Rightarrow> string \<Rightarrow> string \<Rightarrow> string list \<Rightarrow> (job \<Rightarrow> job) list \<Rightarrow>
     ((go_error option \<times> nat option) \<times> worker) go" where
  "submit_body env w ns i command args opts =
     (if shutdown w then Ret ((Some ErrShutdown, None), w)
      else
        let i' = (if i = [] then env_uuid env else i) in
        go_bind (submit_reserve ns i' w) (\<lambda>(exists, w1).
          if exists then Ret ((Some ErrIDAlreadyExists, None), w1)
          else case submit_make env w1 ns i' command args opts of
                 Inl e \<Rightarrow> Ret ((Some e, None), submit_rollback ns i' w1)
               | Inr j \<Rightarrow>
                   go_bind (submit_commit ns i' (length (heap w1)) (w1\<lparr>heap := heap w1 @ [j]\<rparr>))
                     (\<lambda>w2. Ret ((None, Some (length (heap w1))), w2))))"

text \<open>\<open>SubmitJob\<close>: the body under the read lock of \<open>shutdownLock\<close>.\<close>

definition worker_SubmitJob ::
  "env \<Rightarrow> worker \<Rightarrow> string \<Rightarrow> string \<Rightarrow> string \<Rightarrow> string list \<Rightarrow> (job \<Rightarrow> job) list \<Rightarrow>
     ((go_error option \<times> nat option) \<times> worker) go" where
  "worker_SubmitJob env w ns i command args opts =
     go_bind (seq_rlock (shutdownLock w)) (\<lambda>m.
     go_bind (submit_body env (w\<lparr>shutdownLock := m\<rparr>) ns i command args opts) (\<lambda>(res, w1).
     go_bind (mu_runlock (shutdownLock w1)) (\<lambda>m'. Ret (res, w1\<lparr>shutdownLock := m'\<rparr>))))"

text \<open>
  \<open>Shutdown\<close>: mark the worker under the write lock, take the table, ask every job to stop
  (a nil job would be dereferenced), then wait. \<open>wg_done\<close> says whether all the \<open>Stop\<close>
  calls have returned when the selects run, \<open>ctx_err\<close> is the error of the context if it is
  done; theory \<open>ShutdownWait\<close> models how the two come about.
\<close>

definition shutdown_mark :: "worker \<Rightarrow> (bool \<times> worker) go" where
  "shutdown_mark w =
     go_bind (seq_lock (shutdownLock w)) (\<lambda>m.
       Ret (shutdown w, w\<lparr>shutdown := True, shutdownLock := mu_unlock m\<rparr>))"

definition shutdown_take :: "worker \<Rightarrow> (string, (string, nat option) gomap) gomap \<times> worker" where
  "shutdown_take w = (case jobs w of None \<Rightarrow> [] | Some m \<Rightarrow> m, w\<lparr>jobs := None\<rparr>)"

definition table_pointers :: "(string, (string, nat option) gomap) gomap \<Rightarrow> nat option list" where
  "table_pointers m = concat (map (\<lambda>(ns, inner). map snd inner) m)"

definition stop_all :: "bool \<Rightarrow> nat option list \<Rightarrow> job list \<Rightarrow> job list go" where
  "stop_all force ps hp =
     (if None \<in> set ps then Panic
      else Ret (fold (\<lambda>p hp. hp[the p := Stop_request force (hp ! the p)]) ps hp))"

definition shutdown_result :: "go_error option \<Rightarrow> bool \<Rightarrow> go_error option go" where
  "shutdown_result ctx_err wg_done =
     (if ctx_err = None \<and> \<not> wg_done then Block
      else Ret (if wg_done then None else ctx_err))"

definition worker_Shutdown ::
  "go_error option \<Rightarrow> bool \<Rightarrow> bool \<Rightarrow> worker \<Rightarrow> (go_error option \<times> worker) go" where
  "worker_Shutdown ctx_err wg_done force w =
     go_bind (shutdown_mark w) (\<lambda>(alreadyShutdown, w1).
       if alreadyShutdown then Ret (Some ErrShutdown, w1)
       else case shutdown_take w1 of (m, w2) \<Rightarrow>
         if length m = 0 then Ret (None, w2)
         else go_bind (stop_all force (table_pointers m) (heap w2)) (\<lambda>hp.
              go_bind (shutdown_result ctx_err wg_done) (\<lambda>r. Ret (r, w2\<lparr>heap := hp\<rparr>))))"

interpretation worker_runner: job_runner "runner_start env r" for env r
proof
  show "\<exists>pid. j' = j\<lparr>PID := pid\<rparr>" if "runner_start env r os j = (None, j')" for os j j'
    using that
    by (cases r) (auto simp: runner_start_def dest: exec_runner.start_ok limited_runner.start_ok)
  show "j' = j" if "runner_start env r os j = (Some e, j')" for os j e j'
    using that
    by (cases r) (auto simp: runner_start_def dest: exec_runner.start_err limited_runner.start_err)
qed

section \<open>The table as an abstract map\<close>

text \<open>
  Seen through \<open>job_entry\<close>, the three critical sections are updates of one map keyed by
  namespace and ID.
\<close>

lemma entry_reserve:
  assumes "submit_reserve ns i w = Ret (False, w')"
  shows "job_entry w ns i = None" "shutdownLock w' = shutdownLock w" "shutdown w' = shutdown w"
    "heap w' = heap w" "hasLimits w' = hasLimits w" "runner_of w' = runner_of w" "jobs w' \<noteq> None"
    "job_entry w' n k = (if n = ns \<and> k = i then Some None else job_entry w n k)"
  using assms
  by (auto simp: submit_reserve_def job_entry_def Let_def split: if_splits option.splits)

lemma reserve_exists:
  "submit_reserve ns i w = Ret (True, w') \<longleftrightarrow> job_entry w ns i \<noteq> None \<and> w' = w"
  by (auto simp: submit_reserve_def Let_def split: option.splits)

lemma entry_rollback:
  "job_entry (submit_rollback ns i w) n k =
    (if n = ns \<and> k = i then None else job_entry w n k)"
  by (auto simp: submit_rollback_def job_entry_def split: option.splits)

lemma rollback_fields [simp]:
  "shutdownLock (submit_rollback ns i w) = shutdownLock w"
  "shutdown (submit_rollback ns i w) = shutdown w"
  "heap (submit_rollback ns i w) = heap w"
  "hasLimits (submit_rollback ns i w) = hasLimits w"
  "runner_of (submit_rollback ns i w) = runner_of w"
  "jobs (submit_rollback ns i w) = None \<longleftrightarrow> jobs w = None"
  by (auto simp: submit_rollback_def split: option.splits)

lemma commit_ok:
  "job_entry w ns i \<noteq> None \<Longrightarrow> \<exists>w'. submit_commit ns i p w = Ret w'"
  by (auto simp: submit_commit_def job_entry_def split: option.splits)

lemma entry_commit:
  assumes "submit_commit ns i p w = Ret w'"
  shows "shutdownLock w' = shutdownLock w" "shutdown w' = shutdown w" "jobs w' \<noteq> None"
    "heap w' = heap w" "hasLimits w' = hasLimits w" "runner_of w' = runner_of w"
    "job_entry w' n k = (if n = ns \<and> k = i then Some (Some p) else job_entry w n k)"
  using assms by (auto simp: submit_commit_def job_entry_def split: option.splits if_splits)

lemma job_entry_heap [simp]: "job_entry (w\<lparr>heap := hp\<rparr>) = job_entry w"
  by (simp add: job_entry_def fun_eq_iff)

lemma job_entry_lock [simp]: "job_entry (w\<lparr>shutdownLock := m\<rparr>) = job_entry w"
  by (simp add: job_entry_def fun_eq_iff)

lemma job_entry_shutdown [simp]: "job_entry (w\<lparr>shutdown := b\<rparr>) = job_entry w"
  by (simp add: job_entry_def fun_eq_iff)

lemma job_entry_no_table [simp]: "job_entry (w\<lparr>jobs := None\<rparr>) ns i = None"
  by (simp add: job_entry_def)

lemma lookup_job_lock [simp]: "lookup_job (w\<lparr>shutdownLock := m\<rparr>) = lookup_job w"
  by (simp add: lookup_job_def fun_eq_iff)

section \<open>Invariant\<close>

definition table_wf :: "worker \<Rightarrow> bool" where
  "table_wf w \<longleftrightarrow>
     (case jobs w of
        None \<Rightarrow> True
      | Some m \<Rightarrow> gomap_wf m \<and> (\<forall>ns inner. gomap_get m ns = Some inner \<longrightarrow> gomap_wf inner))"

lemma table_wf_update:
  "table_wf w \<Longrightarrow> jobs w = Some m \<Longrightarrow> gomap_wf inner \<Longrightarrow>
   table_wf (w\<lparr>jobs := Some (gomap_set ns inner m)\<rparr>)"
  by (simp add: table_wf_def)

lemma table_wf_inner:
  "table_wf w \<Longrightarrow> jobs w = Some m \<Longrightarrow> gomap_get m ns = Some inner \<Longrightarrow> gomap_wf inner"
  by (simp add: table_wf_def)

lemma table_wf_steps:
  "table_wf w \<Longrightarrow> submit_reserve ns i w = Ret (b, w') \<Longrightarrow> table_wf w'"
  "table_wf w \<Longrightarrow> table_wf (submit_rollback ns i w)"
  "table_wf w \<Longrightarrow> submit_commit ns i p w = Ret w' \<Longrightarrow> table_wf w'"
  by (auto simp: submit_reserve_def submit_rollback_def submit_commit_def Let_def
      intro!: table_wf_update dest: table_wf_inner split: if_splits option.splits)

lemma table_wf_fields [simp]:
  "table_wf (w\<lparr>shutdownLock := l\<rparr>) = table_wf w" "table_wf (w\<lparr>heap := hp\<rparr>) = table_wf w"
  by (simp_all add: table_wf_def)

lemma table_wf_body:
  assumes "submit_body env w ns i command args opts = Ret (r, w')" and wf: "table_wf w"
  shows "table_wf w'"
proof (cases "shutdown w")
  case False
  let ?i = "if i = [] then env_uuid env else i"
  from assms(1) False obtain ex w1 where w1: "submit_reserve ns ?i w = Ret (ex, w1)"
    and rest: "(if ex then Ret ((Some ErrIDAlreadyExists, None), w1)
          else case submit_make env w1 ns ?i command args opts of
                 Inl e \<Rightarrow> Ret ((Some e, None), submit_rollback ns ?i w1)
               | Inr j \<Rightarrow>
                   go_bind (submit_commit ns ?i (length (heap w1)) (w1\<lparr>heap := heap w1 @ [j]\<rparr>))
                     (\<lambda>w2. Ret ((None, Some (length (heap w1))), w2))) = Ret (r, w')"
    by (auto simp: submit_body_def Let_def go_bind_eq_Ret)
  from wf w1 have "table_wf w1" by (rule table_wf_steps)
  with rest show ?thesis
    by (cases "submit_make env w1 ns ?i command args opts")
      (auto simp: go_bind_eq_Ret table_wf_steps(2) split: if_splits elim!: table_wf_steps(3) [rotated])
qed (use assms in \<open>simp add: submit_body_def\<close>)

lemma table_wf_submit:
  assumes "worker_SubmitJob env w ns i command args opts = Ret (r, w')" and "table_wf w"
  shows "table_wf w'"
  using assms by (auto simp: worker_SubmitJob_def go_bind_eq_Ret dest!: table_wf_body)

text \<open>
  Between operations that run alone: nobody holds or waits for the write lock, the table has no
  placeholder, and every pointer in it leads to a job that carries its own key.
\<close>

definition entry_ok :: "worker \<Rightarrow> string \<Rightarrow> string \<Rightarrow> nat option \<Rightarrow> bool" where
  "entry_ok w ns i e \<longleftrightarrow>
     (\<exists>p. e = Some p \<and> p < length (heap w) \<and> Namespace (heap w ! p) = ns \<and> ID (heap w ! p) = i \<and>
          i \<noteq> [] \<and> job_wf (heap w ! p))"

definition worker_inv :: "worker \<Rightarrow> bool" where
  "worker_inv w \<longleftrightarrow>
     \<not> pending (shutdownLock w) \<and> \<not> held (shutdownLock w) \<and>
     (shutdown w \<longleftrightarrow> jobs w = None) \<and> table_wf w \<and>
     (\<forall>ns i e. job_entry w ns i = Some e \<longrightarrow> entry_ok w ns i e)"

lemma worker_inv_entry:
  "worker_inv w \<Longrightarrow> job_entry w ns i = Some e \<Longrightarrow> entry_ok w ns i e"
  by (simp add: worker_inv_def)

text \<open>The job \<open>submit_make\<close> returns, for the options the program has.\<close>

lemma with_root_fold:
  "fold (\<lambda>opt j. opt j) (map WithRootFS roots) j =
     j\<lparr>RootFS := (if roots = [] then RootFS j else last roots)\<rparr>"
  by (induction roots arbitrary: j) (simp_all add: WithRootFS_def)

lemma submit_make_job:
  assumes "submit_make env w ns i command args (map WithRootFS roots) = Inr j"
  shows "\<exists>root pid. j = (newJob (env_now env) ns i command args)\<lparr>RootFS := root, PID := pid\<rparr> \<and>
    (hasLimits w \<or> root = []) \<and> root = (if roots = [] then [] else last roots)"
proof -
  define root where "root = (if roots = [] then [] else last roots)"
  have r: "fold (\<lambda>opt j. opt j) (map WithRootFS roots) (newJob (env_now env) ns i command args) =
      (newJob (env_now env) ns i command args)\<lparr>RootFS := root\<rparr>"
    unfolding with_root_fold by (simp add: root_def newJob_def)
  from assms have "runner_start env (runner_of w) (env_os env)
      ((newJob (env_now env) ns i command args)\<lparr>RootFS := root\<rparr>) = (None, j)"
    and lim: "hasLimits w \<or> root = []"
    by (auto simp: submit_make_def r Let_def split: if_splits prod.splits option.splits)
  then obtain pid where "j = (newJob (env_now env) ns i command args)\<lparr>RootFS := root\<rparr>\<lparr>PID := pid\<rparr>"
    using worker_runner.start_ok by blast
  with lim show ?thesis unfolding root_def by blast
qed

lemma submit_make_wf:
  assumes "submit_make env w ns i command args (map WithRootFS roots) = Inr j"
  shows "Namespace j = ns" "ID j = i" "Command j = command" "Args j = args"
    "CreatedAt j = env_now env" "exitCode j = None" "stdout j = []" "stderr j = []" "job_wf j"
    "fresh_job j" "RootFS j = (if roots = [] then [] else last roots)" "listener_list j = []"
  using submit_make_job [OF assms] by (auto simp: newJob_def job_wf_def listener_list_def fresh_job_def)

text \<open>The three ways the body of \<open>SubmitJob\<close> ends on a worker that is not shut down.\<close>

lemma submit_body_cases:
  assumes "\<not> shutdown w" and "jobs w \<noteq> None" and "i' = (if i = [] then env_uuid env else i)"
  obtains (dup) "job_entry w ns i' \<noteq> None"
      "submit_body env w ns i command args opts = Ret ((Some ErrIDAlreadyExists, None), w)"
  | (err) w1 e where "submit_reserve ns i' w = Ret (False, w1)"
      "submit_make env w1 ns i' command args opts = Inl e"
      "submit_body env w ns i command args opts = Ret ((Some e, None), submit_rollback ns i' w1)"
  | (ok) w1 j w2 where "submit_reserve ns i' w = Ret (False, w1)"
      "submit_make env w1 ns i' command args opts = Inr j"
      "submit_commit ns i' (length (heap w)) (w1\<lparr>heap := heap w @ [j]\<rparr>) = Ret w2"
      "submit_body env w ns i command args opts = Ret ((None, Some (length (heap w))), w2)"
proof (cases "job_entry w ns i' = None")
  case False
  with assms dup show thesis
    using reserve_exists [of ns i' w w] by (auto simp: submit_body_def Let_def)
next
  case True
  then obtain w1 where w1: "submit_reserve ns i' w = Ret (False, w1)"
    using assms(2) by (auto simp: submit_reserve_def Let_def)
  note r = entry_reserve [OF w1]
  show thesis
  proof (cases "submit_make env w1 ns i' command args opts")
    case (Inl e)
    with w1 assms err show thesis by (simp add: submit_body_def Let_def)
  next
    case (Inr j)
    have "job_entry (w1\<lparr>heap := heap w @ [j]\<rparr>) ns i' \<noteq> None"
      by (simp add: r(8))
    then obtain w2 where w2: "submit_commit ns i' (length (heap w)) (w1\<lparr>heap := heap w @ [j]\<rparr>) = Ret w2"
      using commit_ok by blast
    with w1 Inr assms ok r(4) show thesis by (simp add: submit_body_def Let_def)
  qed
qed

lemma rlock_unpended: "\<not> pending m \<Longrightarrow> seq_rlock m = Ret (m\<lparr>readers := Suc (readers m)\<rparr>)"
  by (simp add: mutex_defs)

lemma rlock_runlock: "mu_runlock (m\<lparr>readers := Suc (readers m)\<rparr>) = Ret m"
  by (simp add: mutex_defs)

text \<open>\<open>SubmitJob\<close> as a whole, from the same three cases.\<close>

lemma worker_SubmitJob_body:
  assumes "\<not> pending (shutdownLock w)"
    and "submit_body env (w\<lparr>shutdownLock := (shutdownLock w)\<lparr>readers := Suc (readers (shutdownLock w))\<rparr>\<rparr>)
           ns i command args opts = Ret (res, w1)"
    and "shutdownLock w1 = (shutdownLock w)\<lparr>readers := Suc (readers (shutdownLock w))\<rparr>"
  shows "worker_SubmitJob env w ns i command args opts = Ret (res, w1\<lparr>shutdownLock := shutdownLock w\<rparr>)"
  using assms by (simp add: worker_SubmitJob_def rlock_unpended rlock_runlock)

lemma submit_cases:
  assumes "worker_inv w" and "\<not> shutdown w" and "i' = (if i = [] then env_uuid env else i)"
  obtains (dup) "job_entry w ns i' \<noteq> None"
      "worker_SubmitJob env w ns i command args opts = Ret ((Some ErrIDAlreadyExists, None), w)"
  | (err) w' e where "job_entry w ns i' = None"
      "worker_SubmitJob env w ns i command args opts = Ret ((Some e, None), w')"
      "job_entry w' = job_entry w" "heap w' = heap w" "shutdown w' = shutdown w" "jobs w' \<noteq> None"
      "shutdownLock w' = shutdownLock w"
      "submit_make env w ns i' command args opts = Inl e"
  | (ok) w' j where "job_entry w ns i' = None"
      "worker_SubmitJob env w ns i command args opts = Ret ((None, Some (length (heap w))), w')"
      "\<And>n k. job_entry w' n k = (if n = ns \<and> k = i' then Some (Some (length (heap w))) else job_entry w n k)"
      "heap w' = heap w @ [j]" "shutdown w' = shutdown w" "jobs w' \<noteq> None"
      "shutdownLock w' = shutdownLock w"
      "submit_make env w ns i' command args opts = Inr j"
proof -
  let ?m = "(shutdownLock w)\<lparr>readers := Suc (readers (shutdownLock w))\<rparr>"
  let ?w = "w\<lparr>shutdownLock := ?m\<rparr>"
  have p: "\<not> pending (shutdownLock w)" "jobs ?w \<noteq> None" "\<not> shutdown ?w"
    using assms by (auto simp: worker_inv_def)
  have make: "submit_make env u ns i' command args opts = submit_make env w ns i' command args opts"
    if "hasLimits u = hasLimits w" "runner_of u = runner_of w" for u
    using that by (simp add: submit_make_def Let_def)
  show thesis
  proof (rule submit_body_cases [OF p(3,2) assms(3), of ns command args opts])
    assume "job_entry ?w ns i' \<noteq> None"
      "submit_body env ?w ns i command args opts = Ret ((Some ErrIDAlreadyExists, None), ?w)"
    with dup worker_SubmitJob_body [OF p(1)] show thesis by simp
  next
    fix w1 e assume w1: "submit_reserve ns i' ?w = Ret (False, w1)"
      and m: "submit_make env w1 ns i' command args opts = Inl e"
      and b: "submit_body env ?w ns i command args opts = Ret ((Some e, None), submit_rollback ns i' w1)"
    note r = entry_reserve [OF w1]
    have "worker_SubmitJob env w ns i command args opts =
        Ret ((Some e, None), (submit_rollback ns i' w1)\<lparr>shutdownLock := shutdownLock w\<rparr>)"
      by (rule worker_SubmitJob_body [OF p(1) b]) (simp add: r)
    moreover have "job_entry (submit_rollback ns i' w1) = job_entry w"
      using r(1,8) by (simp add: fun_eq_iff entry_rollback)
    ultimately show thesis
      using r make [of w1] m
      by (intro err [of e "(submit_rollback ns i' w1)\<lparr>shutdownLock := shutdownLock w\<rparr>"]) simp_all
  next
    fix w1 j w2 assume w1: "submit_reserve ns i' ?w = Ret (False, w1)"
      and m: "submit_make env w1 ns i' command args opts = Inr j"
      and c: "submit_commit ns i' (length (heap ?w)) (w1\<lparr>heap := heap ?w @ [j]\<rparr>) = Ret w2"
      and b: "submit_body env ?w ns i command args opts = Ret ((None, Some (length (heap ?w))), w2)"
    note r = entry_reserve [OF w1] and e = entry_commit [OF c]
    from b have b': "submit_body env ?w ns i command args opts = Ret ((None, Some (length (heap w))), w2)"
      by simp
    have "worker_SubmitJob env w ns i command args opts =
        Ret ((None, Some (length (heap w))), w2\<lparr>shutdownLock := shutdownLock w\<rparr>)"
      by (rule worker_SubmitJob_body [OF p(1) b']) (simp add: r e)
    then show thesis
      using r e make [of w1] m
      by (intro ok [of "w2\<lparr>shutdownLock := shutdownLock w\<rparr>" j]) simp_all
  qed
qed

section \<open>Sequences of operations\<close>

datatype worker_op =
    OpGet string string
  | OpSubmit env string string string "string list" "string list"
  | OpShutdown "go_error option" bool bool

fun op_ok :: "worker_op \<Rightarrow> bool" where
  "op_ok (OpSubmit env ns i command args roots) = (env_uuid env \<noteq> [])"
| "op_ok _ = True"

fun worker_exec :: "worker_op \<Rightarrow> worker \<Rightarrow> worker go" where
  "worker_exec (OpGet ns i) w = go_bind (worker_GetJob w ns i) (\<lambda>(r, w'). Ret w')"
| "worker_exec (OpSubmit env ns i command args roots) w =
     go_bind (worker_SubmitJob env w ns i command args (map WithRootFS roots)) (\<lambda>(r, w'). Ret w')"
| "worker_exec (OpShutdown ctx_err wg_done force) w =
     go_bind (worker_Shutdown ctx_err wg_done force w) (\<lambda>(r, w'). Ret w')"

fun worker_run :: "worker_op list \<Rightarrow> worker \<Rightarrow> worker go" where
  "worker_run [] w = Ret w"
| "worker_run (a # as) w = go_bind (worker_exec a w) (worker_run as)"

lemma get_job_result:
  "worker_inv w \<Longrightarrow> worker_GetJob w ns i =
     Ret (if shutdown w then (Some ErrShutdown, None) else (None, lookup_job w ns i),
          w\<lparr>shutdownLock := (shutdownLock w)\<lparr>readers := readers (shutdownLock w) + 2\<rparr>\<rparr>)"
  by (simp add: worker_GetJob_def worker_inv_def rlock_unpended Let_def)

lemma submit_shutdown:
  "worker_inv w \<Longrightarrow> shutdown w \<Longrightarrow>
   worker_SubmitJob env w ns i command args opts = Ret ((Some ErrShutdown, None), w)"
  by (simp add: worker_SubmitJob_def submit_body_def worker_inv_def rlock_unpended rlock_runlock)

lemma worker_inv_ok_entry:
  assumes "worker_inv w" and "i \<noteq> []" and "submit_make env w ns i command args (map WithRootFS roots) = Inr j"
    and "\<And>n k. job_entry w' n k = (if n = ns \<and> k = i then Some (Some (length (heap w))) else job_entry w n k)"
    and "heap w' = heap w @ [j]" "shutdown w' = shutdown w" "jobs w' \<noteq> None" "\<not> shutdown w"
    and "shutdownLock w' = shutdownLock w" and "table_wf w'"
  shows "worker_inv w'"
proof -
  note j = submit_make_wf [OF assms(3)]
  have "entry_ok w' n k e" if "job_entry w' n k = Some e" for n k e
  proof (cases "n = ns \<and> k = i")
    case True
    with that assms(2,4,5) j show ?thesis by (auto simp: entry_ok_def nth_append)
  next
    case False
    with that assms(4) have "entry_ok w n k e"
      using worker_inv_entry [OF assms(1)] by (simp split: if_splits)
    with assms(5) show ?thesis by (auto simp: entry_ok_def nth_append)
  qed
  with assms show ?thesis by (simp add: worker_inv_def)
qed

lemma inv_after_submit:
  assumes "worker_inv w" and "env_uuid env \<noteq> []"
  shows "\<exists>r w'. worker_SubmitJob env w ns i command args (map WithRootFS roots) = Ret (r, w') \<and> worker_inv w'"
proof (cases "shutdown w")
  case True
  with assms(1) submit_shutdown show ?thesis by blast
next
  case False
  let ?i = "if i = [] then env_uuid env else i"
  have i: "?i \<noteq> []" using assms(2) by simp
  have twf: "table_wf w" using assms(1) by (simp add: worker_inv_def)
  note twf' = table_wf_submit [OF _ twf, of env ns i command args "map WithRootFS roots"]
  show ?thesis
  proof (cases rule: submit_cases
      [OF assms(1) False refl, of ns i env command args "map WithRootFS roots",
        consumes 0, case_names dup err ok])
    case dup
    with assms(1) show ?thesis by blast
  next
    case (err w' e)
    with assms(1) False twf' [OF err(2)] have "worker_inv w'"
      by (simp add: worker_inv_def entry_ok_def)
    with err show ?thesis by blast
  next
    case (ok w' j)
    have "worker_inv w'"
      using worker_inv_ok_entry [OF assms(1) i ok(8,3,4,5,6) False ok(7) twf' [OF ok(2)]] .
    with ok show ?thesis by blast
  qed
qed

lemma no_placeholder_in_table:
  assumes "worker_inv w" "jobs w = Some m"
  shows "None \<notin> set (table_pointers m)"
proof
  assume "None \<in> set (table_pointers m)"
  then obtain ns inner i where "(ns, inner) \<in> set m" "(i, None) \<in> set inner"
    by (auto simp: table_pointers_def)
  moreover from assms have "table_wf w" by (simp add: worker_inv_def)
  ultimately have "job_entry w ns i = Some None"
    using assms(2) by (auto simp: table_wf_def job_entry_def simp flip: gomap_get_iff)
  with worker_inv_entry [OF assms(1)] show False by (auto simp: entry_ok_def)
qed

lemma shutdown_readers_block:
  "0 < readers (shutdownLock w) \<Longrightarrow> worker_Shutdown ctx_err wg_done force w = Block"
  by (simp add: worker_Shutdown_def shutdown_mark_def seq_lock_blocked)

lemma shutdown_mark_free:
  "worker_inv w \<Longrightarrow> readers (shutdownLock w) = 0 \<Longrightarrow>
   shutdown_mark w = Ret (shutdown w, w\<lparr>shutdown := True\<rparr>)"
  by (cases "shutdownLock w") (simp add: shutdown_mark_def worker_inv_def mutex_defs)

lemma inv_after_shutdown:
  assumes "worker_inv w"
  shows "worker_Shutdown ctx_err wg_done force w \<noteq> Panic \<and>
    (\<forall>r w'. worker_Shutdown ctx_err wg_done force w = Ret (r, w') \<longrightarrow>
       worker_inv w' \<and> shutdown w' \<and> (shutdown w \<longrightarrow> r = Some ErrShutdown))"
proof (cases "readers (shutdownLock w) = 0")
  case False
  with shutdown_readers_block [of w ctx_err wg_done force] show ?thesis by simp
next
  case True
  note mark = shutdown_mark_free [OF assms True]
  show ?thesis
  proof (cases "shutdown w")
    case sd: True
    with mark assms show ?thesis
      by (auto simp: worker_Shutdown_def worker_inv_def entry_ok_def job_entry_def table_wf_def)
  next
    case False
    with assms obtain m where m: "jobs w = Some m" by (auto simp: worker_inv_def)
    have "None \<notin> set (table_pointers m)"
      using assms m by (rule no_placeholder_in_table)
    with mark assms m False show ?thesis
      by (auto simp: worker_Shutdown_def shutdown_take_def stop_all_def shutdown_result_def
          worker_inv_def job_entry_def table_wf_def)
  qed
qed

lemma worker_exec_inv:
  assumes "worker_inv w" and "op_ok a"
  shows "worker_exec a w \<noteq> Panic \<and> (\<forall>w'. worker_exec a w = Ret w' \<longrightarrow> worker_inv w')"
proof (cases a)
  case (OpGet ns i)
  have "worker_inv (w\<lparr>shutdownLock := (shutdownLock w)\<lparr>readers := n\<rparr>\<rparr>)" for n
    using assms(1) by (simp add: worker_inv_def entry_ok_def)
  with OpGet get_job_result [OF assms(1), of ns i] show ?thesis by simp
next
  case (OpSubmit env ns i command args roots)
  with assms inv_after_submit [OF assms(1), of env ns i command args roots] show ?thesis by auto
next
  case (OpShutdown ctx_err wg_done force)
  with inv_after_shutdown [OF assms(1), of ctx_err wg_done force] show ?thesis
    by (cases "worker_Shutdown ctx_err wg_done force w") auto
qed

lemma worker_run_inv:
  "worker_inv w \<Longrightarrow> \<forall>a \<in> set as. op_ok a \<Longrightarrow>
   worker_run as w \<noteq> Panic \<and> (\<forall>w'. worker_run as w = Ret w' \<longrightarrow> worker_inv w')"
proof (induction as arbitrary: w)
  case (Cons a as)
  with worker_exec_inv [of w a] show ?case
    by (cases "worker_exec a w") auto
qed simp

lemma New_inv: "worker_New stat limits = (Inr w, left) \<Longrightarrow> worker_inv w"
  by (auto simp: worker_New_def worker_inv_def job_entry_def table_wf_def unlocked_mutex_def Let_def
      split: option.splits prod.splits sum.splits)

abbreviation sample_worker :: worker where
  "sample_worker \<equiv> \<lparr>runner_of = ExecRunner, hasLimits = False, jobs = Some [], shutdown = False,
     shutdownLock = unlocked_mutex, heap = []\<rparr>"

abbreviation sample_env :: env where
  "sample_env \<equiv> \<lparr>env_now = 1, env_uuid = ''u1'',
     env_os = (\<lambda>c. \<lparr>stdout_pipe_err = None, stderr_pipe_err = None, start_result = Inr 801\<rparr>),
     env_marshal = (\<lambda>a. Inr ''{}''), env_uid = 0, env_gid = 0\<rparr>"

lemma sample_worker_inv: "worker_inv sample_worker"
  by (rule New_inv [of "Inr 0" None _ None]) (simp add: worker_New_def)

lemma submit_effect:
  assumes "worker_inv w" and "env_uuid env \<noteq> []"
    and "worker_SubmitJob env w ns i command args (map WithRootFS roots) = Ret ((None, Some p), w')"
    and "i' = (if i = [] then env_uuid env else i)"
  shows "job_entry w ns i' = None \<and> lookup_job w' ns i' = Some p \<and>
    (\<forall>n k. (n, k) \<noteq> (ns, i') \<longrightarrow> job_entry w' n k = job_entry w n k) \<and>
    p = length (heap w) \<and> take p (heap w') = heap w \<and> length (heap w') = Suc p \<and>
    Namespace (heap w' ! p) = ns \<and> ID (heap w' ! p) = i' \<and> Command (heap w' ! p) = command \<and>
    Args (heap w' ! p) = args \<and> fresh_job (heap w' ! p) \<and>
    stdout (heap w' ! p) = [] \<and> stderr (heap w' ! p) = [] \<and> worker_inv w' \<and> shutdownLock w' = shutdownLock w"
proof -
  have inv: "worker_inv w'"
    using inv_after_submit [OF assms(1,2), of ns i command args roots] assms(3) by auto
  have "\<not> shutdown w"
    using submit_shutdown [OF assms(1)] assms(3) by (cases "shutdown w") simp_all
  then show ?thesis
  proof (cases rule: submit_cases
      [OF assms(1) _ assms(4), of ns command args "map WithRootFS roots",
        consumes 1, case_names dup err ok])
    case (ok w'' j)
    with assms(3) inv submit_make_wf [OF ok(8)] show ?thesis
      by (auto simp: lookup_job_def)
  qed (use assms(3) in auto)
qed

lemma failed_submit_effect:
  assumes "worker_inv w"
    and "worker_SubmitJob env w ns i command args (map WithRootFS roots) = Ret ((Some e, q), w')"
    and "i' = (if i = [] then env_uuid env else i)"
  shows "q = None \<and> job_entry w' = job_entry w \<and> heap w' = heap w \<and> shutdown w' = shutdown w \<and>
    shutdownLock w' = shutdownLock w \<and>
    (shutdown w \<longleftrightarrow> e = ErrShutdown) \<and>
    (\<not> shutdown w \<longrightarrow> (e = ErrIDAlreadyExists \<longleftrightarrow> job_entry w ns i' \<noteq> None))"
proof (cases "shutdown w")
  case True
  with submit_shutdown [OF assms(1)] assms(2) show ?thesis by auto
next
  case False
  then show ?thesis
  proof (cases rule: submit_cases
      [OF assms(1) _ assms(3), of ns command args "map WithRootFS roots",
        consumes 1, case_names dup err ok])
    case (err w'' e')
    moreover from err(8) have "e' \<noteq> ErrIDAlreadyExists" "e' \<noteq> ErrShutdown"
      by (auto simp: submit_make_def Let_def split: if_splits prod.splits option.splits)
    ultimately show ?thesis using assms(2) False by auto
  qed (use assms(2) False in auto)
qed

text \<open>What the two lemmas above leave out: the root filesystem, the listeners, and the kind of error.\<close>

lemma submit_root:
  assumes "worker_inv w"
    and "worker_SubmitJob env w ns i command args (map WithRootFS roots) = Ret ((None, Some p), w')"
  shows "RootFS (heap w' ! p) = (if roots = [] then [] else last roots) \<and> listener_list (heap w' ! p) = []"
proof -
  have "\<not> shutdown w"
    using submit_shutdown [OF assms(1)] assms(2) by (cases "shutdown w") simp_all
  then show ?thesis
  proof (cases rule: submit_cases
      [OF assms(1) _ refl, of ns i env command args "map WithRootFS roots",
        consumes 1, case_names dup err ok])
    case (ok w'' j)
    with assms(2) submit_make_wf(11,12) [OF ok(8)] show ?thesis by auto
  qed (use assms(2) in auto)
qed

lemma submit_error:
  assumes "worker_inv w"
    and "worker_SubmitJob env w ns i command args opts = Ret ((Some e, q), w')"
  shows "e \<in> {ErrShutdown, ErrIDAlreadyExists} \<union> range Errorf \<union> range (Wrapf ''starting job'')"
proof (cases "shutdown w")
  case True
  with submit_shutdown [OF assms(1)] assms(2) show ?thesis by auto
next
  case False
  then show ?thesis
  proof (cases rule: submit_cases
      [OF assms(1) _ refl, of ns i env command args opts, consumes 1, case_names dup err ok])
    case (err w'' e')
    from err(8) have "e' \<in> range Errorf \<union> range (Wrapf ''starting job'')"
      by (auto simp: submit_make_def Let_def split: if_splits prod.splits option.splits)
    with err assms(2) show ?thesis by auto
  qed (use assms(2) in auto)
qed

text \<open>A Shutdown that has returned makes every later one return ErrShutdown and do nothing.\<close>

lemma shutdown_again:
  assumes "worker_inv w" and "worker_Shutdown ctx_err wg_done force w = Ret (r, w')"
  shows "worker_Shutdown ctx_err' wg_done' force' w' = Ret (Some ErrShutdown, w')" and "worker_inv w'"
proof -
  show inv: "worker_inv w'"
    using inv_after_shutdown [OF assms(1), of ctx_err wg_done force] assms(2) by auto
  have sd: "shutdown w'"
    using inv_after_shutdown [OF assms(1), of ctx_err wg_done force] assms(2) by auto
  have free: "readers (shutdownLock w) = 0"
    using shutdown_readers_block [of w] assms(2) by (cases "readers (shutdownLock w) = 0") auto
  have "shutdownLock w' = shutdownLock w"
    using assms(2) shutdown_mark_free [OF assms(1) free]
    by (auto simp: worker_Shutdown_def shutdown_take_def go_bind_eq_Ret split: if_splits)
  with free shutdown_mark_free [OF inv] sd
  show "worker_Shutdown ctx_err' wg_done' force' w' = Ret (Some ErrShutdown, w')"
    by (simp add: worker_Shutdown_def)
qed

section \<open>Properties\<close>

text \<open>A successful submission on a healthy worker stores a new job under its key, an ID that
  was free before and is the caller's or the generated one; the stored job carries the submitted
  namespace, ID, command and arguments, no output and no exit code, and no other entry and no
  other job changes. The worker's invariant and its locks are as before.\<close>

theorem submit_stores_job:
  assumes "worker_inv w" and "env_uuid env \<noteq> []"
    and "worker_SubmitJob env w ns i command args (map WithRootFS roots) = Ret ((None, Some p), w')"
    and "i' = (if i = [] then env_uuid env else i)"
  shows "job_entry w ns i' = None \<and> lookup_job w' ns i' = Some p \<and>
    (\<forall>n k. (n, k) \<noteq> (ns, i') \<longrightarrow> job_entry w' n k = job_entry w n k) \<and>
    p = length (heap w) \<and> take p (heap w') = heap w \<and> length (heap w') = Suc p \<and>
    Namespace (heap w' ! p) = ns \<and> ID (heap w' ! p) = i' \<and> Command (heap w' ! p) = command \<and>
    Args (heap w' ! p) = args \<and> fresh_job (heap w' ! p) \<and>
    output_of is_err (heap w' ! p) = [] \<and> worker_inv w' \<and> shutdownLock w' = shutdownLock w"
  using submit_effect [OF assms] unfolding output_of_def by auto

theorem submit_stores_job_witness:
  "\<exists>w'. worker_SubmitJob sample_env sample_worker ''ns'' [] ''echo'' [''hi''] (map WithRootFS []) =
      Ret ((None, Some 0), w') \<and>
    lookup_job w' ''ns'' ''u1'' = Some 0 \<and> Command (heap w' ! 0) = ''echo''"
proof -
  obtain w' where w': "worker_SubmitJob sample_env sample_worker ''ns'' [] ''echo'' [''hi'']
      (map WithRootFS []) = Ret ((None, Some 0), w')"
    by (simp add: worker_SubmitJob_def submit_body_def submit_reserve_def submit_make_def
        submit_commit_def runner_start_def execRunner_start_def startCmd_def job_entry_def
        newJob_def mutex_defs Let_def)
  show ?thesis
    using submit_stores_job [OF sample_worker_inv _ w' refl] w' by simp
qed

text \<open>Whatever makes a submission fail (the worker shut down, the ID in use, a root filesystem
  on an unlimited worker, a runner that cannot start the job), no job is returned and the table,
  the jobs and the locks are exactly as before: the reserved place is given back. An ID is refused
  as already existing exactly when it is in the table.\<close>

theorem failed_submit_changes_nothing:
  assumes "worker_inv w"
    and "worker_SubmitJob env w ns i command args (map WithRootFS roots) = Ret ((Some e, q), w')"
    and "i' = (if i = [] then env_uuid env else i)"
  shows "q = None \<and> job_entry w' = job_entry w \<and> heap w' = heap w \<and> shutdown w' = shutdown w \<and>
    shutdownLock w' = shutdownLock w \<and>
    (shutdown w \<longleftrightarrow> e = ErrShutdown) \<and>
    (\<not> shutdown w \<longrightarrow> (e = ErrIDAlreadyExists \<longleftrightarrow> job_entry w ns i' \<noteq> None))"
  using assms by (rule failed_submit_effect)

theorem failed_submit_changes_nothing_witness:
  "\<exists>e w'. worker_SubmitJob sample_env sample_worker ''ns'' ''a'' ''echo'' [] (map WithRootFS [''/r'']) =
      Ret ((Some e, None), w') \<and> job_entry w' = job_entry sample_worker"
proof -
  obtain e w' where w': "worker_SubmitJob sample_env sample_worker ''ns'' ''a'' ''echo'' []
      (map WithRootFS [''/r'']) = Ret ((Some e, None), w')"
    by (simp add: worker_SubmitJob_def submit_body_def submit_reserve_def submit_make_def
        submit_rollback_def WithRootFS_def job_entry_def newJob_def mutex_defs Let_def)
  show ?thesis
    using failed_submit_changes_nothing [OF sample_worker_inv w' refl] w' by blast
qed

text \<open>From the construction of a worker on, no sequence of its operations panics (no write to
  a nil map, no nil job stopped, no unlock of a free mutex), and every state it reaches satisfies
  the invariant: entries lead to jobs that carry their own key, and nothing is left reserved.\<close>

theorem worker_operations_never_panic:
  assumes "worker_New stat limits = (Inr w, left)" and "\<forall>a \<in> set ops. op_ok a"
  shows "worker_run ops w \<noteq> Panic \<and> (worker_run ops w = Ret w' \<longrightarrow> worker_inv w')"
  using worker_run_inv [OF New_inv [OF assms(1)] assms(2)] by blast

theorem worker_operations_never_panic_witness:
  "worker_run [OpSubmit sample_env ''ns'' ''a'' ''echo'' [] [], OpShutdown None True False]
     sample_worker \<noteq> Panic"
  using worker_operations_never_panic [of "Inr 0" None sample_worker None
      "[OpSubmit sample_env ''ns'' ''a'' ''echo'' [] [], OpShutdown None True False]"]
  by (simp add: worker_New_def)

text \<open>C1: GetJob returns the job of exactly that namespace and ID, or ErrShutdown, and leaves
  two read locks of \<open>shutdownLock\<close> behind: a Shutdown after any GetJob blocks for ever, even
  with nothing else running, no job to wait for and an expired context.\<close>

theorem get_job_makes_shutdown_block:
  assumes "worker_inv w" and "worker_GetJob w ns i = Ret (res, w')"
  shows "res = (if shutdown w then (Some ErrShutdown, None) else (None, lookup_job w ns i)) \<and>
    readers (shutdownLock w') = readers (shutdownLock w) + 2 \<and>
    worker_Shutdown ctx_err wg_done force w' = Block"
  using assms get_job_result [OF assms(1), of ns i]
  by (auto intro: shutdown_readers_block)

theorem get_job_makes_shutdown_block_witness:
  "worker_Shutdown None True True sample_worker \<noteq> Block \<and>
   (\<exists>r w'. worker_GetJob sample_worker ''ns'' ''x'' = Ret (r, w') \<and>
      worker_Shutdown (Some CtxCanceled) True True w' = Block)"
proof -
  obtain r w' where g: "worker_GetJob sample_worker ''ns'' ''x'' = Ret (r, w')"
    using get_job_result [OF sample_worker_inv] by blast
  have "worker_Shutdown None True True sample_worker \<noteq> Block"
    by (simp add: worker_Shutdown_def shutdown_mark_def shutdown_take_def mutex_defs)
  with get_job_makes_shutdown_block [OF sample_worker_inv g] g show ?thesis by blast
qed

text \<open>Once a Shutdown call has returned, whatever it returned, the worker is shut down for
  good: lookups, submissions and every further Shutdown answer ErrShutdown, so a second, forced
  Shutdown after a timed-out graceful one never reaches the jobs.\<close>

theorem shutdown_is_final:
  assumes "worker_inv w" and "worker_Shutdown ctx_err wg_done force w = Ret (r, w')"
  shows "worker_inv w' \<and> jobs w' = None \<and>
    (\<exists>w2. worker_GetJob w' ns i = Ret ((Some ErrShutdown, None), w2)) \<and>
    worker_SubmitJob env w' ns i command args opts = Ret ((Some ErrShutdown, None), w') \<and>
    worker_Shutdown ctx_err' wg_done' force' w' = Ret (Some ErrShutdown, w')"
proof -
  note again = shutdown_again [OF assms]
  have sd: "shutdown w'"
    using inv_after_shutdown [OF assms(1), of ctx_err wg_done force] assms(2) by auto
  with again(2) get_job_result [OF again(2), of ns i] submit_shutdown [OF again(2) sd] again(1)
  show ?thesis by (auto simp: worker_inv_def)
qed

theorem shutdown_is_final_witness:
  "\<exists>w'. worker_Shutdown None False False sample_worker = Ret (None, w') \<and>
     worker_Shutdown None True True w' = Ret (Some ErrShutdown, w')"
proof -
  obtain w' where s: "worker_Shutdown None False False sample_worker = Ret (None, w')"
    by (simp add: worker_Shutdown_def shutdown_mark_def shutdown_take_def mutex_defs)
  with shutdown_is_final [OF sample_worker_inv s] show ?thesis by blast
qed

end
