(* ===== verification/ShutdownWait.thy ===== *)
theory ShutdownWait
  imports Worker
begin

text \<open>
  The waiting half of \<open>Worker.Shutdown\<close> (\<open>worker/worker.go\<close>) as a step system: one
  goroutine per job runs \<open>job.Stop\<close>, another closes \<open>wgDone\<close> when they have all
  returned, and the caller selects twice. Jobs finish and the context expires whenever they like.
\<close>

datatype sw_pc = FirstSelect | SecondSelect | SwReturned "go_error option"

text \<open>
  Per job: whether it is done and whether its \<open>Stop\<close> goroutine has returned. \<open>sw_ctx\<close>
  is the error of the context once it is done.
\<close>

record sw =
  sw_ctx :: "go_error option"
  sw_done :: "bool list"
  sw_stops :: "bool list"
  sw_closed :: bool
  sw_pc :: sw_pc

inductive sw_step :: "sw \<Rightarrow> sw \<Rightarrow> bool" where
  sw_job_done: "i < length (sw_done s) \<Longrightarrow> sw_step s (s\<lparr>sw_done := (sw_done s)[i := True]\<rparr>)"
| sw_ctx_done: "sw_ctx s = None \<Longrightarrow> sw_step s (s\<lparr>sw_ctx := Some e\<rparr>)"
| sw_stop_returns:
    "i < length (sw_stops s) \<Longrightarrow> sw_done s ! i \<or> sw_ctx s \<noteq> None \<Longrightarrow>
     sw_step s (s\<lparr>sw_stops := (sw_stops s)[i := True]\<rparr>)"
| sw_close: "False \<notin> set (sw_stops s) \<Longrightarrow> sw_step s (s\<lparr>sw_closed := True\<rparr>)"
| sw_first:
    "sw_pc s = FirstSelect \<Longrightarrow> sw_ctx s \<noteq> None \<or> sw_closed s \<Longrightarrow>
     sw_step s (s\<lparr>sw_pc := SecondSelect\<rparr>)"
| sw_second:
    "sw_pc s = SecondSelect \<Longrightarrow> shutdown_result (sw_ctx s) (sw_closed s) = Ret r \<Longrightarrow>
     sw_step s (s\<lparr>sw_pc := SwReturned r\<rparr>)"

definition sw_start :: "go_error option \<Rightarrow> bool list \<Rightarrow> sw" where
  "sw_start ctx dones =
     \<lparr>sw_ctx = ctx, sw_done = dones, sw_stops = map (\<lambda>_. False) dones, sw_closed = False,
      sw_pc = FirstSelect\<rparr>"

inductive sw_init :: "sw \<Rightarrow> bool" where
  "sw_init (sw_start ctx dones)"

definition sw_inv :: "sw \<Rightarrow> bool" where
  "sw_inv s \<longleftrightarrow>
     length (sw_stops s) = length (sw_done s) \<and>
     (\<forall>i < length (sw_stops s). sw_stops s ! i \<longrightarrow> sw_done s ! i \<or> sw_ctx s \<noteq> None) \<and>
     (sw_closed s \<longrightarrow> (False \<notin> set (sw_stops s))) \<and>
     (sw_pc s \<noteq> FirstSelect \<longrightarrow> sw_ctx s \<noteq> None \<or> sw_closed s) \<and>
     (\<forall>e. sw_pc s = SwReturned (Some e) \<longrightarrow> sw_ctx s = Some e) \<and>
     (sw_pc s = SwReturned None \<longrightarrow> sw_closed s)"

lemma update_True: "False \<notin> set bs \<Longrightarrow> False \<notin> set (bs[i := True])"
  by (induction bs arbitrary: i) (auto split: nat.splits)

lemma sw_inv_step: "sw_step s t \<Longrightarrow> sw_inv s \<Longrightarrow> sw_inv t"
proof (induction rule: sw_step.induct)
  case (sw_job_done i s)
  then show ?case by (auto simp: sw_inv_def nth_list_update)
next
  case (sw_stop_returns i s)
  then show ?case
    by (auto simp: sw_inv_def nth_list_update update_True)
next
  case (sw_second s r)
  then show ?case by (auto simp: sw_inv_def shutdown_result_def split: if_splits)
qed (auto simp: sw_inv_def)

interpretation shutdown_wait: invariant_system sw_init sw_step sw_inv
proof
  show "sw_inv s" if "sw_init s" for s
    using that by cases (simp add: sw_inv_def sw_start_def)
  show "sw_inv t" if "sw_inv s" "sw_step s t" for s t
    using that(2,1) by (rule sw_inv_step)
qed

section \<open>Properties\<close>

text \<open>C18: When Shutdown returns an error it is the error of its expired context; when it returns
  nil, all its Stop calls have returned, and if the context is still open every job is done.\<close>

theorem shutdown_wait_outcome:
  assumes "reach sw_init sw_step s"
  shows "(sw_pc s = SwReturned (Some e) \<longrightarrow> sw_ctx s = Some e) \<and>
    (sw_pc s = SwReturned None \<longrightarrow> (False \<notin> set (sw_stops s)) \<and>
       (sw_ctx s = None \<longrightarrow> (False \<notin> set (sw_done s))))"
  using shutdown_wait.inv_reach [OF assms]
  unfolding sw_inv_def by (metis (full_types) in_set_conv_nth)

text \<open>A run in which the job finishes and the context stays open.\<close>

lemma sw_good_run:
  "reach sw_init sw_step \<lparr>sw_ctx = None, sw_done = [True], sw_stops = [True], sw_closed = True,
     sw_pc = SwReturned None\<rparr>"
proof -
  let ?s0 = "sw_start None [True]"
  let ?s1 = "?s0\<lparr>sw_stops := (sw_stops ?s0)[0 := True]\<rparr>"
  let ?s2 = "?s1\<lparr>sw_closed := True\<rparr>"
  let ?s3 = "?s2\<lparr>sw_pc := SecondSelect\<rparr>"
  have "reach sw_init sw_step ?s0" by (intro reach_init sw_init.intros)
  moreover have "sw_step ?s0 ?s1" by (rule sw_stop_returns) (simp_all add: sw_start_def)
  moreover have "sw_step ?s1 ?s2" by (rule sw_close) (simp add: sw_start_def)
  moreover have "sw_step ?s2 ?s3" by (rule sw_first) (simp_all add: sw_start_def)
  moreover have "sw_step ?s3 (?s3\<lparr>sw_pc := SwReturned None\<rparr>)"
    by (rule sw_second) (simp_all add: sw_start_def shutdown_result_def)
  ultimately have "reach sw_init sw_step (?s3\<lparr>sw_pc := SwReturned None\<rparr>)"
    by (meson reach_step)
  then show ?thesis by (simp add: sw_start_def)
qed

theorem shutdown_wait_outcome_witness:
  "\<exists>s. reach sw_init sw_step s \<and> sw_pc s = SwReturned None \<and> sw_ctx s = None \<and>
     (False \<notin> set (sw_done s))"
  using shutdown_wait_outcome [OF sw_good_run] sw_good_run
  by (intro exI conjI) (assumption, simp_all)

text \<open>C19: Shutdown can return nil although a job is still running: the Stop goroutines also return
  when the context expires, so the wait group can be released between the two selects.\<close>

theorem shutdown_can_report_success_with_running_job:
  "\<exists>s. reach sw_init sw_step s \<and> sw_pc s = SwReturned None \<and> sw_ctx s = Some CtxDeadlineExceeded \<and>
     sw_done s = [False]"
proof -
  let ?s0 = "sw_start (Some CtxDeadlineExceeded) [False]"
  let ?s1 = "?s0\<lparr>sw_pc := SecondSelect\<rparr>"
  let ?s2 = "?s1\<lparr>sw_stops := (sw_stops ?s1)[0 := True]\<rparr>"
  let ?s3 = "?s2\<lparr>sw_closed := True\<rparr>"
  have "reach sw_init sw_step ?s0" by (intro reach_init sw_init.intros)
  moreover have "sw_step ?s0 ?s1" by (rule sw_first) (simp_all add: sw_start_def)
  moreover have "sw_step ?s1 ?s2" by (rule sw_stop_returns) (simp_all add: sw_start_def)
  moreover have "sw_step ?s2 ?s3" by (rule sw_close) (simp add: sw_start_def)
  moreover have "sw_step ?s3 (?s3\<lparr>sw_pc := SwReturned None\<rparr>)"
    by (rule sw_second) (simp_all add: sw_start_def shutdown_result_def)
  ultimately have "reach sw_init sw_step (?s3\<lparr>sw_pc := SwReturned None\<rparr>)"
    by (meson reach_step)
  then show ?thesis by (intro exI [of _ "?s3\<lparr>sw_pc := SwReturned None\<rparr>"]) (simp add: sw_start_def)
qed

end
