(* ===== verification/WorkerConc.thy ===== *)
theory WorkerConc
  imports Worker
begin

text \<open>
  The worker of \<open>worker/worker.go\<close> under concurrent callers. Every thread makes one call
  (any number of threads stands for any number of calls) and moves from one point of its code to
  the next; a step is one critical section, one lock operation or the code in between, and is the
  same definition that theory \<open>Worker\<close> composes. A panic of any step is a program counter of
  its own, so that its absence is a theorem.
\<close>

section \<open>Threads\<close>

datatype call =
    GetCall string string
  | SubmitCall env string string string "string list" "string list"
  | ShutdownCall bool

type_synonym result = "go_error option \<times> nat option"

datatype pc =
    Start call
  | GetLocked string string
  | GetReturning result
  | GetDone result
  | SubLocked env string string string "string list" "string list"
  | SubReserved env string string string "string list" "string list"
  | SubFailed string string go_error
  | SubMade string string nat
  | SubUnlocking string string result
  | SubDone string string result
  | ShutWaiting bool
  | ShutHolding bool
  | ShutMarked bool bool
  | ShutStopping bool "(string, (string, nat option) gomap) gomap"
  | ShutRefused
  | ShutStopped
  | Crashed

record conc =
  wk :: worker
  pcs :: "pc list"

definition move :: "conc \<Rightarrow> nat \<Rightarrow> pc \<Rightarrow> worker \<Rightarrow> conc" where
  "move s t pc w = s\<lparr>wk := w, pcs := (pcs s)[t := pc]\<rparr>"

definition set_lock :: "worker \<Rightarrow> rwmutex \<Rightarrow> worker" where
  "set_lock w m = w\<lparr>shutdownLock := m\<rparr>"

section \<open>Steps\<close>

text \<open>
  One rule per transition; thread \<open>t\<close> is at the program counter on the left. In
  \<open>get_return\<close> the deferred call of \<open>GetJob\<close> takes the read lock again.
\<close>

inductive thread_step :: "worker \<Rightarrow> pc \<Rightarrow> worker \<Rightarrow> pc \<Rightarrow> bool" where
  get_lock: "mu_rlock (shutdownLock w) = Some m \<Longrightarrow>
     thread_step w (Start (GetCall ns i)) (set_lock w m) (GetLocked ns i)"
| get_body:
    "thread_step w (GetLocked ns i) w
       (GetReturning (if shutdown w then (Some ErrShutdown, None) else (None, lookup_job w ns i)))"
| get_return: "mu_rlock (shutdownLock w) = Some m \<Longrightarrow>
     thread_step w (GetReturning r) (set_lock w m) (GetDone r)"
| sub_lock: "mu_rlock (shutdownLock w) = Some m \<Longrightarrow>
     thread_step w (Start (SubmitCall env ns i c as roots)) (set_lock w m)
       (SubLocked env ns (if i = [] then env_uuid env else i) c as roots)"
| sub_shutdown: "shutdown w \<Longrightarrow>
     thread_step w (SubLocked env ns i c as roots) w (SubUnlocking ns i (Some ErrShutdown, None))"
| sub_exists: "\<not> shutdown w \<Longrightarrow> submit_reserve ns i w = Ret (True, w') \<Longrightarrow>
     thread_step w (SubLocked env ns i c as roots) w'
       (SubUnlocking ns i (Some ErrIDAlreadyExists, None))"
| sub_reserve: "\<not> shutdown w \<Longrightarrow> submit_reserve ns i w = Ret (False, w') \<Longrightarrow>
     thread_step w (SubLocked env ns i c as roots) w' (SubReserved env ns i c as roots)"
| sub_reserve_panic: "\<not> shutdown w \<Longrightarrow> submit_reserve ns i w = Panic \<Longrightarrow>
     thread_step w (SubLocked env ns i c as roots) w Crashed"
| sub_fail: "submit_make env w ns i c as (map WithRootFS roots) = Inl e \<Longrightarrow>
     thread_step w (SubReserved env ns i c as roots) w (SubFailed ns i e)"
| sub_make: "submit_make env w ns i c as (map WithRootFS roots) = Inr j \<Longrightarrow>
     thread_step w (SubReserved env ns i c as roots) (w\<lparr>heap := heap w @ [j]\<rparr>)
       (SubMade ns i (length (heap w)))"
| sub_rollback:
    "thread_step w (SubFailed ns i e) (submit_rollback ns i w) (SubUnlocking ns i (Some e, None))"
| sub_commit: "submit_commit ns i p w = Ret w' \<Longrightarrow>
     thread_step w (SubMade ns i p) w' (SubUnlocking ns i (None, Some p))"
| sub_commit_panic: "submit_commit ns i p w = Panic \<Longrightarrow> thread_step w (SubMade ns i p) w Crashed"
| sub_unlock: "mu_runlock (shutdownLock w) = Ret m \<Longrightarrow>
     thread_step w (SubUnlocking ns i r) (set_lock w m) (SubDone ns i r)"
| sub_unlock_panic: "mu_runlock (shutdownLock w) = Panic \<Longrightarrow>
     thread_step w (SubUnlocking ns i r) w Crashed"
| shut_announce: "mu_announce (shutdownLock w) = Some m \<Longrightarrow>
     thread_step w (Start (ShutdownCall f)) (set_lock w m) (ShutWaiting f)"
| shut_acquire: "mu_acquire (shutdownLock w) = Some m \<Longrightarrow>
     thread_step w (ShutWaiting f) (set_lock w m) (ShutHolding f)"
| shut_mark:
    "thread_step w (ShutHolding f)
       (w\<lparr>shutdown := True, shutdownLock := mu_unlock (shutdownLock w)\<rparr>) (ShutMarked f (shutdown w))"
| shut_refuse: "thread_step w (ShutMarked f True) w ShutRefused"
| shut_take: "shutdown_take w = (m, w') \<Longrightarrow>
     thread_step w (ShutMarked f False) w' (ShutStopping f m)"
| shut_stop: "stop_all f (table_pointers m) (heap w) = Ret hp \<Longrightarrow>
     thread_step w (ShutStopping f m) (w\<lparr>heap := hp\<rparr>) ShutStopped"
| shut_stop_panic: "stop_all f (table_pointers m) (heap w) = Panic \<Longrightarrow>
     thread_step w (ShutStopping f m) w Crashed"

inductive conc_step :: "conc \<Rightarrow> conc \<Rightarrow> bool" where
  "t < length (pcs s) \<Longrightarrow> thread_step (wk s) (pcs s ! t) w pc \<Longrightarrow> conc_step s (move s t pc w)"

text \<open>Any number of calls about to be made on a worker just built by \<open>New\<close>.\<close>

inductive conc_init :: "conc \<Rightarrow> bool" where
  "worker_New stat limits = (Inr w, left) \<Longrightarrow> conc_init \<lparr>wk = w, pcs = map Start calls\<rparr>"

section \<open>Counting what the threads hold\<close>

fun read_locks :: "pc \<Rightarrow> nat" where
  "read_locks (GetLocked ns i) = 1"
| "read_locks (GetReturning r) = 1"
| "read_locks (GetDone r) = 2"
| "read_locks (SubLocked env ns i c as roots) = 1"
| "read_locks (SubReserved env ns i c as roots) = 1"
| "read_locks (SubFailed ns i e) = 1"
| "read_locks (SubMade ns i p) = 1"
| "read_locks (SubUnlocking ns i r) = 1"
| "read_locks _ = 0"

fun announced :: "pc \<Rightarrow> nat" where
  "announced (ShutWaiting f) = 1"
| "announced (ShutHolding f) = 1"
| "announced _ = 0"

fun holding :: "pc \<Rightarrow> nat" where
  "holding (ShutHolding f) = 1"
| "holding _ = 0"

text \<open>Threads that have put a placeholder for a key, and threads that own a key: those and the
  ones whose submission succeeded.\<close>

fun reserves :: "string \<times> string \<Rightarrow> pc \<Rightarrow> nat" where
  "reserves k (SubReserved env ns i c as roots) = of_bool (k = (ns, i))"
| "reserves k (SubFailed ns i e) = of_bool (k = (ns, i))"
| "reserves k (SubMade ns i p) = of_bool (k = (ns, i))"
| "reserves k _ = 0"

fun succeeded :: "string \<times> string \<Rightarrow> pc \<Rightarrow> nat" where
  "succeeded k (SubUnlocking ns i r) = of_bool (k = (ns, i) \<and> fst r = None)"
| "succeeded k (SubDone ns i r) = of_bool (k = (ns, i) \<and> fst r = None)"
| "succeeded k _ = 0"

definition total_of :: "(pc \<Rightarrow> nat) \<Rightarrow> pc list \<Rightarrow> nat" where
  "total_of f ps = sum_list (map f ps)"

lemma total_of_update:
  "t < length ps \<Longrightarrow> total_of f (ps[t := pc]) + f (ps ! t) = total_of f ps + f pc"
  unfolding total_of_def
proof (induction ps arbitrary: t)
  case (Cons p ps)
  then show ?case
  proof (cases t)
    case (Suc t')
    with Cons.IH [of t'] Cons.prems show ?thesis by simp
  qed simp
qed simp

lemma total_of_ge: "t < length ps \<Longrightarrow> f (ps ! t) \<le> total_of f ps"
  unfolding total_of_def using elem_le_sum_list [of t "map f ps"] by simp

lemma total_of_zero: "total_of f ps = 0 \<Longrightarrow> t < length ps \<Longrightarrow> f (ps ! t) = 0"
  using total_of_ge [of t ps f] by simp

lemma total_of_two:
  assumes "t < length ps" "u < length ps" "t \<noteq> u"
  shows "f (ps ! t) + f (ps ! u) \<le> total_of f ps"
  using assms
proof (induction ps arbitrary: t u)
  case (Cons p ps)
  have tail: "v < length ps \<Longrightarrow> f (ps ! v) \<le> total_of f ps" for v
    by (rule total_of_ge)
  have split: "total_of f (p # ps) = f p + total_of f ps"
    by (simp add: total_of_def)
  from Cons show ?case
    by (cases t; cases u) (auto simp: split tail intro: trans_le_add2)
qed simp

lemma total_of_mono: "(\<And>p. f p \<le> g p) \<Longrightarrow> total_of f ps \<le> total_of g ps"
  unfolding total_of_def by (induction ps) (auto intro: add_mono)

lemma reserves_le_read_locks: "reserves k p \<le> read_locks p"
  by (cases p) auto

section \<open>Invariant\<close>

text \<open>
  The three parts speak of totals, so that a step of one thread is judged against the sum over
  all the others.
\<close>

definition lock_ok :: "rwmutex \<Rightarrow> nat \<Rightarrow> nat \<Rightarrow> nat \<Rightarrow> bool" where
  "lock_ok m r a h \<longleftrightarrow>
     readers m = r \<and> a = (if pending m then 1 else 0) \<and> h = (if held m then 1 else 0) \<and>
     (held m \<longrightarrow> pending m \<and> r = 0)"

text \<open>How many threads reserve a key and have succeeded with it, by its entry in the table.\<close>

fun key_state :: "nat option option \<Rightarrow> nat \<Rightarrow> nat \<Rightarrow> bool" where
  "key_state None r n = (r = 0 \<and> n = 0)"
| "key_state (Some None) r n = (r = 1 \<and> n = 0)"
| "key_state (Some (Some p)) r n = (r = 0 \<and> n = 1)"

definition key_ok :: "worker \<Rightarrow> (string \<times> string \<Rightarrow> nat) \<Rightarrow> (string \<times> string \<Rightarrow> nat) \<Rightarrow> bool" where
  "key_ok w res suc \<longleftrightarrow>
     (jobs w = None \<longrightarrow> shutdown w) \<and> table_wf w \<and>
     (shutdown w \<longrightarrow> (\<forall>k. res k = 0)) \<and>
     (\<forall>ns i. jobs w \<noteq> None \<longrightarrow> key_state (job_entry w ns i) (res (ns, i)) (suc (ns, i))) \<and>
     (\<forall>k. res k + suc k \<le> 1)"

definition job_at :: "worker \<Rightarrow> string \<Rightarrow> string \<Rightarrow> nat \<Rightarrow> bool" where
  "job_at w ns i p \<longleftrightarrow> p < length (heap w) \<and> Namespace (heap w ! p) = ns \<and> ID (heap w ! p) = i"

definition entries_ok :: "worker \<Rightarrow> bool" where
  "entries_ok w \<longleftrightarrow> (\<forall>ns i p. job_entry w ns i = Some (Some p) \<longrightarrow> job_at w ns i p)"

fun pc_ok :: "worker \<Rightarrow> pc \<Rightarrow> bool" where
  "pc_ok w (SubMade ns i p) = job_at w ns i p"
| "pc_ok w (ShutMarked f a) = shutdown w"
| "pc_ok w (ShutStopping f m) = (None \<notin> set (table_pointers m))"
| "pc_ok w Crashed = False"
| "pc_ok w _ = True"

definition conc_inv :: "conc \<Rightarrow> bool" where
  "conc_inv s \<longleftrightarrow>
     lock_ok (shutdownLock (wk s)) (total_of read_locks (pcs s)) (total_of announced (pcs s))
       (total_of holding (pcs s)) \<and>
     key_ok (wk s) (\<lambda>k. total_of (reserves k) (pcs s)) (\<lambda>k. total_of (succeeded k) (pcs s)) \<and>
     entries_ok (wk s) \<and> (\<forall>p \<in> set (pcs s). pc_ok (wk s) p)"

lemma lock_ok_step:
  "thread_step w p w' p' \<Longrightarrow>
   lock_ok (shutdownLock w) (r + read_locks p) (a + announced p) (h + holding p) \<Longrightarrow> pc_ok w p \<Longrightarrow>
   p' \<noteq> Crashed \<Longrightarrow>
   lock_ok (shutdownLock w') (r + read_locks p') (a + announced p') (h + holding p')"
  by (induction rule: thread_step.induct)
    (auto simp: lock_ok_def mutex_defs set_lock_def shutdown_take_def entry_reserve(2) entry_commit(1)
      reserve_exists split: if_splits)

lemma nth_update_at: "q < length xs \<Longrightarrow> xs[i := x] ! q = (if i = q then x else xs ! q)"
  by auto

lemma stop_all_heap:
  assumes "stop_all f ps hp = Ret hp'"
  shows "length hp' = length hp \<and> (\<forall>q < length hp. Namespace (hp' ! q) = Namespace (hp ! q) \<and> ID (hp' ! q) = ID (hp ! q))"
proof -
  have "length (fold (\<lambda>p hp. hp[the p := Stop_request f (hp ! the p)]) ps hp) = length hp \<and>
      (\<forall>q < length hp. Namespace (fold (\<lambda>p hp. hp[the p := Stop_request f (hp ! the p)]) ps hp ! q) =
           Namespace (hp ! q) \<and>
         ID (fold (\<lambda>p hp. hp[the p := Stop_request f (hp ! the p)]) ps hp ! q) = ID (hp ! q))"
  proof (induction ps arbitrary: hp)
    case (Cons p ps)
    then show ?case by (auto simp: nth_update_at Stop_request_def)
  qed simp
  with assms show ?thesis by (auto simp: stop_all_def split: if_splits)
qed

lemma job_at_step: "thread_step w p w' p' \<Longrightarrow> job_at w ns i q \<Longrightarrow> job_at w' ns i q"
  by (induction rule: thread_step.induct)
    (auto simp: job_at_def set_lock_def shutdown_take_def nth_append entry_reserve(4) entry_commit(4)
      reserve_exists dest: stop_all_heap)

lemma shutdown_step: "thread_step w p w' p' \<Longrightarrow> shutdown w \<Longrightarrow> shutdown w'"
  by (induction rule: thread_step.induct)
    (auto simp: set_lock_def shutdown_take_def entry_reserve(3) entry_commit(2) reserve_exists)

lemma pc_ok_other: "thread_step w p w' p' \<Longrightarrow> pc_ok w q \<Longrightarrow> pc_ok w' q"
  by (cases q) (auto intro: job_at_step shutdown_step)

lemma key_ok_unchanged:
  assumes "key_ok w res suc" and "\<And>k. res' k = res k" and "\<And>k. suc' k = suc k"
    and "jobs w' = jobs w" and "shutdown w' = shutdown w"
  shows "key_ok w' res' suc'"
proof -
  have "job_entry w' = job_entry w" "table_wf w' = table_wf w"
    using assms(4) by (auto simp: job_entry_def table_wf_def fun_eq_iff)
  with assms show ?thesis unfolding key_ok_def by simp
qed

lemma key_ok_parts:
  assumes "key_ok w res suc"
  shows "table_wf w" "jobs w = None \<Longrightarrow> shutdown w" "shutdown w \<Longrightarrow> res k = 0"
    "jobs w \<noteq> None \<Longrightarrow> key_state (job_entry w ns i) (res (ns, i)) (suc (ns, i))"
    "res k + suc k \<le> 1"
  using assms unfolding key_ok_def by blast+

lemma key_okI:
  assumes "table_wf w" and "jobs w \<noteq> None" and "\<not> shutdown w"
    and "\<And>ns i. key_state (job_entry w ns i) (res (ns, i)) (suc (ns, i))"
    and "\<And>k. res k + suc k \<le> 1"
  shows "key_ok w res suc"
  using assms unfolding key_ok_def by blast

lemma key_ok_reserve:
  assumes "key_ok w res suc" and "\<not> shutdown w" and "submit_reserve ns i w = Ret (False, w')"
  shows "key_ok w' (\<lambda>k. res k + of_bool (k = (ns, i))) suc"
proof (rule key_okI)
  note r = entry_reserve [OF assms(3)] and k = key_ok_parts [OF assms(1)]
  from k(2) assms(2) have j: "jobs w \<noteq> None" by blast
  have z: "res (ns, i) = 0" "suc (ns, i) = 0"
    using k(4) [OF j, of ns i] r(1) by simp_all
  show "table_wf w'" using k(1) assms(3) by (rule table_wf_steps)
  show "jobs w' \<noteq> None" by (rule r(7))
  show "\<not> shutdown w'" using assms(2) r(3) by simp
  show "key_state (job_entry w' n m) (res (n, m) + of_bool ((n, m) = (ns, i))) (suc (n, m))" for n m
    using k(4) [OF j, of n m] r(8) [of n m] z by auto
  show "res m + of_bool (m = (ns, i)) + suc m \<le> 1" for m
    using k(5) [of m] z by auto
qed

lemma key_ok_rollback:
  assumes "key_ok w (\<lambda>k. res k + of_bool (k = (ns, i))) suc"
  shows "key_ok (submit_rollback ns i w) res suc"
proof (rule key_okI)
  note k = key_ok_parts [OF assms]
  have sd: "\<not> shutdown w" using k(3) [of "(ns, i)"] by auto
  with k(2) have j: "jobs w \<noteq> None" by blast
  have z: "res (ns, i) = 0" "suc (ns, i) = 0" using k(5) [of "(ns, i)"] by simp_all
  show "table_wf (submit_rollback ns i w)" using k(1) by (rule table_wf_steps)
  show "jobs (submit_rollback ns i w) \<noteq> None" "\<not> shutdown (submit_rollback ns i w)"
    using j sd by simp_all
  show "key_state (job_entry (submit_rollback ns i w) n m) (res (n, m)) (suc (n, m))" for n m
    using k(4) [OF j, of n m] z by (auto simp: entry_rollback)
  show "res m + suc m \<le> 1" for m
    using k(5) [of m] by simp
qed

lemma key_ok_commit:
  assumes "key_ok w (\<lambda>k. res k + of_bool (k = (ns, i))) suc" and "submit_commit ns i p w = Ret w'"
  shows "key_ok w' res (\<lambda>k. suc k + of_bool (k = (ns, i)))"
proof (rule key_okI)
  note c = entry_commit [OF assms(2)] and k = key_ok_parts [OF assms(1)]
  have sd: "\<not> shutdown w" using k(3) [of "(ns, i)"] by auto
  with k(2) have j: "jobs w \<noteq> None" by blast
  have z: "res (ns, i) = 0" "suc (ns, i) = 0" using k(5) [of "(ns, i)"] by simp_all
  show "table_wf w'" using k(1) assms(2) by (rule table_wf_steps)
  show "jobs w' \<noteq> None" by (rule c(3))
  show "\<not> shutdown w'" using sd c(2) by simp
  show "key_state (job_entry w' n m) (res (n, m)) (suc (n, m) + of_bool ((n, m) = (ns, i)))" for n m
    using k(4) [OF j, of n m] c(7) [of n m] z by auto
  show "res m + (suc m + of_bool (m = (ns, i))) \<le> 1" for m
    using k(5) [of m] by simp
qed

lemma key_ok_mark:
  assumes "key_ok w res suc" and "\<And>k. res k = 0"
  shows "key_ok (w\<lparr>shutdown := True, shutdownLock := m\<rparr>) res suc"
proof -
  have "job_entry (w\<lparr>shutdown := True, shutdownLock := m\<rparr>) = job_entry w"
    "table_wf (w\<lparr>shutdown := True, shutdownLock := m\<rparr>) = table_wf w"
    by (auto simp: job_entry_def table_wf_def fun_eq_iff)
  with assms show ?thesis unfolding key_ok_def by simp
qed

lemma key_ok_take:
  assumes "key_ok w res suc" and "shutdown w"
  shows "key_ok (w\<lparr>jobs := None\<rparr>) res suc"
proof -
  have "table_wf (w\<lparr>jobs := None\<rparr>)" "shutdown (w\<lparr>jobs := None\<rparr>)" "jobs (w\<lparr>jobs := None\<rparr>) = None"
    using assms(2) by (simp_all add: table_wf_def)
  with assms show ?thesis unfolding key_ok_def by metis
qed

text \<open>
  A step keeps the account of keys, given that the others hold no placeholder when the table is
  being closed.
\<close>

lemma key_ok_step:
  assumes "thread_step w p w' p'" and "p' \<noteq> Crashed" and "pc_ok w p"
    and "key_ok w (\<lambda>k. res k + reserves k p) (\<lambda>k. suc k + succeeded k p)"
    and "0 < holding p \<Longrightarrow> (\<And>k. res k = 0)"
  shows "key_ok w' (\<lambda>k. res k + reserves k p') (\<lambda>k. suc k + succeeded k p')"
  using assms
proof (cases rule: thread_step.cases)
  case (sub_reserve ns i env c as roots)
  with assms(4) key_ok_reserve [of w res suc ns i w'] show ?thesis by simp
next
  case (sub_exists ns i env c as roots)
  with assms(4) show ?thesis by (simp add: reserve_exists)
next
  case (sub_rollback ns i e)
  with assms(4) key_ok_rollback [of w res ns i suc] show ?thesis by simp
next
  case (sub_commit ns i p)
  with assms(4) key_ok_commit [of w res ns i suc p w'] show ?thesis by simp
next
  case (shut_mark f)
  have "key_ok w res suc" using assms(4) shut_mark by simp
  then have "key_ok (w\<lparr>shutdown := True, shutdownLock := m\<rparr>) res suc" for m
    by (rule key_ok_mark) (use assms(5) shut_mark in simp)
  then show ?thesis by (simp add: shut_mark)
next
  case (shut_take m f)
  with assms(3,4) key_ok_take [of w res suc] show ?thesis
    by (simp add: shutdown_take_def)
qed (auto simp: set_lock_def elim!: key_ok_unchanged)

lemma entries_ok_step:
  assumes step: "thread_step w p w' p'" and "entries_ok w" and "pc_ok w p"
  shows "entries_ok w'"
proof -
  have "job_entry w ns i = Some (Some q) \<or> job_at w ns i q"
    if "job_entry w' ns i = Some (Some q)" for ns i q
    using step that assms(3)
    by (cases rule: thread_step.cases)
      (auto simp: set_lock_def shutdown_take_def
        entry_reserve(8) entry_rollback entry_commit(7) reserve_exists split: if_splits)
  with assms(2) have "job_at w ns i q" if "job_entry w' ns i = Some (Some q)" for ns i q
    using that unfolding entries_ok_def by metis
  then show ?thesis
    using job_at_step [OF step] by (auto simp: entries_ok_def)
qed

lemma no_crash:
  assumes "thread_step w p w' p'" and "pc_ok w p"
    and "lock_ok (shutdownLock w) (r + read_locks p) a h"
    and "key_ok w (\<lambda>k. res k + reserves k p) suc"
  shows "p' \<noteq> Crashed"
  using assms(1)
proof (cases rule: thread_step.cases)
  case (sub_reserve_panic ns i env c as roots)
  with key_ok_parts(2) [OF assms(4)] show ?thesis
    by (auto simp: submit_reserve_def Let_def split: if_splits option.splits)
next
  case (sub_commit_panic ns i p)
  note k = key_ok_parts [OF assms(4)]
  from sub_commit_panic have one: "reserves (ns, i) (SubMade ns i p) = 1" by simp
  with k(3) [of "(ns, i)"] sub_commit_panic have "\<not> shutdown w" by auto
  with k(2) have "jobs w \<noteq> None" by blast
  with k(4) [of ns i] one sub_commit_panic have "job_entry w ns i \<noteq> None"
    by (cases "job_entry w ns i") auto
  with commit_ok [of w ns i p] sub_commit_panic show ?thesis by auto
next
  case (sub_unlock_panic ns i res)
  with assms(3) show ?thesis by (simp add: lock_ok_def mu_runlock_def split: if_splits)
next
  case (shut_stop_panic f m)
  with assms(2) show ?thesis by (simp add: stop_all_def)
qed simp_all

lemma no_placeholder_when_shutdown:
  assumes "key_ok w res suc" and "shutdown w" and "shutdown_take w = (m, w')"
  shows "None \<notin> set (table_pointers m)"
proof
  assume "None \<in> set (table_pointers m)"
  then obtain ns inner i where e: "(ns, inner) \<in> set m" "(i, None) \<in> set inner"
    by (auto simp: table_pointers_def)
  then obtain m0 where m0: "jobs w = Some m0" "m = m0"
    using assms(3) by (auto simp: shutdown_take_def split: option.splits)
  note k = key_ok_parts [OF assms(1)]
  from e m0 k(1) have "job_entry w ns i = Some None"
    by (auto simp: table_wf_def job_entry_def simp flip: gomap_get_iff)
  with k(3) [OF assms(2), of "(ns, i)"] k(4) [of ns i] m0 show False by simp
qed

lemma pc_ok_self:
  assumes "thread_step w p w' p'" and "pc_ok w p" and "p' \<noteq> Crashed" and "key_ok w res suc"
  shows "pc_ok w' p'"
  using assms(1)
proof (cases rule: thread_step.cases)
  case (sub_make env ns i c as roots j)
  with submit_make_wf [OF sub_make(4)] show ?thesis by (simp add: job_at_def)
next
  case (shut_take m f)
  with assms no_placeholder_when_shutdown [OF assms(4)] show ?thesis by simp
qed (use assms(3) in simp_all)

lemma total_of_split:
  assumes "t < length ps"
  obtains rest where "\<And>f. total_of f ps = rest f + f (ps ! t)"
    and "\<And>f pc. total_of f (ps[t := pc]) = rest f + f pc"
proof (rule that [of "\<lambda>f. total_of f ps - f (ps ! t)"])
  fix f :: "pc \<Rightarrow> nat" and pc
  show "total_of f ps = total_of f ps - f (ps ! t) + f (ps ! t)"
    using total_of_ge [OF assms, of f] by simp
  show "total_of f (ps[t := pc]) = total_of f ps - f (ps ! t) + f pc"
    using total_of_ge [OF assms, of f] total_of_update [OF assms, of f pc] by simp
qed

lemma conc_inv_step:
  assumes "conc_inv s" and "conc_step s s'"
  shows "conc_inv s'"
  using assms(2)
proof cases
  case (1 t w' p')
  let ?p = "pcs s ! t" and ?w = "wk s"
  obtain rest where old: "\<And>f. total_of f (pcs s) = rest f + f ?p"
    and new: "\<And>f pc. total_of f ((pcs s)[t := pc]) = rest f + f pc"
    using total_of_split [OF 1(2)] by blast
  have ok: "pc_ok ?w ?p" using assms(1) 1(2) by (simp add: conc_inv_def)
  have lock: "lock_ok (shutdownLock ?w) (rest read_locks + read_locks ?p)
      (rest announced + announced ?p) (rest holding + holding ?p)"
    and key: "key_ok ?w (\<lambda>k. rest (reserves k) + reserves k ?p) (\<lambda>k. rest (succeeded k) + succeeded k ?p)"
    and ent: "entries_ok ?w"
    using assms(1) by (simp_all add: conc_inv_def old)
  have alive: "p' \<noteq> Crashed" using no_crash [OF 1(3) ok lock key] .
  have closed: "rest (reserves k) = 0" if "0 < holding ?p" for k
  proof -
    from lock that have "rest read_locks + read_locks ?p = 0"
      by (auto simp: lock_ok_def split: if_splits)
    then have "total_of (reserves k) (pcs s) = 0"
      using total_of_mono [of "reserves k" read_locks "pcs s"] reserves_le_read_locks
      by (simp add: old)
    then show ?thesis by (simp add: old)
  qed
  have "pc_ok w' p'" using pc_ok_self [OF 1(3) ok alive key] .
  moreover have "pc_ok w' q" if "q \<in> set (pcs s)" for q
    using that assms(1) pc_ok_other [OF 1(3)] by (simp add: conc_inv_def)
  ultimately have "\<forall>q \<in> set ((pcs s)[t := p']). pc_ok w' q"
    using set_update_subset_insert [of "pcs s" t p'] by blast
  with lock_ok_step [OF 1(3) lock ok alive] key_ok_step [OF 1(3) alive ok key closed]
    entries_ok_step [OF 1(3) ent ok]
  show ?thesis by (simp add: 1(1) conc_inv_def move_def new)
qed

lemma conc_inv_init: "conc_init s \<Longrightarrow> conc_inv s"
proof (induction rule: conc_init.induct)
  case (1 stat limits w left calls)
  then have w: "shutdownLock w = unlocked_mutex" "jobs w = Some []" "\<not> shutdown w"
    by (auto simp: worker_New_def Let_def split: option.splits prod.splits sum.splits)
  have zero: "total_of f (map Start calls) = 0" if "\<And>c. f (Start c) = 0" for f
    using that by (induction calls) (simp_all add: total_of_def)
  have e: "job_entry w ns i = None" for ns i
    using w by (simp add: job_entry_def)
  show ?case
    by (auto simp: conc_inv_def lock_ok_def key_ok_def entries_ok_def zero w e unlocked_mutex_def table_wf_def)
qed

interpretation workers: invariant_system conc_init conc_step conc_inv
  by unfold_locales (auto intro: conc_inv_init conc_inv_step)

lemma conc_step_pcs:
  assumes "conc_step s s'"
  obtains t w' p' where "t < length (pcs s)" "thread_step (wk s) (pcs s ! t) w' p'" "s' = move s t p' w'"
  using assms by cases blast

lemma reach_lock:
  assumes "conc_inv s"
  shows "readers (shutdownLock (wk s)) = total_of read_locks (pcs s)"
    and "held (shutdownLock (wk s)) \<Longrightarrow> readers (shutdownLock (wk s)) = 0"
    and "ShutHolding f \<in> set (pcs s) \<Longrightarrow> held (shutdownLock (wk s))"
proof -
  show "readers (shutdownLock (wk s)) = total_of read_locks (pcs s)"
    "held (shutdownLock (wk s)) \<Longrightarrow> readers (shutdownLock (wk s)) = 0"
    using assms by (auto simp: conc_inv_def lock_ok_def)
  assume "ShutHolding f \<in> set (pcs s)"
  then obtain t where "t < length (pcs s)" "pcs s ! t = ShutHolding f"
    by (auto simp: in_set_conv_nth)
  then have "1 \<le> total_of holding (pcs s)"
    using total_of_ge [of t "pcs s" holding] by simp
  with assms show "held (shutdownLock (wk s))"
    by (auto simp: conc_inv_def lock_ok_def split: if_splits)
qed

section \<open>Leaked read locks\<close>

text \<open>A thread that has begun \<open>GetJob\<close> holds read locks for ever.\<close>

fun get_phase :: "pc \<Rightarrow> bool" where
  "get_phase (GetLocked ns i) = True"
| "get_phase (GetReturning r) = True"
| "get_phase (GetDone r) = True"
| "get_phase _ = False"

text \<open>Program counters whose next step needs \<open>shutdownLock\<close>.\<close>

fun waits_for_lock :: "pc \<Rightarrow> bool" where
  "waits_for_lock (Start c) = True"
| "waits_for_lock (GetReturning r) = True"
| "waits_for_lock (ShutWaiting f) = True"
| "waits_for_lock _ = False"

definition get_started :: "conc \<Rightarrow> bool" where
  "get_started s \<longleftrightarrow> (\<exists>t < length (pcs s). get_phase (pcs s ! t))"

definition wedged :: "conc \<Rightarrow> bool" where
  "wedged s \<longleftrightarrow> get_started s \<and> pending (shutdownLock (wk s))"

lemma get_started_readers: "conc_inv s \<Longrightarrow> get_started s \<Longrightarrow> 0 < readers (shutdownLock (wk s))"
proof -
  assume inv: "conc_inv s" and "get_started s"
  then obtain t where t: "t < length (pcs s)" "get_phase (pcs s ! t)"
    by (auto simp: get_started_def)
  then have "0 < read_locks (pcs s ! t)" by (cases "pcs s ! t") auto
  with total_of_ge [OF t(1), of read_locks] reach_lock(1) [OF inv] show ?thesis by simp
qed

lemma get_started_not_held: "conc_inv s \<Longrightarrow> get_started s \<Longrightarrow> ShutHolding f \<notin> set (pcs s)"
  using get_started_readers [of s] reach_lock(2,3) [of s] by force

lemma get_phase_step: "thread_step w p w' p' \<Longrightarrow> get_phase p \<Longrightarrow> get_phase p'"
  by (induction rule: thread_step.induct) auto

lemma get_started_step: "conc_step s s' \<Longrightarrow> get_started s \<Longrightarrow> get_started s'"
proof (elim conc_step_pcs)
  fix t w' p' assume t: "t < length (pcs s)" "thread_step (wk s) (pcs s ! t) w' p'" "s' = move s t p' w'"
    and "get_started s"
  then obtain u where u: "u < length (pcs s)" "get_phase (pcs s ! u)"
    by (auto simp: get_started_def)
  then show "get_started s'"
    using t get_phase_step [OF t(2)]
    by (cases "u = t") (auto simp: get_started_def move_def intro!: exI [of _ u])
qed

lemma no_mark_step:
  "thread_step w p w' p' \<Longrightarrow> (\<And>f. p \<noteq> ShutHolding f) \<Longrightarrow>
   shutdown w' = shutdown w \<and> (pending (shutdownLock w) \<longrightarrow> pending (shutdownLock w'))"
  by (induction rule: thread_step.induct)
    (auto simp: set_lock_def shutdown_take_def mutex_defs entry_reserve(2,3) entry_commit(1,2)
      reserve_exists split: if_splits)

lemma started_step_keeps:
  assumes "conc_inv s" and "get_started s" and "conc_step s s'"
  shows "shutdown (wk s') = shutdown (wk s)"
    and "pending (shutdownLock (wk s)) \<Longrightarrow> pending (shutdownLock (wk s'))"
proof -
  obtain t w' p' where t: "t < length (pcs s)" "thread_step (wk s) (pcs s ! t) w' p'" "s' = move s t p' w'"
    using conc_step_pcs [OF assms(3)] by blast
  have "pcs s ! t \<noteq> ShutHolding f" for f
    using get_started_not_held [OF assms(1,2)] nth_mem [OF t(1)] by metis
  with no_mark_step [OF t(2)] t(3) show "shutdown (wk s') = shutdown (wk s)"
    and "pending (shutdownLock (wk s)) \<Longrightarrow> pending (shutdownLock (wk s'))"
    by (simp_all add: move_def)
qed

lemma blocked_step:
  "thread_step w p w' p' \<Longrightarrow> pending (shutdownLock w) \<Longrightarrow> 0 < readers (shutdownLock w) \<Longrightarrow>
   \<not> waits_for_lock p"
  by (induction rule: thread_step.induct) (auto simp: mutex_defs split: if_splits)

interpretation leaked: stable_system conc_init conc_step conc_inv
  "\<lambda>s. get_started s \<and> shutdown (wk s) = b" for b
  by unfold_locales (use get_started_step started_step_keeps in blast)

interpretation stuck: stable_system conc_init conc_step conc_inv
  "\<lambda>s. wedged s \<and> t < length (pcs s) \<and> pcs s ! t = pc \<and> waits_for_lock pc" for t pc
proof
  fix s s' assume inv: "conc_inv s" and step: "conc_step s s'"
    and st: "wedged s \<and> t < length (pcs s) \<and> pcs s ! t = pc \<and> waits_for_lock pc"
  then have gs: "get_started s" "pending (shutdownLock (wk s))" by (auto simp: wedged_def)
  obtain u w' p' where u: "u < length (pcs s)" "thread_step (wk s) (pcs s ! u) w' p'" "s' = move s u p' w'"
    using conc_step_pcs [OF step] by blast
  have "u \<noteq> t"
    using blocked_step [OF u(2) gs(2) get_started_readers [OF inv gs(1)]] st by auto
  with st u get_started_step [OF step gs(1)] started_step_keeps(2) [OF inv gs(1) step gs(2)]
  show "wedged s' \<and> t < length (pcs s') \<and> pcs s' ! t = pc \<and> waits_for_lock pc"
    by (simp add: wedged_def move_def)
qed

section \<open>Example runs\<close>

lemma reach_thread:
  "reach conc_init conc_step s \<Longrightarrow> t < length (pcs s) \<Longrightarrow> thread_step (wk s) (pcs s ! t) w pc \<Longrightarrow>
   reach conc_init conc_step (move s t pc w)"
  by (blast intro: reach_step conc_step.intros)

lemma reach_sample_conc: "reach conc_init conc_step \<lparr>wk = sample_worker, pcs = map Start calls\<rparr>"
  by (rule reach_init, rule conc_init.intros [of "Inr 0" None _ None]) (simp add: worker_New_def)

text \<open>A lookup has begun and a shutdown has announced itself.\<close>

lemma reach_wedged:
  "\<exists>s. reach conc_init conc_step s \<and> wedged s \<and> \<not> shutdown (wk s) \<and> length (pcs s) = 2 \<and>
     pcs s ! 1 = ShutWaiting False"
proof -
  let ?s0 = "\<lparr>wk = sample_worker, pcs = map Start [GetCall ''ns'' ''a'', ShutdownCall False]\<rparr>"
  let ?w1 = "set_lock sample_worker (unlocked_mutex\<lparr>readers := 1\<rparr>)"
  let ?s1 = "move ?s0 0 (GetLocked ''ns'' ''a'') ?w1"
  let ?w2 = "set_lock ?w1 (unlocked_mutex\<lparr>readers := 1, pending := True\<rparr>)"
  have r1: "reach conc_init conc_step ?s1"
    by (rule reach_thread [OF reach_sample_conc])
      (auto intro!: get_lock simp: mu_rlock_def unlocked_mutex_def)
  have "thread_step ?w1 (Start (ShutdownCall False)) ?w2 (ShutWaiting False)"
    by (rule shut_announce) (simp add: set_lock_def mu_announce_def unlocked_mutex_def)
  then have "thread_step (wk ?s1) (pcs ?s1 ! 1) ?w2 (ShutWaiting False)"
    by (simp add: move_def)
  then have "reach conc_init conc_step (move ?s1 1 (ShutWaiting False) ?w2)"
    by (rule reach_thread [OF r1, rotated]) (simp add: move_def)
  then show ?thesis
    by (intro exI [of _ "move ?s1 1 (ShutWaiting False) ?w2"])
      (auto simp: wedged_def get_started_def move_def set_lock_def intro!: exI [of _ 0])
qed

text \<open>A submission that runs alone succeeds.\<close>

lemma reach_single:
  "reach conc_init conc_step \<lparr>wk = w, pcs = [p]\<rparr> \<Longrightarrow> thread_step w p w' p' \<Longrightarrow>
   reach conc_init conc_step \<lparr>wk = w', pcs = [p']\<rparr>"
  using reach_thread [of "\<lparr>wk = w, pcs = [p]\<rparr>" 0 w' p'] by (simp add: move_def)

lemma reach_submitted:
  "\<exists>w. reach conc_init conc_step \<lparr>wk = w, pcs = [SubDone ''ns'' ''a'' (None, Some 0)]\<rparr>"
proof -
  let ?call = "SubmitCall sample_env ''ns'' ''a'' ''echo'' [] []"
  let ?w1 = "set_lock sample_worker (unlocked_mutex\<lparr>readers := 1\<rparr>)"
  let ?w2 = "?w1\<lparr>jobs := Some [(''ns'', [(''a'', None)])]\<rparr>"
  let ?j = "(newJob 1 ''ns'' ''a'' ''echo'' [])\<lparr>PID := 801\<rparr>"
  let ?w3 = "?w2\<lparr>heap := [?j]\<rparr>"
  let ?w4 = "?w3\<lparr>jobs := Some [(''ns'', [(''a'', Some 0)])]\<rparr>"
  have "reach conc_init conc_step \<lparr>wk = sample_worker, pcs = [Start ?call]\<rparr>"
    using reach_sample_conc [of "[?call]"] by simp
  moreover have "thread_step sample_worker (Start ?call) ?w1 (SubLocked sample_env ''ns'' ''a'' ''echo'' [] [])"
    using sub_lock [of sample_worker "unlocked_mutex\<lparr>readers := 1\<rparr>" sample_env "''ns''" "''a''" "''echo''" "[]" "[]"]
    by (simp add: mu_rlock_def unlocked_mutex_def)
  moreover have "thread_step ?w1 (SubLocked sample_env ''ns'' ''a'' ''echo'' [] []) ?w2
      (SubReserved sample_env ''ns'' ''a'' ''echo'' [] [])"
    by (rule sub_reserve)
      (simp_all add: set_lock_def submit_reserve_def job_entry_def gomap_set_def Let_def)
  moreover have "submit_make sample_env ?w2 ''ns'' ''a'' ''echo'' [] (map WithRootFS []) = Inr ?j"
    by (simp add: set_lock_def submit_make_def runner_start_def execRunner_start_def startCmd_def newJob_def Let_def)
  then have "thread_step ?w2 (SubReserved sample_env ''ns'' ''a'' ''echo'' [] []) ?w3 (SubMade ''ns'' ''a'' 0)"
    using sub_make [of sample_env ?w2 "''ns''" "''a''" "''echo''" "[]" "[]" ?j] by (simp add: set_lock_def)
  moreover have "thread_step ?w3 (SubMade ''ns'' ''a'' 0) ?w4 (SubUnlocking ''ns'' ''a'' (None, Some 0))"
    by (rule sub_commit) (simp add: set_lock_def submit_commit_def gomap_set_def)
  moreover have "thread_step ?w4 (SubUnlocking ''ns'' ''a'' (None, Some 0)) (set_lock ?w4 unlocked_mutex)
      (SubDone ''ns'' ''a'' (None, Some 0))"
    by (rule sub_unlock) (simp add: set_lock_def mu_runlock_def unlocked_mutex_def)
  ultimately show ?thesis by (meson reach_single)
qed

section \<open>Properties\<close>

text \<open>C16: No interleaving of lookups, submissions and shutdowns panics: no write into the nil table,
  no unlock of a free mutex, no nil job stopped. In particular the table a Shutdown takes never
  holds a placeholder of a submission still in flight.\<close>

theorem concurrent_calls_never_panic:
  assumes "reach conc_init conc_step s"
  shows "Crashed \<notin> set (pcs s) \<and>
    (\<forall>f m. ShutStopping f m \<in> set (pcs s) \<longrightarrow> None \<notin> set (table_pointers m)) \<and>
    (\<forall>ns i p. lookup_job (wk s) ns i = Some p \<longrightarrow> job_at (wk s) ns i p)"
proof -
  have inv: "conc_inv s" by (rule workers.inv_reach [OF assms])
  then have pcs: "pc_ok (wk s) p" if "p \<in> set (pcs s)" for p
    using that by (simp add: conc_inv_def)
  have "Crashed \<notin> set (pcs s)" using pcs [of Crashed] by auto
  moreover have "None \<notin> set (table_pointers m)" if "ShutStopping f m \<in> set (pcs s)" for f m
    using pcs [OF that] by simp
  moreover have "job_at (wk s) ns i p" if "lookup_job (wk s) ns i = Some p" for ns i p
    using that inv by (auto simp: lookup_job_def conc_inv_def entries_ok_def split: option.splits)
  ultimately show ?thesis by blast
qed

theorem concurrent_calls_never_panic_witness:
  "\<exists>s. reach conc_init conc_step s \<and> pcs s ! 1 = ShutWaiting False \<and> Crashed \<notin> set (pcs s)"
proof -
  obtain s where s: "reach conc_init conc_step s" "pcs s ! 1 = ShutWaiting False"
    using reach_wedged by blast
  with concurrent_calls_never_panic [OF s(1)] show ?thesis by blast
qed

text \<open>IDs are unique per namespace under concurrency: of all submissions of one key, however
  they interleave, at most one succeeds.\<close>

theorem concurrent_submissions_unique:
  assumes "reach conc_init conc_step s"
    and "t < length (pcs s)" "pcs s ! t = SubDone ns i (None, p)"
    and "u < length (pcs s)" "pcs s ! u = SubDone ns i (None, q)"
  shows "t = u"
proof (rule ccontr)
  assume "t \<noteq> u"
  from total_of_two [OF assms(2,4) this, of "succeeded (ns, i)"] assms(3,5)
  have "2 \<le> total_of (succeeded (ns, i)) (pcs s)" by simp
  moreover have "key_ok (wk s) (\<lambda>k. total_of (reserves k) (pcs s)) (\<lambda>k. total_of (succeeded k) (pcs s))"
    using workers.inv_reach [OF assms(1)] by (simp add: conc_inv_def)
  ultimately show False
    using key_ok_parts(5) [of "wk s" _ _ "(ns, i)"] by fastforce
qed

theorem concurrent_submissions_unique_witness:
  "\<exists>s. reach conc_init conc_step s \<and> pcs s ! 0 = SubDone ''ns'' ''a'' (None, Some 0) \<and>
     (\<forall>t < length (pcs s). pcs s ! t = SubDone ''ns'' ''a'' (None, Some 0) \<longrightarrow> t = 0)"
proof -
  obtain w where r: "reach conc_init conc_step \<lparr>wk = w, pcs = [SubDone ''ns'' ''a'' (None, Some 0)]\<rparr>"
    using reach_submitted by blast
  show ?thesis
    using concurrent_submissions_unique [OF r, of _ "''ns''" "''a''" "Some 0" 0 "Some 0"] r by fastforce
qed

text \<open>Once any GetJob call has got past its first lock, no Shutdown ever holds the lock again and
  the worker's shutdown flag never changes, in any continuation.\<close>

theorem get_job_disables_shutdown:
  assumes "reach conc_init conc_step s" and "get_started s" and "conc_step\<^sup>*\<^sup>* s s'"
  shows "shutdown (wk s') = shutdown (wk s) \<and> ShutHolding f \<notin> set (pcs s')"
proof -
  have st: "get_started s' \<and> shutdown (wk s') = shutdown (wk s)"
    by (rule leaked.stable_from_reach [OF assms(1) _ assms(3)]) (use assms(2) in simp)
  have "conc_inv s'"
    using workers.inv_steps [OF assms(3) workers.inv_reach [OF assms(1)]] .
  with st get_started_not_held show ?thesis by blast
qed

theorem get_job_disables_shutdown_witness:
  "\<exists>s. reach conc_init conc_step s \<and> pcs s ! 1 = ShutWaiting False \<and>
     (\<forall>s'. conc_step\<^sup>*\<^sup>* s s' \<longrightarrow> \<not> shutdown (wk s'))"
proof -
  obtain s where s: "reach conc_init conc_step s" "wedged s" "\<not> shutdown (wk s)"
      "pcs s ! 1 = ShutWaiting False"
    using reach_wedged by blast
  with get_job_disables_shutdown [OF s(1)] show ?thesis
    unfolding wedged_def by blast
qed

text \<open>C17: If a Shutdown announces itself after a GetJob call has begun, the worker is deadlocked: the
  Shutdown, every call still to be made and every GetJob on its way out stay where they are in
  every continuation.\<close>

theorem shutdown_after_get_job_deadlocks:
  assumes "reach conc_init conc_step s" and "wedged s"
    and "t < length (pcs s)" and "waits_for_lock (pcs s ! t)" and "conc_step\<^sup>*\<^sup>* s s'"
  shows "pcs s' ! t = pcs s ! t"
  using stuck.stable_from_reach [OF assms(1) _ assms(5), of t "pcs s ! t"] assms(2-4) by blast

theorem shutdown_after_get_job_deadlocks_witness:
  "\<exists>s. reach conc_init conc_step s \<and> wedged s \<and>
     (\<forall>s'. conc_step\<^sup>*\<^sup>* s s' \<longrightarrow> pcs s' ! 1 = ShutWaiting False)"
proof -
  obtain s where s: "reach conc_init conc_step s" "wedged s" "length (pcs s) = 2"
      "pcs s ! 1 = ShutWaiting False"
    using reach_wedged by blast
  have "pcs s' ! 1 = ShutWaiting False" if "conc_step\<^sup>*\<^sup>* s s'" for s'
    using shutdown_after_get_job_deadlocks [OF s(1,2) _ _ that, of 1] s(3,4) by simp
  with s show ?thesis by blast
qed

end
