(* ===== verification/Registry.thy ===== *)
theory Registry
  imports Worker
begin

text \<open>
  What a worker promises, as an abstract registry: a map from namespace and ID to what was
  submitted, until it is closed. The operations of the worker, with their answers, refine its steps.
\<close>

section \<open>The registry\<close>

record job_spec =
  spec_command :: string
  spec_args :: "string list"
  spec_root :: string

datatype registry = Closed | Open "string \<times> string \<Rightarrow> job_spec option"

datatype answer = Refused go_error | Found "job_spec option" | Stored string | Ended "go_error option"

text \<open>
  One operation on the registry and its answer. A submission under a free key may fail, with an
  error that is none of the worker's own.
\<close>

inductive spec_step :: "worker_op \<Rightarrow> registry \<Rightarrow> answer \<Rightarrow> registry \<Rightarrow> bool" where
  get_closed: "spec_step (OpGet ns i) Closed (Refused ErrShutdown) Closed"
| get_open: "spec_step (OpGet ns i) (Open m) (Found (m (ns, i))) (Open m)"
| submit_closed: "spec_step (OpSubmit env ns i command args roots) Closed (Refused ErrShutdown) Closed"
| submit_taken: "i' = (if i = [] then env_uuid env else i) \<Longrightarrow> m (ns, i') \<noteq> None \<Longrightarrow>
    spec_step (OpSubmit env ns i command args roots) (Open m) (Refused ErrIDAlreadyExists) (Open m)"
| submit_failed: "i' = (if i = [] then env_uuid env else i) \<Longrightarrow> m (ns, i') = None \<Longrightarrow>
    e \<notin> {ErrShutdown, ErrIDAlreadyExists} \<Longrightarrow>
    spec_step (OpSubmit env ns i command args roots) (Open m) (Refused e) (Open m)"
| submit_stored: "i' = (if i = [] then env_uuid env else i) \<Longrightarrow> m (ns, i') = None \<Longrightarrow>
    m' = m((ns, i') \<mapsto> \<lparr>spec_command = command, spec_args = args,
                      spec_root = (if roots = [] then [] else last roots)\<rparr>) \<Longrightarrow>
    spec_step (OpSubmit env ns i command args roots) (Open m) (Stored i') (Open m')"
| shutdown_closed: "spec_step (OpShutdown ctx_err wg_done force) Closed (Refused ErrShutdown) Closed"
| shutdown_open: "r \<in> {None, ctx_err} \<Longrightarrow>
    spec_step (OpShutdown ctx_err wg_done force) (Open m) (Ended r) Closed"

inductive_cases spec_step_getE: "spec_step (OpGet ns i) r a r'"
inductive_cases spec_step_submitE: "spec_step (OpSubmit env ns i command args roots) r a r'"

fun spec_run :: "worker_op list \<Rightarrow> registry \<Rightarrow> answer list \<Rightarrow> registry \<Rightarrow> bool" where
  "spec_run [] r as r' \<longleftrightarrow> as = [] \<and> r' = r"
| "spec_run (op # ops) r as r' \<longleftrightarrow>
     (case as of [] \<Rightarrow> False | a # as' \<Rightarrow> \<exists>r1. spec_step op r a r1 \<and> spec_run ops r1 as' r')"

section \<open>The worker's answers\<close>

definition spec_of :: "job \<Rightarrow> job_spec" where
  "spec_of j = \<lparr>spec_command = Command j, spec_args = Args j, spec_root = RootFS j\<rparr>"

definition registry_of :: "worker \<Rightarrow> registry" where
  "registry_of w =
     (if shutdown w then Closed
      else Open (\<lambda>(ns, i). map_option (\<lambda>p. spec_of (heap w ! p)) (lookup_job w ns i)))"

fun worker_answer :: "worker_op \<Rightarrow> worker \<Rightarrow> (answer \<times> worker) go" where
  "worker_answer (OpGet ns i) w =
     go_bind (worker_GetJob w ns i) (\<lambda>((err, p), w').
       Ret (case err of Some e \<Rightarrow> Refused e
            | None \<Rightarrow> Found (map_option (\<lambda>p. spec_of (heap w ! p)) p), w'))"
| "worker_answer (OpSubmit env ns i command args roots) w =
     go_bind (worker_SubmitJob env w ns i command args (map WithRootFS roots)) (\<lambda>((err, p), w').
       Ret (case err of Some e \<Rightarrow> Refused e | None \<Rightarrow> Stored (ID (heap w' ! the p)), w'))"
| "worker_answer (OpShutdown ctx_err wg_done force) w =
     go_bind (worker_Shutdown ctx_err wg_done force w) (\<lambda>(r, w').
       Ret (if r = Some ErrShutdown \<and> shutdown w then Refused ErrShutdown else Ended r, w'))"

fun worker_answers :: "worker_op list \<Rightarrow> worker \<Rightarrow> (answer list \<times> worker) go" where
  "worker_answers [] w = Ret ([], w)"
| "worker_answers (op # ops) w =
     go_bind (worker_answer op w) (\<lambda>(a, w1).
     go_bind (worker_answers ops w1) (\<lambda>(as, w2). Ret (a # as, w2)))"

section \<open>One operation\<close>

lemma registry_closed: "shutdown w \<Longrightarrow> registry_of w = Closed"
  by (simp add: registry_of_def)

lemma registry_open:
  "\<not> shutdown w \<Longrightarrow> registry_of w =
     Open (\<lambda>(ns, i). map_option (\<lambda>p. spec_of (heap w ! p)) (lookup_job w ns i))"
  by (simp add: registry_of_def)

lemma registry_same:
  "job_entry w' = job_entry w \<Longrightarrow> heap w' = heap w \<Longrightarrow> shutdown w' = shutdown w \<Longrightarrow>
   registry_of w' = registry_of w"
  by (simp add: registry_of_def lookup_job_def fun_eq_iff)

text \<open>Between operations there are no placeholders, so every entry is a job.\<close>

lemma lookup_entry:
  "worker_inv w \<Longrightarrow> job_entry w ns i = None \<longleftrightarrow> lookup_job w ns i = None"
  using worker_inv_entry [of w ns i] by (auto simp: lookup_job_def entry_ok_def split: option.splits)

lemma get_refines:
  assumes "worker_inv w" and "worker_answer (OpGet ns i) w = Ret (a, w')"
  shows "spec_step (OpGet ns i) (registry_of w) a (registry_of w')"
proof -
  have same: "registry_of w' = registry_of w"
    using assms by (cases "shutdown w") (auto simp: get_job_result registry_of_def)
  show ?thesis
  proof (cases "shutdown w")
    case True
    with assms same show ?thesis
      by (auto simp: get_job_result registry_closed intro: spec_step.intros)
  next
    case False
    with assms same spec_step.get_open [of ns i
        "\<lambda>(ns, i). map_option (\<lambda>p. spec_of (heap w ! p)) (lookup_job w ns i)"]
    show ?thesis by (auto simp: get_job_result registry_open)
  qed
qed

lemma submit_refused:
  assumes "worker_inv w"
    and "worker_SubmitJob env w ns i command args (map WithRootFS roots) = Ret ((Some e, p), w')"
  shows "spec_step (OpSubmit env ns i command args roots) (registry_of w) (Refused e) (registry_of w')"
proof -
  define i' where "i' = (if i = [] then env_uuid env else i)"
  note f = failed_submit_effect [OF assms refl]
  have same: "registry_of w' = registry_of w" using f by (auto intro: registry_same)
  show ?thesis
  proof (cases "shutdown w")
    case True
    with f same show ?thesis by (auto simp: registry_closed intro: spec_step.intros)
  next
    case False
    let ?m = "\<lambda>(ns, i). map_option (\<lambda>p. spec_of (heap w ! p)) (lookup_job w ns i)"
    have m: "?m (ns, i') = None \<longleftrightarrow> e \<noteq> ErrIDAlreadyExists" "e \<noteq> ErrShutdown"
      using f False lookup_entry [OF assms(1), of ns i'] by (auto simp: i'_def)
    have "spec_step (OpSubmit env ns i command args roots) (Open ?m) (Refused e) (Open ?m)"
    proof (cases "e = ErrIDAlreadyExists")
      case True
      with m spec_step.submit_taken [OF i'_def, of ?m ns] show ?thesis by blast
    next
      case False
      with m show ?thesis by (intro spec_step.submit_failed [OF i'_def]) auto
    qed
    with same registry_open [OF False] show ?thesis by simp
  qed
qed

text \<open>The heap before a successful submission is a part of the heap after it.\<close>

lemma submit_keeps_jobs:
  assumes "worker_inv w" and "take p (heap w') = heap w" and "p = length (heap w)"
    and "lookup_job w n k = Some r"
  shows "heap w' ! r = heap w ! r"
proof -
  have "entry_ok w n k (Some r)"
    using assms(4) worker_inv_entry [OF assms(1), of n k] by (auto simp: lookup_job_def split: option.splits)
  then have "r < p" using assms(3) by (auto simp: entry_ok_def)
  then have "heap w' ! r = take p (heap w') ! r" by simp
  then show ?thesis by (simp only: assms(2))
qed

lemma submit_kept:
  assumes "worker_inv w" and "env_uuid env \<noteq> []"
    and s: "worker_SubmitJob env w ns i command args (map WithRootFS roots) = Ret ((None, Some p), w')"
  shows "spec_step (OpSubmit env ns i command args roots) (registry_of w) (Stored (ID (heap w' ! p)))
    (registry_of w')"
proof -
  define i' where "i' = (if i = [] then env_uuid env else i)"
  note e = submit_effect [OF assms i'_def]
  let ?m = "\<lambda>w (ns, i). map_option (\<lambda>p. spec_of (heap w ! p)) (lookup_job w ns i)"
  have "\<not> shutdown w"
    using submit_shutdown [OF assms(1)] s by (cases "shutdown w") simp_all
  moreover have "\<not> shutdown w'"
    using e by (auto simp: worker_inv_def lookup_job_def job_entry_def)
  moreover have fields: "Command (heap w' ! p) = command" "Args (heap w' ! p) = args" using e by blast+
  have root: "spec_of (heap w' ! p) = \<lparr>spec_command = command, spec_args = args,
      spec_root = (if roots = [] then [] else last roots)\<rparr>"
    using submit_root [OF assms(1) s] by (simp add: spec_of_def fields)
  have pt: "?m w' (n, k) = ((?m w)((ns, i') \<mapsto> spec_of (heap w' ! p))) (n, k)" for n k
    using e submit_keeps_jobs [OF assms(1), of p w' n k]
    by (cases "lookup_job w n k") (auto simp: lookup_job_def)
  have m': "?m w' = (?m w)((ns, i') \<mapsto> spec_of (heap w' ! p))"
  proof (rule ext)
    fix x :: "string \<times> string"
    obtain n k where "x = (n, k)" by (cases x)
    with pt [of n k] show "?m w' x = ((?m w)((ns, i') \<mapsto> spec_of (heap w' ! p))) x" by (simp only:)
  qed
  have "?m w (ns, i') = None" using e by (simp add: lookup_job_def)
  note step = spec_step.submit_stored [OF i'_def this m' [unfolded root]]
  have "ID (heap w' ! p) = i'" using e by blast
  ultimately show ?thesis using step by (simp add: registry_open)
qed

lemma submit_refines:
  assumes "worker_inv w" and "env_uuid env \<noteq> []"
    and "worker_answer (OpSubmit env ns i command args roots) w = Ret (a, w')"
  shows "spec_step (OpSubmit env ns i command args roots) (registry_of w) a (registry_of w')"
proof -
  obtain err p where s: "worker_SubmitJob env w ns i command args (map WithRootFS roots) = Ret ((err, p), w')"
    and a: "a = (case err of Some e \<Rightarrow> Refused e | None \<Rightarrow> Stored (ID (heap w' ! the p)))"
    using assms(3) by (auto simp: go_bind_eq_Ret)
  show ?thesis
  proof (cases err)
    case (Some e)
    with submit_refused [OF assms(1)] s a show ?thesis by simp
  next
    case None
    then have "\<not> shutdown w"
      using submit_shutdown [OF assms(1)] s by (cases "shutdown w") simp_all
    then have "\<exists>q. p = Some q"
      by (cases rule: submit_cases
        [OF assms(1) _ refl, of ns i env command args "map WithRootFS roots", consumes 1])
        (use None s in auto)
    with submit_kept [OF assms(1,2)] s a None show ?thesis by auto
  qed
qed

lemma shutdown_refines:
  assumes "worker_inv w" and "worker_answer (OpShutdown ctx_err wg_done force) w = Ret (a, w')"
  shows "spec_step (OpShutdown ctx_err wg_done force) (registry_of w) a (registry_of w')"
proof -
  obtain r where s: "worker_Shutdown ctx_err wg_done force w = Ret (r, w')"
    and a: "a = (if r = Some ErrShutdown \<and> shutdown w then Refused ErrShutdown else Ended r)"
    using assms(2) by (auto simp: go_bind_eq_Ret split: if_splits)
  have after: "shutdown w'" "shutdown w \<longrightarrow> r = Some ErrShutdown"
    using inv_after_shutdown [OF assms(1)] s by auto
  show ?thesis
  proof (cases "shutdown w")
    case True
    with a after show ?thesis by (simp add: registry_closed spec_step.shutdown_closed)
  next
    case False
    with s have "r \<in> {None, ctx_err}"
      by (auto simp: worker_Shutdown_def shutdown_mark_def shutdown_take_def shutdown_result_def go_bind_eq_Ret
          split: if_splits)
    with a after False show ?thesis
      by (simp add: registry_closed registry_open spec_step.shutdown_open)
  qed
qed

lemma answer_refines:
  assumes "worker_inv w" and "op_ok op" and "worker_answer op w = Ret (a, w')"
  shows "spec_step op (registry_of w) a (registry_of w')"
  using assms get_refines submit_refines shutdown_refines by (cases op) auto

lemma answer_exec:
  "worker_answer op w = Ret (a, w') \<Longrightarrow> worker_exec op w = Ret w'"
  by (cases op) (auto simp: go_bind_eq_Ret)

section \<open>Properties\<close>

text \<open>C2: The worker refines the registry. A new worker is the empty open registry, and whatever
  sequence of lookups, submissions and shutdowns is run on a healthy worker, as long as each
  operation returns, the answers it gives are those of the registry: lookups find exactly what was
  submitted under that namespace and ID and never what was not, an ID is taken once, and after a
  shutdown every answer is ErrShutdown.\<close>

theorem worker_refines_registry:
  assumes "worker_inv w" and "\<forall>op \<in> set ops. op_ok op" and "worker_answers ops w = Ret (as, w')"
  shows "spec_run ops (registry_of w) as (registry_of w') \<and>
    (worker_New stat config = (Inr w, left) \<longrightarrow> registry_of w = Open (\<lambda>_. None))"
proof -
  have "spec_run ops (registry_of w) as (registry_of w')"
    using assms
  proof (induction ops arbitrary: w as)
    case (Cons op ops)
    obtain a w1 as' where a: "worker_answer op w = Ret (a, w1)"
      and as: "worker_answers ops w1 = Ret (as', w')" "as = a # as'"
      using Cons.prems(3) by (auto simp: go_bind_eq_Ret)
    have "worker_inv w1"
      using worker_exec_inv [OF Cons.prems(1), of op] Cons.prems(2) answer_exec [OF a] by simp
    with Cons.IH [OF this _ as(1)] answer_refines [OF Cons.prems(1) _ a] Cons.prems(2) as(2)
    show ?case by auto
  qed simp
  moreover have "registry_of w = Open (\<lambda>_. None)" if "worker_New stat config = (Inr w, left)"
    using that by (auto simp: worker_New_def registry_of_def lookup_job_def job_entry_def fun_eq_iff
        split: option.splits sum.splits prod.splits)
  ultimately show ?thesis by blast
qed

theorem worker_refines_registry_witness:
  "\<exists>as w'. worker_answers [OpSubmit sample_env ''ns'' [] ''ls'' [''-l''] [], OpGet ''ns'' ''u1'', OpGet ''x'' ''u1'']
      sample_worker = Ret (as, w') \<and>
    as = [Stored ''u1'', Found (Some \<lparr>spec_command = ''ls'', spec_args = [''-l''], spec_root = []\<rparr>), Found None] \<and>
    spec_run [OpSubmit sample_env ''ns'' [] ''ls'' [''-l''] [], OpGet ''ns'' ''u1'', OpGet ''x'' ''u1'']
      (Open (\<lambda>_. None)) as (registry_of w')"
proof -
  let ?ops = "[OpSubmit sample_env ''ns'' [] ''ls'' [''-l''] [], OpGet ''ns'' ''u1'', OpGet ''x'' ''u1'']"
  let ?as = "[Stored ''u1'', Found (Some \<lparr>spec_command = ''ls'', spec_args = [''-l''], spec_root = []\<rparr>), Found None]"
  obtain w' where a: "worker_answers ?ops sample_worker = Ret (?as, w')"
    by (simp add: worker_SubmitJob_def submit_body_def submit_reserve_def submit_make_def
        submit_commit_def runner_start_def execRunner_start_def startCmd_def job_entry_def lookup_job_def
        worker_GetJob_def newJob_def mutex_defs Let_def spec_of_def)
  have ok: "\<forall>op \<in> set ?ops. op_ok op" by simp
  have new: "worker_New (Inr 0) None = (Inr sample_worker, None)" by (simp add: worker_New_def)
  note r = worker_refines_registry [OF sample_worker_inv ok a, of "Inr 0" None None]
  from r new have "registry_of sample_worker = Open (\<lambda>_. None)" by blast
  with r a show ?thesis by metis
qed

end
