(* ===== verification/SharedRegistry.thy ===== *)
theory SharedRegistry
  imports WorkerConc Registry
begin

text \<open>
  What a worker promises to concurrent callers. The registry of theory \<open>Registry\<close> answers one
  operation at a time; with calls interleaved at the worker's locks a submission is two atomic
  operations, reserving the key and then storing the job or giving the key up. The interleaved worker
  of theory \<open>WorkerConc\<close> is simulated by that registry, event by event.
\<close>

section \<open>Simulation\<close>

text \<open>Runs of a system that labels its steps; a step without a label is not seen.\<close>

inductive labelled_run :: "('s \<Rightarrow> 'e option \<Rightarrow> 's \<Rightarrow> bool) \<Rightarrow> 's \<Rightarrow> 'e list \<Rightarrow> 's \<Rightarrow> bool"
  for step s where
  run_nil: "labelled_run step s [] s"
| run_hidden: "labelled_run step s es t \<Longrightarrow> step t None u \<Longrightarrow> labelled_run step s es u"
| run_event: "labelled_run step s es t \<Longrightarrow> step t (Some e) u \<Longrightarrow> labelled_run step s (es @ [e]) u"

locale event_simulation =
  fixes init :: "'s \<Rightarrow> bool"
    and step :: "'s \<Rightarrow> 'e option \<Rightarrow> 's \<Rightarrow> bool"
    and start :: 'a
    and spec :: "'a \<Rightarrow> 'e option \<Rightarrow> 'a \<Rightarrow> bool"
    and sim :: "'s \<Rightarrow> 'a \<Rightarrow> bool"
  assumes sim_init: "init s \<Longrightarrow> sim s start"
    and sim_step: "sim s r \<Longrightarrow> step s l t \<Longrightarrow> \<exists>r'. (l = None \<and> r' = r \<or> l \<noteq> None \<and> spec r l r') \<and> sim t r'"
begin

lemma runs_simulated:
  assumes "init s" and "labelled_run step s es t"
  shows "\<exists>r. labelled_run spec start es r \<and> sim t r"
  using assms(2)
proof (induction rule: labelled_run.induct)
  case run_nil
  show ?case by (rule exI, rule conjI [OF labelled_run.run_nil sim_init [OF assms(1)]])
next
  case (run_hidden es t u)
  then obtain r where r: "labelled_run spec start es r" "sim t r" by blast
  from sim_step [OF r(2) run_hidden.hyps(2)] r(1) show ?case by auto
next
  case (run_event es t e u)
  then obtain r where r: "labelled_run spec start es r" "sim t r" by blast
  from sim_step [OF r(2) run_event.hyps(2)] obtain r' where "spec r (Some e) r'" "sim u r'" by auto
  with labelled_run.run_event [OF r(1)] show ?case by blast
qed

end

section \<open>The shared registry\<close>

type_synonym key = "string \<times> string"

datatype slot = Reserved job_spec | Kept job_spec

datatype shared = SharedClosed | SharedOpen "key \<Rightarrow> slot option"

datatype shared_event =
    EvGet key answer
  | EvReserve key job_spec
  | EvRefuse key go_error
  | EvGiveUp key
  | EvKeep key job_spec
  | EvClose
  | EvCloseAgain

definition kept :: "slot option \<Rightarrow> job_spec option" where
  "kept x = (case x of Some (Kept s) \<Rightarrow> Some s | _ \<Rightarrow> None)"

text \<open>
  A key that is reserved or kept is refused to others, and a lookup sees only what is kept. The
  registry closes only when nothing is reserved.
\<close>

inductive shared_step :: "shared \<Rightarrow> shared_event option \<Rightarrow> shared \<Rightarrow> bool" where
  shared_get: "shared_step (SharedOpen m) (Some (EvGet k (Found (kept (m k))))) (SharedOpen m)"
| shared_get_closed: "shared_step SharedClosed (Some (EvGet k (Refused ErrShutdown))) SharedClosed"
| shared_reserve: "m k = None \<Longrightarrow>
    shared_step (SharedOpen m) (Some (EvReserve k s)) (SharedOpen (m(k \<mapsto> Reserved s)))"
| shared_taken: "m k \<noteq> None \<Longrightarrow>
    shared_step (SharedOpen m) (Some (EvRefuse k ErrIDAlreadyExists)) (SharedOpen m)"
| shared_refuse: "shared_step SharedClosed (Some (EvRefuse k ErrShutdown)) SharedClosed"
| shared_give_up: "m k = Some (Reserved s) \<Longrightarrow>
    shared_step (SharedOpen m) (Some (EvGiveUp k)) (SharedOpen (m(k := None)))"
| shared_keep: "m k = Some (Reserved s) \<Longrightarrow>
    shared_step (SharedOpen m) (Some (EvKeep k s)) (SharedOpen (m(k \<mapsto> Kept s)))"
| shared_close: "(\<And>k s. m k \<noteq> Some (Reserved s)) \<Longrightarrow>
    shared_step (SharedOpen m) (Some EvClose) SharedClosed"
| shared_close_again: "shared_step SharedClosed (Some EvCloseAgain) SharedClosed"

section \<open>The events of the worker\<close>

definition requested :: "string \<Rightarrow> string list \<Rightarrow> string list \<Rightarrow> job_spec" where
  "requested command args roots =
     \<lparr>spec_command = command, spec_args = args, spec_root = (if roots = [] then [] else last roots)\<rparr>"

text \<open>
  The event of a thread's step from one program counter to the next, with the answer that the call
  will return. Lock operations, the making of the job and the work after closing are not seen.
\<close>

definition thread_event :: "worker \<Rightarrow> pc \<Rightarrow> pc \<Rightarrow> shared_event option" where
  "thread_event w p p' =
     (case p of
        GetLocked ns i \<Rightarrow>
          (case p' of
             GetReturning r \<Rightarrow> Some (EvGet (ns, i) (case fst r of Some e \<Rightarrow> Refused e
               | None \<Rightarrow> Found (map_option (\<lambda>q. spec_of (heap w ! q)) (snd r))))
           | _ \<Rightarrow> None)
      | SubLocked env ns i c as roots \<Rightarrow>
          (case p' of
             SubReserved _ _ _ _ _ _ \<Rightarrow> Some (EvReserve (ns, i) (requested c as roots))
           | SubUnlocking _ _ r \<Rightarrow> map_option (EvRefuse (ns, i)) (fst r)
           | _ \<Rightarrow> None)
      | SubFailed ns i e \<Rightarrow> Some (EvGiveUp (ns, i))
      | SubMade ns i q \<Rightarrow> Some (EvKeep (ns, i) (spec_of (heap w ! q)))
      | ShutHolding f \<Rightarrow>
          (case p' of ShutMarked f' again \<Rightarrow> Some (if again then EvCloseAgain else EvClose) | _ \<Rightarrow> None)
      | _ \<Rightarrow> None)"

inductive conc_event :: "conc \<Rightarrow> shared_event option \<Rightarrow> conc \<Rightarrow> bool" where
  "t < length (pcs s) \<Longrightarrow> thread_step (wk s) (pcs s ! t) w pc \<Longrightarrow>
   conc_event s (thread_event (wk s) (pcs s ! t) pc) (move s t pc w)"

inductive_cases conc_eventE: "conc_event s l s'"

lemma conc_event_step: "conc_event s l s' \<Longrightarrow> conc_step s s'"
  by (auto elim!: conc_eventE intro: conc_step.intros)

section \<open>The simulation relation\<close>

fun slot_ok :: "worker \<Rightarrow> nat option option \<Rightarrow> slot option \<Rightarrow> bool" where
  "slot_ok w None x = (x = None)"
| "slot_ok w (Some None) x = (\<exists>s. x = Some (Reserved s))"
| "slot_ok w (Some (Some p)) x = (x = Some (Kept (spec_of (heap w ! p))))"

text \<open>A thread that is making a job has reserved its key for what it was asked to run.\<close>

fun pc_slot :: "worker \<Rightarrow> (key \<Rightarrow> slot option) \<Rightarrow> pc \<Rightarrow> bool" where
  "pc_slot w m (SubReserved env ns i c as roots) = (m (ns, i) = Some (Reserved (requested c as roots)))"
| "pc_slot w m (SubMade ns i p) = (m (ns, i) = Some (Reserved (spec_of (heap w ! p))))"
| "pc_slot w m pc = True"

definition slots_ok :: "worker \<Rightarrow> pc list \<Rightarrow> (key \<Rightarrow> slot option) \<Rightarrow> bool" where
  "slots_ok w ps m \<longleftrightarrow>
     (\<forall>ns i. slot_ok w (job_entry w ns i) (m (ns, i))) \<and> (\<forall>u < length ps. pc_slot w m (ps ! u))"

definition shared_sim :: "conc \<Rightarrow> shared \<Rightarrow> bool" where
  "shared_sim s r \<longleftrightarrow> conc_inv s \<and>
     (if shutdown (wk s) then r = SharedClosed
      else \<exists>m. r = SharedOpen m \<and> slots_ok (wk s) (pcs s) m)"

lemma kept_lookup:
  "slot_ok w (job_entry w ns i) x \<Longrightarrow>
   map_option (\<lambda>p. spec_of (heap w ! p)) (lookup_job w ns i) = kept x"
  by (cases "(w, job_entry w ns i, x)" rule: slot_ok.cases) (auto simp: lookup_job_def kept_def)

lemma submit_make_spec:
  "submit_make env w ns i c as (map WithRootFS roots) = Inr j \<Longrightarrow> spec_of j = requested c as roots"
  using submit_make_wf by (simp add: spec_of_def requested_def)

section \<open>One step\<close>

text \<open>A key has one thread that makes a job for it, and while there is one its entry is the placeholder.\<close>

lemma reserve_alone:
  assumes "conc_inv s" and "t < length (pcs s)" and "reserves (ns, i) (pcs s ! t) = 1"
  shows "\<not> shutdown (wk s)" and "job_entry (wk s) ns i = Some None"
    and "u < length (pcs s) \<Longrightarrow> u \<noteq> t \<Longrightarrow> reserves (ns, i) (pcs s ! u) = 0"
proof -
  let ?res = "\<lambda>k. total_of (reserves k) (pcs s)" and ?suc = "\<lambda>k. total_of (succeeded k) (pcs s)"
  have key: "key_ok (wk s) ?res ?suc" using assms(1) by (simp add: conc_inv_def)
  have one: "1 \<le> ?res (ns, i)" using total_of_ge [OF assms(2), of "reserves (ns, i)"] assms(3) by simp
  with key_ok_parts(3) [OF key, of "(ns, i)"] show open_w: "\<not> shutdown (wk s)" by auto
  with key_ok_parts(2) [OF key] have "jobs (wk s) \<noteq> None" by blast
  from key_ok_parts(4) [OF key this, of ns i] one show "job_entry (wk s) ns i = Some None"
    by (cases "job_entry (wk s) ns i" rule: option.exhaust [case_names none some];
        cases "the (job_entry (wk s) ns i)") auto
  show "reserves (ns, i) (pcs s ! u) = 0" if "u < length (pcs s)" "u \<noteq> t"
    using total_of_two [OF assms(2) that(1) that(2) [symmetric], of "reserves (ns, i)"] assms(3)
      key_ok_parts(5) [OF key, of "(ns, i)"] by simp
qed

lemma no_reserve:
  assumes "conc_inv s" and "job_entry (wk s) ns i \<noteq> Some None" and "u < length (pcs s)"
  shows "reserves (ns, i) (pcs s ! u) = 0"
proof (rule ccontr)
  assume "reserves (ns, i) (pcs s ! u) \<noteq> 0"
  then have "reserves (ns, i) (pcs s ! u) = 1" by (cases "pcs s ! u") auto
  with reserve_alone(2) [OF assms(1,3)] assms(2) show False by blast
qed

text \<open>What other threads know of the registry is about keys of their own and jobs that do not change.\<close>

lemma pc_slot_other:
  assumes "pc_slot w m p" and "pc_ok w p" and "\<And>k. reserves k p = 1 \<Longrightarrow> m' k = m k"
    and "\<And>q. q < length (heap w) \<Longrightarrow> spec_of (heap w' ! q) = spec_of (heap w ! q)"
  shows "pc_slot w' m' p"
  using assms by (cases p) (auto simp: job_at_def)

lemma slot_ok_heap:
  assumes "slot_ok w e x" and "\<And>q. e = Some (Some q) \<Longrightarrow> spec_of (heap w' ! q) = spec_of (heap w ! q)"
  shows "slot_ok w' e x"
  using assms by (cases "(w, e, x)" rule: slot_ok.cases) auto

text \<open>A step that leaves the registry alone.\<close>

lemma slots_same:
  assumes "slots_ok w ps m" and "\<forall>p \<in> set ps. pc_ok w p" and "entries_ok w"
    and "job_entry w' = job_entry w" and "pc_slot w' m p'"
    and "\<And>q. q < length (heap w) \<Longrightarrow> spec_of (heap w' ! q) = spec_of (heap w ! q)"
  shows "slots_ok w' (ps[t := p']) m"
proof -
  have "slot_ok w' (job_entry w' ns i) (m (ns, i))" for ns i
    unfolding assms(4)
    by (rule slot_ok_heap [of w]) (use assms(1,3,6) in \<open>auto simp: slots_ok_def entries_ok_def job_at_def\<close>)
  moreover have "pc_slot w' m (ps[t := p'] ! u)" if "u < length ps" for u
    using that assms(1,2,5) pc_slot_other [of w m "ps ! u" m w', OF _ _ refl assms(6)]
    by (cases "u = t") (auto simp: slots_ok_def)
  ultimately show ?thesis by (simp add: slots_ok_def)
qed

text \<open>A step that changes the slot of a key no other thread makes a job for.\<close>

lemma slots_change:
  assumes "slots_ok w ps m" and "\<forall>p \<in> set ps. pc_ok w p" and "heap w' = heap w"
    and "\<And>n k. job_entry w' n k = (if n = ns \<and> k = i then e else job_entry w n k)"
    and "slot_ok w' e x" and "pc_slot w' (m((ns, i) := x)) p'"
    and "\<And>u. u < length ps \<Longrightarrow> u \<noteq> t \<Longrightarrow> reserves (ns, i) (ps ! u) = 0"
  shows "slots_ok w' (ps[t := p']) (m((ns, i) := x))"
proof -
  have "slot_ok w' (job_entry w' n k) ((m((ns, i) := x)) (n, k))" for n k
    using assms(1,4,5) slot_ok_heap [of w "job_entry w n k" "m (n, k)" w'] assms(3)
    by (auto simp: slots_ok_def)
  moreover have "pc_slot w' (m((ns, i) := x)) (ps[t := p'] ! u)" if u: "u < length ps" for u
  proof (cases "u = t")
    case True
    with u assms(6) show ?thesis by simp
  next
    case False
    have "pc_slot w' (m((ns, i) := x)) (ps ! u)"
      by (rule pc_slot_other [of w m])
        (use assms(1-3) assms(7) [OF u False] u in \<open>auto simp: slots_ok_def\<close>)
    with u False show ?thesis by simp
  qed
  ultimately show ?thesis by (simp add: slots_ok_def)
qed

lemma stop_all_spec:
  assumes "stop_all f ps hp = Ret hp'" and "q < length hp"
  shows "spec_of (hp' ! q) = spec_of (hp ! q)"
proof -
  have "spec_of (fold (\<lambda>p hp. hp[the p := Stop_request f (hp ! the p)]) ps hp ! q) = spec_of (hp ! q)"
    using assms(2)
  proof (induction ps arbitrary: hp)
    case (Cons p ps)
    then show ?case by (auto simp: nth_update_at Stop_request_def spec_of_def)
  qed simp
  with assms(1) show ?thesis by (auto simp: stop_all_def split: if_splits)
qed

text \<open>A closed registry stays closed and refuses everything.\<close>

lemma closed_event:
  assumes "thread_step w p w' p'" and "shutdown w" and "\<And>k. reserves k p = 0"
  shows "thread_event w p p' = None \<or> shared_step SharedClosed (thread_event w p p') SharedClosed"
  using assms(1)
proof (cases rule: thread_step.cases)
  case (sub_make env ns i c as roots j)
  with assms(3) [of "(ns, i)"] show ?thesis by simp
next
  case (sub_rollback ns i e)
  with assms(3) [of "(ns, i)"] show ?thesis by simp
next
  case (sub_commit ns i q)
  with assms(3) [of "(ns, i)"] show ?thesis by simp
next
  case (sub_commit_panic ns i q)
  with assms(3) [of "(ns, i)"] show ?thesis by simp
qed (use assms(2) in \<open>auto simp: thread_event_def intro: shared_step.intros\<close>)

text \<open>The three steps that change a key of an open registry, and the one that closes it.\<close>

lemma open_reserve:
  assumes "conc_inv s" and "slots_ok (wk s) (pcs s) m" and "submit_reserve ns i (wk s) = Ret (False, w)"
  shows "shared_step (SharedOpen m) (Some (EvReserve (ns, i) x)) (SharedOpen (m((ns, i) \<mapsto> Reserved x)))"
    and "x = requested c as roots \<Longrightarrow>
      slots_ok w ((pcs s)[t := SubReserved env ns i c as roots]) (m((ns, i) \<mapsto> Reserved x))"
proof -
  note r = entry_reserve [OF assms(3)]
  have "slot_ok (wk s) (job_entry (wk s) ns i) (m (ns, i))" using assms(2) by (simp add: slots_ok_def)
  with r(1) show "shared_step (SharedOpen m) (Some (EvReserve (ns, i) x)) (SharedOpen (m((ns, i) \<mapsto> Reserved x)))"
    by (intro shared_reserve) simp
  have ok: "\<forall>p \<in> set (pcs s). pc_ok (wk s) p" using assms(1) by (simp add: conc_inv_def)
  show "slots_ok w ((pcs s)[t := SubReserved env ns i c as roots]) (m((ns, i) \<mapsto> Reserved x))"
    if "x = requested c as roots"
    by (rule slots_change [OF assms(2) ok r(4) r(8)]) (use that r(1) no_reserve [OF assms(1)] in auto)
qed

lemma open_give_up:
  assumes "conc_inv s" and "t < length (pcs s)" and "slots_ok (wk s) (pcs s) m" and "pcs s ! t = SubFailed ns i e"
  shows "shared_step (SharedOpen m) (Some (EvGiveUp (ns, i))) (SharedOpen (m((ns, i) := None)))"
    and "slots_ok (submit_rollback ns i (wk s)) ((pcs s)[t := SubUnlocking ns i r]) (m((ns, i) := None))"
proof -
  have one: "reserves (ns, i) (pcs s ! t) = 1" using assms(4) by simp
  note a = reserve_alone [OF assms(1,2) one]
  have "slot_ok (wk s) (job_entry (wk s) ns i) (m (ns, i))" using assms(3) by (simp add: slots_ok_def)
  with a(2) obtain x where "m (ns, i) = Some (Reserved x)" by auto
  then show "shared_step (SharedOpen m) (Some (EvGiveUp (ns, i))) (SharedOpen (m((ns, i) := None)))"
    by (rule shared_give_up)
  have ok: "\<forall>p \<in> set (pcs s). pc_ok (wk s) p" using assms(1) by (simp add: conc_inv_def)
  show "slots_ok (submit_rollback ns i (wk s)) ((pcs s)[t := SubUnlocking ns i r]) (m((ns, i) := None))"
    by (rule slots_change [OF assms(3) ok _ entry_rollback _ _ a(3)]) simp_all
qed

lemma open_keep:
  assumes "conc_inv s" and "t < length (pcs s)" and "slots_ok (wk s) (pcs s) m" and "pcs s ! t = SubMade ns i q"
    and "submit_commit ns i q (wk s) = Ret w" and "x = spec_of (heap (wk s) ! q)"
  shows "shared_step (SharedOpen m) (Some (EvKeep (ns, i) x)) (SharedOpen (m((ns, i) \<mapsto> Kept x)))"
    and "slots_ok w ((pcs s)[t := SubUnlocking ns i r]) (m((ns, i) \<mapsto> Kept x))"
proof -
  have one: "reserves (ns, i) (pcs s ! t) = 1" using assms(4) by simp
  note a = reserve_alone [OF assms(1,2) one] and c = entry_commit [OF assms(5)]
  have "m (ns, i) = Some (Reserved x)" using assms(2-4,6) by (auto simp: slots_ok_def dest: spec [of _ t])
  then show "shared_step (SharedOpen m) (Some (EvKeep (ns, i) x)) (SharedOpen (m((ns, i) \<mapsto> Kept x)))"
    by (rule shared_keep)
  have ok: "\<forall>p \<in> set (pcs s). pc_ok (wk s) p" using assms(1) by (simp add: conc_inv_def)
  show "slots_ok w ((pcs s)[t := SubUnlocking ns i r]) (m((ns, i) \<mapsto> Kept x))"
    by (rule slots_change [OF assms(3) ok c(4) c(7) _ _ a(3)]) (simp_all add: c(4) assms(6))
qed

lemma open_close:
  assumes "conc_inv s" and "slots_ok (wk s) (pcs s) m" and "ShutHolding f \<in> set (pcs s)"
  shows "shared_step (SharedOpen m) (Some EvClose) SharedClosed"
proof (rule shared_close, rule notI)
  fix k x assume x: "m k = Some (Reserved x)"
  obtain ns i where k: "k = (ns, i)" by (cases k)
  have "slot_ok (wk s) (job_entry (wk s) ns i) (m (ns, i))" using assms(2) by (simp add: slots_ok_def)
  with x k have e: "job_entry (wk s) ns i = Some None"
    by (cases "(wk s, job_entry (wk s) ns i, m (ns, i))" rule: slot_ok.cases) auto
  then have "jobs (wk s) \<noteq> None" by (cases "jobs (wk s)") (simp_all add: job_entry_def)
  with assms(1) e have "0 < total_of (reserves (ns, i)) (pcs s)"
    using key_ok_parts(4) [of "wk s" _ _ ns i] unfolding conc_inv_def by fastforce
  then have "0 < total_of read_locks (pcs s)"
    using total_of_mono [of "reserves (ns, i)" read_locks "pcs s"] reserves_le_read_locks by fastforce
  with reach_lock [OF assms(1)] assms(3) show False by simp
qed

lemma open_step:
  assumes inv: "conc_inv s" and t: "t < length (pcs s)" and step: "thread_step (wk s) (pcs s ! t) w p'"
    and sl: "slots_ok (wk s) (pcs s) m" and op: "\<not> shutdown (wk s)" and alive: "p' \<noteq> Crashed"
  defines "ev \<equiv> thread_event (wk s) (pcs s ! t) p'"
  shows "\<exists>r. (ev = None \<and> r = SharedOpen m \<or> ev \<noteq> None \<and> shared_step (SharedOpen m) ev r) \<and>
    (if shutdown w then r = SharedClosed
     else \<exists>m'. r = SharedOpen m' \<and> slots_ok w ((pcs s)[t := p']) m')"
proof -
  have ok: "\<forall>p \<in> set (pcs s). pc_ok (wk s) p" and ent: "entries_ok (wk s)"
    using inv by (simp_all add: conc_inv_def)
  note same = slots_same [OF sl ok ent]
  have slot: "slot_ok (wk s) (job_entry (wk s) ns i) (m (ns, i))" for ns i
    using sl by (simp add: slots_ok_def)
  show ?thesis
    using step
  proof (cases rule: thread_step.cases)
    case (get_body ns i)
    with op kept_lookup [OF slot] same [of "wk s" p'] shared_get [of m "(ns, i)"] show ?thesis
      by (auto simp: ev_def thread_event_def)
  next
    case (sub_exists ns i env c as roots)
    then have e: "job_entry (wk s) ns i \<noteq> None" "w = wk s" by (simp_all add: reserve_exists)
    then have "m (ns, i) \<noteq> None" using slot [of ns i]
      by (cases "(wk s, job_entry (wk s) ns i, m (ns, i))" rule: slot_ok.cases) auto
    with sub_exists e(2) op same [of "wk s" p'] shared_taken [of m "(ns, i)"] show ?thesis
      by (auto simp: ev_def thread_event_def)
  next
    case (sub_reserve ns i env c as roots)
    note r = open_reserve [OF inv sl sub_reserve(4), where x = "requested c as roots"]
    from r(1) r(2) [OF refl, of t env] sub_reserve op entry_reserve(3) [OF sub_reserve(4)] show ?thesis
      by (auto simp: ev_def thread_event_def)
  next
    case (sub_make env ns i c as roots j)
    have "pc_slot (wk s) m (pcs s ! t)" using sl t by (simp add: slots_ok_def)
    then have "slots_ok w ((pcs s)[t := p']) m"
      by (intro same) (use sub_make submit_make_spec [OF sub_make(4)] in \<open>auto simp: nth_append\<close>)
    with sub_make op show ?thesis by (simp add: ev_def thread_event_def)
  next
    case (sub_rollback ns i e)
    with open_give_up [OF inv t sl, of ns i e] op show ?thesis by (auto simp: ev_def thread_event_def)
  next
    case (sub_commit ns i q)
    with open_keep [OF inv t sl, of ns i q w] op entry_commit(2) [OF sub_commit(3)] show ?thesis
      by (auto simp: ev_def thread_event_def)
  next
    case (shut_mark f)
    with t nth_mem have "ShutHolding f \<in> set (pcs s)" by metis
    with open_close [OF inv sl] shut_mark op show ?thesis by (auto simp: ev_def thread_event_def)
  next
    case (shut_take f)
    have "shutdown (wk s)" using ok t nth_mem [OF t] shut_take by fastforce
    with op show ?thesis by blast
  next
    case (shut_stop f m' hp)
    have "slots_ok w ((pcs s)[t := p']) m"
      by (rule same) (use shut_stop stop_all_spec in auto)
    with shut_stop op show ?thesis by (simp add: ev_def thread_event_def)
  qed (use op alive same [of w p'] in \<open>auto simp: ev_def thread_event_def set_lock_def\<close>)
qed

lemma shared_sim_step:
  assumes "shared_sim s r" and "conc_event s l s'"
  shows "\<exists>r'. (l = None \<and> r' = r \<or> l \<noteq> None \<and> shared_step r l r') \<and> shared_sim s' r'"
proof -
  have inv: "conc_inv s" using assms(1) by (simp add: shared_sim_def)
  have inv': "conc_inv s'" using inv conc_event_step [OF assms(2)] by (rule conc_inv_step)
  from assms(2) obtain t w p where t: "t < length (pcs s)" "thread_step (wk s) (pcs s ! t) w p"
    "l = thread_event (wk s) (pcs s ! t) p" "s' = move s t p w"
    by (auto elim: conc_eventE)
  have "p \<in> set (pcs s')" using t(1,4) by (simp add: move_def set_update_memI)
  with inv' have alive: "p \<noteq> Crashed" by (auto simp: conc_inv_def)
  show ?thesis
  proof (cases "shutdown (wk s)")
    case True
    have "reserves k (pcs s ! t) = 0" for k
    proof (cases k)
      case (Pair ns i)
      with reserve_alone(1) [OF inv t(1), of ns i] True show ?thesis by (cases "pcs s ! t") auto
    qed
    from closed_event [OF t(2) True this] shutdown_step [OF t(2) True] assms(1) True inv' t(3,4)
    show ?thesis by (auto simp: shared_sim_def move_def)
  next
    case False
    with assms(1) obtain m where m: "r = SharedOpen m" "slots_ok (wk s) (pcs s) m"
      by (auto simp: shared_sim_def)
    from open_step [OF inv t(1,2) m(2) False alive] inv' t(3,4) m(1)
    show ?thesis by (auto simp: shared_sim_def move_def)
  qed
qed

lemma shared_sim_init: "conc_init s \<Longrightarrow> shared_sim s (SharedOpen (\<lambda>_. None))"
proof -
  assume i: "conc_init s"
  then have "\<not> shutdown (wk s)" "job_entry (wk s) ns k = None" "\<exists>calls. pcs s = map Start calls" for ns k
    by (auto elim!: conc_init.cases simp: worker_New_def Let_def job_entry_def
        split: option.splits prod.splits sum.splits)
  with conc_inv_init [OF i] show ?thesis by (auto simp: shared_sim_def slots_ok_def)
qed

interpretation shared_worker:
  event_simulation conc_init conc_event "SharedOpen (\<lambda>_. None)" shared_step shared_sim
  by unfold_locales (fact shared_sim_init, fact shared_sim_step)

text \<open>
  A run with contention: a submission reserves a key, a second one of the same key is refused, and
  then the first gives up, because a worker without limits does not take a root filesystem.
\<close>

lemma run_thread:
  assumes "labelled_run conc_event s0 es s" and "t < length (pcs s)"
    and "thread_step (wk s) (pcs s ! t) w p"
  shows "labelled_run conc_event s0
    (es @ (case thread_event (wk s) (pcs s ! t) p of None \<Rightarrow> [] | Some e \<Rightarrow> [e])) (move s t p w)"
proof -
  have e: "conc_event s (thread_event (wk s) (pcs s ! t) p) (move s t p w)"
    using assms(2,3) by (rule conc_event.intros)
  show ?thesis
  proof (cases "thread_event (wk s) (pcs s ! t) p")
    case None
    with labelled_run.run_hidden [OF assms(1)] e show ?thesis by simp
  next
    case (Some ev)
    with labelled_run.run_event [OF assms(1)] e show ?thesis by simp
  qed
qed

abbreviation rooted_call :: call where
  "rooted_call \<equiv> SubmitCall sample_env ''ns'' ''a'' ''ls'' [] [''/r'']"

abbreviation contended_start :: conc where
  "contended_start \<equiv> \<lparr>wk = sample_worker, pcs = [Start rooted_call, Start rooted_call]\<rparr>"

lemma contended_run:
  "\<exists>s. labelled_run conc_event contended_start
      [EvReserve (''ns'', ''a'') (requested ''ls'' [] [''/r'']), EvRefuse (''ns'', ''a'') ErrIDAlreadyExists,
       EvGiveUp (''ns'', ''a'')] s \<and> \<not> shutdown (wk s)"
proof -
  let ?e1 = "EvReserve (''ns'', ''a'') (requested ''ls'' [] [''/r''])"
  let ?e2 = "EvRefuse (''ns'', ''a'') ErrIDAlreadyExists"
  let ?run = "labelled_run conc_event contended_start"
  let ?locked = "SubLocked sample_env ''ns'' ''a'' ''ls'' [] [''/r'']"
  let ?reserved = "SubReserved sample_env ''ns'' ''a'' ''ls'' [] [''/r'']"
  let ?w1 = "set_lock sample_worker (unlocked_mutex\<lparr>readers := 1\<rparr>)"
  let ?w2 = "set_lock sample_worker (unlocked_mutex\<lparr>readers := 2\<rparr>)"
  let ?w3 = "?w2\<lparr>jobs := Some [(''ns'', [(''a'', None)])]\<rparr>"
  let ?s1 = "\<lparr>wk = ?w1, pcs = [?locked, Start rooted_call]\<rparr>"
  let ?s2 = "\<lparr>wk = ?w2, pcs = [?locked, ?locked]\<rparr>"
  let ?s3 = "\<lparr>wk = ?w3, pcs = [?reserved, ?locked]\<rparr>"
  let ?refused = "SubUnlocking ''ns'' ''a'' (Some ErrIDAlreadyExists, None)"
  let ?s4 = "\<lparr>wk = ?w3, pcs = [?reserved, ?refused]\<rparr>"
  have "?run [] contended_start" by (rule labelled_run.run_nil)
  moreover have "thread_step sample_worker (Start rooted_call) ?w1 ?locked"
    using sub_lock [of sample_worker "unlocked_mutex\<lparr>readers := 1\<rparr>" sample_env "''ns''" "''a''" "''ls''" "[]" "[''/r'']"]
    by (simp add: mu_rlock_def unlocked_mutex_def)
  ultimately have "?run [] ?s1"
    using run_thread [of contended_start "[]" contended_start 0 ?w1 ?locked]
    by (simp add: thread_event_def move_def)
  moreover have "thread_step ?w1 (Start rooted_call) ?w2 ?locked"
    using sub_lock [of ?w1 "unlocked_mutex\<lparr>readers := 2\<rparr>" sample_env "''ns''" "''a''" "''ls''" "[]" "[''/r'']"]
    by (simp add: mu_rlock_def unlocked_mutex_def set_lock_def)
  ultimately have "?run [] ?s2"
    using run_thread [of contended_start "[]" ?s1 1 ?w2 ?locked]
    by (simp add: thread_event_def move_def)
  moreover have "thread_step ?w2 ?locked ?w3 ?reserved"
    by (rule sub_reserve) (simp_all add: set_lock_def submit_reserve_def job_entry_def gomap_set_def Let_def)
  ultimately have "?run [?e1] ?s3"
    using run_thread [of contended_start "[]" ?s2 0 ?w3 ?reserved]
    by (simp add: thread_event_def move_def)
  moreover have "thread_step ?w3 ?locked ?w3 ?refused"
    by (rule sub_exists) (simp_all add: set_lock_def reserve_exists job_entry_def)
  ultimately have "?run [?e1, ?e2] ?s4"
    using run_thread [of contended_start "[?e1]" ?s3 1 ?w3 ?refused]
    by (simp add: thread_event_def move_def)
  moreover obtain e where f: "thread_step ?w3 ?reserved ?w3 (SubFailed ''ns'' ''a'' e)"
  proof -
    obtain e where "submit_make sample_env ?w3 ''ns'' ''a'' ''ls'' [] (map WithRootFS [''/r'']) = Inl e"
      by (simp add: set_lock_def submit_make_def WithRootFS_def newJob_def Let_def)
    then show thesis by (rule that [OF sub_fail])
  qed
  ultimately have "?run [?e1, ?e2] \<lparr>wk = ?w3, pcs = [SubFailed ''ns'' ''a'' e, ?refused]\<rparr>"
    using run_thread [of contended_start "[?e1, ?e2]" ?s4 0 ?w3 "SubFailed ''ns'' ''a'' e"]
    by (simp add: thread_event_def move_def)
  from run_thread [OF this, of 0] sub_rollback [of ?w3 "''ns''" "''a''" e]
  show ?thesis
    by (fastforce simp: thread_event_def move_def set_lock_def)
qed

section \<open>Properties\<close>

text \<open>C3: The worker under any number of concurrent calls refines the shared registry: in every
  interleaving, the answers of the calls, at the moments their critical sections run, are those of a
  registry that handles one event at a time. A lookup answers with exactly the job that was kept
  under its key, a submission keeps exactly what was asked for, is refused only if its key is taken
  at that moment or the registry is closed, and otherwise gives its key up again; a shutdown closes
  the registry only when no submission is in flight. In the end the worker's table is the registry.\<close>

theorem concurrent_worker_refines_registry:
  assumes "conc_init s0" and "labelled_run conc_event s0 es s"
  shows "\<exists>r. labelled_run shared_step (SharedOpen (\<lambda>_. None)) es r \<and>
    (if shutdown (wk s) then r = SharedClosed
     else \<exists>m. r = SharedOpen m \<and>
       (\<forall>ns i. map_option (\<lambda>p. spec_of (heap (wk s) ! p)) (lookup_job (wk s) ns i) = kept (m (ns, i))))"
proof -
  obtain r where r: "labelled_run shared_step (SharedOpen (\<lambda>_. None)) es r" "shared_sim s r"
    using shared_worker.runs_simulated [OF assms] by blast
  from r(2) kept_lookup show ?thesis
    by (intro exI [of _ r] conjI r(1)) (auto simp: shared_sim_def slots_ok_def split: if_splits)
qed

theorem concurrent_worker_refines_registry_witness:
  "\<exists>m. labelled_run shared_step (SharedOpen (\<lambda>_. None))
     [EvReserve (''ns'', ''a'') (requested ''ls'' [] [''/r'']), EvRefuse (''ns'', ''a'') ErrIDAlreadyExists,
      EvGiveUp (''ns'', ''a'')] (SharedOpen m)"
proof -
  obtain s where s: "labelled_run conc_event contended_start
      [EvReserve (''ns'', ''a'') (requested ''ls'' [] [''/r'']), EvRefuse (''ns'', ''a'') ErrIDAlreadyExists,
       EvGiveUp (''ns'', ''a'')] s" "\<not> shutdown (wk s)"
    using contended_run by blast
  have "conc_init contended_start"
    using conc_init.intros [of "Inr 0" None sample_worker None "[rooted_call, rooted_call]"]
    by (simp add: worker_New_def)
  from concurrent_worker_refines_registry [OF this s(1)] s(2) show ?thesis by auto
qed

end
