(* ===== verification/Proto.thy ===== *)
theory Proto
  imports Prelude
begin

text \<open>
  \<open>workergrpc/worker.pb.go\<close>: the messages of the service and the accessors of the two
  \<open>oneof\<close> fields. A pointer to a message is an option. The timestamp message of
  \<open>timestamppb\<close> is a type parameter: its code is not in the repository. The bookkeeping
  fields of the protobuf runtime are left out.
\<close>

section \<open>Jobs\<close>

record 'ts pb_Job =
  pb_Id :: string
  pb_Command :: "string list"
  pb_RootFs :: string
  pb_CreatedAt :: "'ts option"
  pb_Pid :: "64 word"
  pb_Stdout :: "byte list"
  pb_Stderr :: "byte list"
  pb_ExitCode :: "32 word option"

section \<open>Requests and responses\<close>

record GetJobRequest =
  get_JobId :: string
  get_IncludeStdout :: bool
  get_IncludeStderr :: bool

record 'ts SubmitJobRequest =
  submit_Job :: "'ts pb_Job option"

record StopJobRequest =
  stop_JobId :: string
  stop_Force :: bool

text \<open>The field \<open>StreamLimit\<close> is nil or one of its two wrappers, each with its flag.\<close>

datatype StreamLimit = OnlyStdout bool | OnlyStderr bool

record StreamJobOutputRequest =
  stream_JobId :: string
  stream_Limit :: "StreamLimit option"
  stream_FromBeginning :: bool

definition GetStreamLimit :: "StreamJobOutputRequest option \<Rightarrow> StreamLimit option" where
  "GetStreamLimit m = (case m of None \<Rightarrow> None | Some r \<Rightarrow> stream_Limit r)"

definition GetOnlyStdout :: "StreamJobOutputRequest option \<Rightarrow> bool" where
  "GetOnlyStdout x = (case GetStreamLimit x of Some (OnlyStdout b) \<Rightarrow> b | _ \<Rightarrow> False)"

definition GetOnlyStderr :: "StreamJobOutputRequest option \<Rightarrow> bool" where
  "GetOnlyStderr x = (case GetStreamLimit x of Some (OnlyStderr b) \<Rightarrow> b | _ \<Rightarrow> False)"

section \<open>The messages of the output stream\<close>

datatype StreamResponse =
    RespStdout "byte list"
  | RespStderr "byte list"
  | RespCompletedExitCode "32 word"

record StreamJobOutputResponse =
  resp_Response :: "StreamResponse option"
  resp_Past :: bool

definition GetResponse :: "StreamJobOutputResponse option \<Rightarrow> StreamResponse option" where
  "GetResponse m = (case m of None \<Rightarrow> None | Some r \<Rightarrow> resp_Response r)"

definition GetStdout :: "StreamJobOutputResponse option \<Rightarrow> byte list" where
  "GetStdout x = (case GetResponse x of Some (RespStdout b) \<Rightarrow> b | _ \<Rightarrow> [])"

definition GetStderr :: "StreamJobOutputResponse option \<Rightarrow> byte list" where
  "GetStderr x = (case GetResponse x of Some (RespStderr b) \<Rightarrow> b | _ \<Rightarrow> [])"

definition GetCompletedExitCode :: "StreamJobOutputResponse option \<Rightarrow> 32 word" where
  "GetCompletedExitCode x = (case GetResponse x of Some (RespCompletedExitCode c) \<Rightarrow> c | _ \<Rightarrow> 0)"

text \<open>The two flags of the limit exclude each other, so at least one stream is always asked for.\<close>

lemma stream_limits_exclusive: "\<not> (GetOnlyStdout r \<and> GetOnlyStderr r)"
  by (auto simp: GetOnlyStdout_def GetOnlyStderr_def split: option.splits StreamLimit.splits)

text \<open>What the messages of a stream carry of one of the job's outputs, in order.\<close>

definition payload :: "bool \<Rightarrow> StreamJobOutputResponse \<Rightarrow> byte list" where
  "payload is_err m = (if is_err then GetStderr (Some m) else GetStdout (Some m))"

definition received :: "bool \<Rightarrow> StreamJobOutputResponse list \<Rightarrow> byte list" where
  "received is_err ms = concat (map (payload is_err) ms)"

lemma received_simps [simp]:
  "received is_err [] = []"
  "received is_err (m # ms) = payload is_err m @ received is_err ms"
  "received is_err (ms @ ms') = received is_err ms @ received is_err ms'"
  by (simp_all add: received_def)

end
