(* ===== verification/JobReads.thy ===== *)
theory JobReads
  imports Proto Job
begin

text \<open>
  Reading a job while it goes on. A handler of the service reads a job several times while the
  job's own goroutines change it; the events that happen before its k-th access are an argument
  of the model, and \<open>job_at\<close> is the job as that access finds it. On it, \<open>allOutput\<close> of
  \<open>workergrpc/service.go\<close>, whose correctness is proved in the locale \<open>output_reader\<close>
  and reaches the two streams of a job by interpretation.
\<close>

section \<open>The job while a handler runs\<close>

definition no_chans :: chans where
  "no_chans = (\<lambda>_. \<lparr>chan_cap = 0, chan_buf = []\<rparr>)"

definition job_after :: "job \<Rightarrow> job_event list \<Rightarrow> job" where
  "job_after j es = fst (job_run (j, no_chans) es)"

primrec job_at :: "job \<Rightarrow> (nat \<Rightarrow> job_event list) \<Rightarrow> nat \<Rightarrow> job" where
  "job_at j evs 0 = job_after j (evs 0)"
| "job_at j evs (Suc t) = job_after (job_at j evs t) (evs (Suc t))"

text \<open>The runner keeps its discipline: no output and no second exit code after the exit code.\<close>

definition timeline_ok :: "job \<Rightarrow> (nat \<Rightarrow> job_event list) \<Rightarrow> bool" where
  "timeline_ok j evs \<longleftrightarrow>
     run_allowed (j, no_chans) (evs 0) \<and>
     (\<forall>t. run_allowed (job_at j evs t, no_chans) (evs (Suc t)))"

lemma job_after_extends: "run_allowed (j, no_chans) es \<Longrightarrow> job_extends j (job_after j es)"
  using job_run_extends [of "(j, no_chans)" es] by (simp add: job_after_def)

lemma job_after_output: "prefix (output_of is_err j) (output_of is_err (job_after j es))"
  by (simp add: job_after_def output_of_job_run)

lemma job_after_wf: "job_wf j \<Longrightarrow> job_wf (job_after j es)"
  using job_run_wf [of "(j, no_chans)" es] by (simp add: job_after_def)

lemma job_at_extends: "timeline_ok j evs \<Longrightarrow> s \<le> t \<Longrightarrow> job_extends (job_at j evs s) (job_at j evs t)"
proof (induction t)
  case (Suc t)
  have "job_extends (job_at j evs t) (job_at j evs (Suc t))"
    using Suc.prems(1) by (auto simp: timeline_ok_def intro: job_after_extends)
  with Suc show ?case
    by (metis job_extends_refl job_extends_trans le_Suc_eq)
qed simp

text \<open>A timeline that starts on a completed job: nothing a response shows of it changes.\<close>

lemma job_at_frozen:
  assumes "timeline_ok j evs" and "exitCode (job_at j evs 0) \<noteq> None"
  shows "stdout (job_at j evs t) = stdout (job_at j evs 0)" "stderr (job_at j evs t) = stderr (job_at j evs 0)"
    "exitCode (job_at j evs t) = exitCode (job_at j evs 0)"
  using job_at_extends [OF assms(1), of 0 t] assms(2) by (auto simp: job_extends_def)

lemma job_at_extends_start: "timeline_ok j evs \<Longrightarrow> job_extends j (job_at j evs t)"
  using job_at_extends [of j evs 0 t] job_after_extends [of j "evs 0"]
  by (auto simp: timeline_ok_def intro: job_extends_trans)

lemma job_at_wf: "job_wf j \<Longrightarrow> job_wf (job_at j evs t)"
  by (induction t) (auto intro: job_after_wf)

lemma job_event_exit_code: "exitCode (fst s) \<noteq> None \<Longrightarrow> exitCode (fst (job_apply s e)) \<noteq> None"
  by (cases s; cases e) (auto simp: job_defs Let_def)

lemma job_after_exit_code: "exitCode j \<noteq> None \<Longrightarrow> exitCode (job_after j es) \<noteq> None"
proof -
  have "exitCode (fst s) \<noteq> None \<Longrightarrow> exitCode (fst (job_run s es)) \<noteq> None" for s
    by (induction es arbitrary: s) (use job_event_exit_code in auto)
  then show "exitCode j \<noteq> None \<Longrightarrow> ?thesis" by (simp add: job_after_def)
qed

lemma same_identity_trans: "same_identity a b \<Longrightarrow> same_identity b c \<Longrightarrow> same_identity a c"
  by (simp add: same_identity_def)

lemma job_event_identity: "same_identity (fst s) (fst (job_apply s e))"
  by (cases s; cases e) (auto simp: same_identity_def job_defs Let_def)

lemma job_after_identity: "same_identity j (job_after j es)"
proof -
  have "same_identity (fst s) (fst (job_run s es))" for s
  proof (induction es arbitrary: s)
    case Nil
    show ?case by (simp add: same_identity_def)
  next
    case (Cons e es)
    from same_identity_trans [OF job_event_identity Cons.IH] show ?case by simp
  qed
  from this [of "(j, no_chans)"] show ?thesis by (simp add: job_after_def)
qed

lemma job_at_identity: "same_identity j (job_at j evs t)"
  by (induction t) (auto intro: job_after_identity same_identity_trans)

lemma job_at_output:
  "s \<le> t \<Longrightarrow> prefix (output_of is_err (job_at j evs s)) (output_of is_err (job_at j evs t))"
proof (induction t)
  case (Suc t)
  have "prefix (output_of is_err (job_at j evs t)) (output_of is_err (job_at j evs (Suc t)))"
    by (simp add: job_after_output)
  with Suc show ?case by (metis le_Suc_eq prefix_order.order_refl prefix_order.trans)
qed simp

section \<open>Reading a whole stream\<close>

text \<open>
  \<open>allOutput\<close>: read 1024 bytes at a time until a read returns nothing. It does not end
  while the job writes at least as fast as it reads, so not returning is a value of the model.
  The result carries the number of the access that comes after the last read.
\<close>

type_synonym reader = "nat \<Rightarrow> byte list \<Rightarrow> int \<Rightarrow> read_result go"

partial_function (option) allOutput_loop ::
  "reader \<Rightarrow> nat \<Rightarrow> int \<Rightarrow> byte list \<Rightarrow> byte list \<Rightarrow>
     (byte list \<times> go_error option \<times> nat) go option" where
  "allOutput_loop fn t offset buf out =
     (case fn t buf offset of
        Panic \<Rightarrow> Some Panic
      | Block \<Rightarrow> Some Block
      | Ret (n, tot, code, err, buf') \<Rightarrow>
          if n = 0 \<or> err \<noteq> None then Some (Ret (out, err, Suc t))
          else allOutput_loop fn (Suc t) (offset + int n) buf' (out @ take n buf'))"

definition allOutput :: "reader \<Rightarrow> nat \<Rightarrow> (byte list \<times> go_error option \<times> nat) go option" where
  "allOutput fn t = allOutput_loop fn t 0 (replicate 1024 0) []"

text \<open>What the loop needs of the function it is given, and what it then returns.\<close>

locale output_reader =
  fixes fn :: reader
    and content :: "nat \<Rightarrow> byte list"
  assumes read_chunk: "off \<le> length (content t) \<Longrightarrow> b \<noteq> [] \<Longrightarrow>
      \<exists>tot code. fn t b (int off) =
        Ret (length (take (length b) (drop off (content t))), tot, code, None,
             take (length b) (drop off (content t)) @
             drop (length (take (length b) (drop off (content t)))) b)"
    and grows: "prefix (content t) (content (Suc t))"
begin

lemma chunk_cases:
  assumes "off \<le> length (content t)" and "b \<noteq> []" and "c = take (length b) (drop off (content t))"
  shows "c = [] \<longleftrightarrow> off = length (content t)" and "off + length c \<le> length (content t)"
  using assms by (cases b; auto)+

lemma read_step:
  assumes "off \<le> length (content t)" and "b \<noteq> []" and "c = take (length b) (drop off (content t))"
  obtains tot code where "fn t b (int off) = Ret (length c, tot, code, None, c @ drop (length c) b)"
  using read_chunk [OF assms(1,2)] assms(3) by auto

lemma loop_step:
  assumes "off \<le> length (content t)" and "b \<noteq> []" and "c = take (length b) (drop off (content t))"
  shows "allOutput_loop fn t (int off) b out =
    (if off = length (content t) then Some (Ret (out, None, Suc t))
     else allOutput_loop fn (Suc t) (int (off + length c)) (c @ drop (length c) b) (out @ c))"
proof -
  obtain tot code where "fn t b (int off) = Ret (length c, tot, code, None, c @ drop (length c) b)"
    using read_step [OF assms] .
  then show ?thesis
    using chunk_cases(1) [OF assms] by (subst allOutput_loop.simps) simp
qed

lemma content_le: "length (content t) \<le> length (content (Suc t))"
  using grows by (rule prefix_length_le)

lemma next_prefix:
  assumes "off \<le> length (content t)" and "b \<noteq> []" and "c = take (length b) (drop off (content t))"
  shows "take off (content t) @ c = take (off + length c) (content (Suc t))"
proof -
  have "take off (content t) @ c = take (off + length c) (content t)"
    using assms(3) take_drop_chunk [of off "content t" "length b"] by (auto simp: min_def)
  also have "\<dots> = take (off + length c) (content (Suc t))"
    using prefix_take_same [OF grows chunk_cases(2) [OF assms]] by simp
  finally show ?thesis .
qed

text \<open>Total correctness where the stream stays within a bound.\<close>

lemma loop_reads_all:
  assumes "\<forall>t. length (content t) \<le> L"
    and "off \<le> length (content t)" and "b \<noteq> []" and "out = take off (content t)"
  shows "\<exists>t' \<ge> t. allOutput_loop fn t (int off) b out = Some (Ret (content t', None, Suc t'))"
  using assms(2-)
proof (induction "L - off" arbitrary: off t b out rule: less_induct)
  case less
  define c where c: "c = take (length b) (drop off (content t))"
  note step = loop_step [OF less.prems(1,2) c] and ch = chunk_cases [OF less.prems(1,2) c]
  show ?case
  proof (cases "off = length (content t)")
    case True
    with step less.prems(3) show ?thesis by auto
  next
    case False
    with ch(1) have c0: "0 < length c" by simp
    have l: "off + length c \<le> length (content (Suc t))"
      using ch(2) content_le [of t] by linarith
    have "L - (off + length c) < L - off"
      using c0 ch(2) assms(1) [rule_format, of t] by linarith
    then have "\<exists>t' \<ge> Suc t. allOutput_loop fn (Suc t) (int (off + length c)) (c @ drop (length c) b)
        (out @ c) = Some (Ret (content t', None, Suc t'))"
      by (rule less.hyps) (use l c0 next_prefix [OF less.prems(1,2) c] less.prems(3) in auto)
    with False step show ?thesis by (auto intro: Suc_leD)
  qed
qed

text \<open>Partial correctness without the bound.\<close>

definition loop_post :: "reader \<Rightarrow> nat \<Rightarrow> int \<Rightarrow> byte list \<Rightarrow> byte list \<Rightarrow>
    (byte list \<times> go_error option \<times> nat) go \<Rightarrow> bool" where
  "loop_post g t z b out r \<longleftrightarrow>
     (\<forall>off. g = fn \<longrightarrow> z = int off \<longrightarrow> off \<le> length (content t) \<longrightarrow> b \<noteq> [] \<longrightarrow>
        out = take off (content t) \<longrightarrow> (\<exists>t' \<ge> t. r = Ret (content t', None, Suc t')))"

lemma loop_post_step:
  assumes "\<And>g t z b out y. loop g t z b out = Some y \<Longrightarrow> loop_post g t z b out y"
    and "(case g t b z of
        Panic \<Rightarrow> Some Panic
      | Block \<Rightarrow> Some Block
      | Ret (n, tot, code, err, buf') \<Rightarrow>
          if n = 0 \<or> err \<noteq> None then Some (Ret (out, err, Suc t))
          else loop g (Suc t) (z + int n) buf' (out @ take n buf')) = Some y"
  shows "loop_post g t z b out y"
  unfolding loop_post_def
proof (intro allI impI)
  fix off
  assume g: "g = fn" "z = int off" "out = take off (content t)" and o: "off \<le> length (content t)" "b \<noteq> []"
  define c where c: "c = take (length b) (drop off (content t))"
  note ch = chunk_cases [OF o c]
  obtain tot code where r: "g t b z = Ret (length c, tot, code, None, c @ drop (length c) b)"
    using read_step [OF o c] g by auto
  show "\<exists>t' \<ge> t. y = Ret (content t', None, Suc t')"
  proof (cases "off = length (content t)")
    case True
    with assms(2) g r ch(1) show ?thesis by auto
  next
    case False
    with ch(1) have c0: "0 < length c" by simp
    have l: "off + length c \<le> length (content (Suc t))"
      using ch(2) content_le [of t] by linarith
    have "loop g (Suc t) (z + int (length c)) (c @ drop (length c) b) (out @ c) = Some y"
      using assms(2) r c0 by simp
    then have p: "loop_post g (Suc t) (z + int (length c)) (c @ drop (length c) b) (out @ c) y"
      by (rule assms(1))
    have "\<exists>t' \<ge> Suc t. y = Ret (content t', None, Suc t')"
      using p [unfolded loop_post_def, rule_format, of "off + length c"] g l c0 next_prefix [OF o c]
      by auto
    then show ?thesis by (auto intro: Suc_leD)
  qed
qed

lemma loop_partial: "allOutput_loop g t z b out = Some r \<Longrightarrow> loop_post g t z b out r"
  by (rule allOutput_loop.raw_induct [where P = loop_post]) (rule loop_post_step)

lemma allOutput_partial:
  "allOutput fn t = Some r \<Longrightarrow> \<exists>t' \<ge> t. r = Ret (content t', None, Suc t')"
  unfolding allOutput_def using loop_partial [of fn t 0 "replicate 1024 0" "[]" r] by (auto simp: loop_post_def)

lemma allOutput_total:
  "\<forall>t. length (content t) \<le> L \<Longrightarrow> \<exists>t' \<ge> t. allOutput fn t = Some (Ret (content t', None, Suc t'))"
  unfolding allOutput_def using loop_reads_all [of L 0 t "replicate 1024 0" "[]"] by simp

end

text \<open>\<open>job.ReadStdout\<close> and \<open>job.ReadStderr\<close> on a job that goes on meanwhile.\<close>

definition read_fn :: "bool \<Rightarrow> job \<Rightarrow> byte list \<Rightarrow> int \<Rightarrow> read_result go" where
  "read_fn is_err = (if is_err then ReadStderr else ReadStdout)"

lemma read_fn_eq: "read_fn is_err j = readOutput j is_err"
  by (simp add: read_fn_def ReadStdout_def ReadStderr_def fun_eq_iff)

interpretation job_reader: output_reader "\<lambda>t. read_fn is_err (job_at j evs t)"
  "\<lambda>t. output_of is_err (job_at j evs t)" for is_err j evs
proof
  show "prefix (output_of is_err (job_at j evs t)) (output_of is_err (job_at j evs (Suc t)))" for t
    by (simp add: job_after_output)
qed (auto simp: read_fn_eq readOutput_in_range Let_def min.commute min_def)

section \<open>Property\<close>

text \<open>C29: Reading a whole stream while the job goes on: if the stream stays within some bound,
  \<open>allOutput\<close> returns, without error, exactly the stream as it is at its last read, which
  contains everything that was there when it began.\<close>

theorem all_output_reads_whole_stream:
  assumes "\<forall>t. length (output_of is_err (job_at j evs t)) \<le> L"
  shows "\<exists>t' \<ge> t. allOutput (\<lambda>t. read_fn is_err (job_at j evs t)) t =
      Some (Ret (output_of is_err (job_at j evs t'), None, Suc t')) \<and>
    prefix (output_of is_err (job_at j evs t)) (output_of is_err (job_at j evs t'))"
proof -
  obtain t' where t': "t \<le> t'" "allOutput (\<lambda>t. read_fn is_err (job_at j evs t)) t =
      Some (Ret (output_of is_err (job_at j evs t'), None, Suc t'))"
    using job_reader.allOutput_total [OF assms] by blast
  then show ?thesis using job_at_output [OF t'(1)] by blast
qed

theorem all_output_reads_whole_stream_witness:
  "\<exists>t'. allOutput (\<lambda>t. read_fn False (job_at ((newJob 0 [] ''i'' ''c'' [])\<lparr>stdout := [1, 2]\<rparr>) (\<lambda>_. []) t)) 0 =
     Some (Ret ([1, 2], None, Suc t'))"
proof -
  have a: "output_of False (job_at ((newJob 0 [] ''i'' ''c'' [])\<lparr>stdout := [1, 2]\<rparr>) (\<lambda>_. []) t) = [1, 2]" for t
    by (induction t) (simp_all add: job_after_def output_of_def)
  show ?thesis
    using all_output_reads_whole_stream [of False "(newJob 0 [] ''i'' ''c'' [])\<lparr>stdout := [1, 2]\<rparr>" "\<lambda>_. []" 2 0]
    unfolding a by auto
qed

end
