(* ===== verification/Service.thy ===== *)
theory Service
  imports JobReads Worker
begin

text \<open>
  \<open>workergrpc/service.go\<close> without the output stream: the namespace taken from the peer's
  certificate, the handlers of GetJob, SubmitJob and StopJob, the validation of a submission and
  the conversion of a job to its message. The constructor of the timestamp message,
  \<open>timestamppb.New\<close>, is the parameter \<open>ts_new\<close>. A handler's result is \<open>None\<close> when
  it reads output for ever.
\<close>

section \<open>Requests\<close>

text \<open>
  What \<open>namespaceFromContext\<close> looks at: the peer, whether its authentication is TLS, and
  the organizational units of the certificates it presented, leaf first.
\<close>

datatype auth_info = TLSInfo "string list list" | OtherAuthInfo

record rpc_ctx =
  ctx_peer :: "auth_info option option"

definition namespaceFromContext :: "rpc_ctx \<Rightarrow> (go_error + string) go" where
  "namespaceFromContext ctx =
     (let missing = Ret (Inl (Status Unauthenticated ''missing client certificate'')) in
      case ctx_peer ctx of
        Some (Some (TLSInfo certs)) \<Rightarrow>
          (case certs of
             [] \<Rightarrow> Panic
           | ous # _ \<Rightarrow> Ret (Inr (case ous of [] \<Rightarrow> [] | ou # _ \<Rightarrow> ou)))
      | _ \<Rightarrow> missing)"

definition getJob :: "rpc_ctx \<Rightarrow> string \<Rightarrow> worker \<Rightarrow> ((go_error + nat) \<times> worker) go" where
  "getJob ctx i w =
     (if i = [] then Ret (Inl (Status InvalidArgument ''job ID required''), w)
      else go_bind (namespaceFromContext ctx) (\<lambda>r. case r of
          Inl e \<Rightarrow> Ret (Inl e, w)
        | Inr ns \<Rightarrow> go_bind (worker_GetJob w ns i) (\<lambda>((err, p), w').
            if err = Some ErrShutdown
            then Ret (Inl (Status FailedPrecondition ''worker shutdown''), w')
            else case err of
                Some e \<Rightarrow> Ret (Inl e, w')
              | None \<Rightarrow> (case p of
                    None \<Rightarrow> Ret (Inl (Status NotFound ''not found''), w')
                  | Some q \<Rightarrow> Ret (Inr q, w')))))"

section \<open>Conversion\<close>

text \<open>Sequencing of computations that may panic, block or go on for ever.\<close>

definition run_bind :: "'a go option \<Rightarrow> ('a \<Rightarrow> 'b go option) \<Rightarrow> 'b go option" where
  "run_bind m f =
     (case m of
        None \<Rightarrow> None
      | Some Panic \<Rightarrow> Some Panic
      | Some Block \<Rightarrow> Some Block
      | Some (Ret x) \<Rightarrow> f x)"

lemma run_bind_simps [simp]:
  "run_bind None f = None" "run_bind (Some Panic) f = Some Panic"
  "run_bind (Some Block) f = Some Block" "run_bind (Some (Ret x)) f = f x"
  by (simp_all add: run_bind_def)

lemma run_bind_eq_Ret:
  "run_bind m f = Some (Ret y) \<longleftrightarrow> (\<exists>x. m = Some (Ret x) \<and> f x = Some (Ret y))"
  by (auto simp: run_bind_def split: option.splits go.splits)

definition optional_output ::
  "bool \<Rightarrow> reader \<Rightarrow> nat \<Rightarrow> (byte list \<times> go_error option \<times> nat) go option" where
  "optional_output wanted fn t = (if wanted then allOutput fn t else Some (Ret ([], None, t)))"

text \<open>
  \<open>toProtoJob\<close>, from the access numbered \<open>t\<close> on. The exit code is read first. The
  fields read at that access are never written after the job was started.
\<close>

definition toProtoJob ::
  "(int \<Rightarrow> 'ts) \<Rightarrow> (nat \<Rightarrow> job) \<Rightarrow> nat \<Rightarrow> bool \<Rightarrow> bool \<Rightarrow> (go_error + 'ts pb_Job) go option" where
  "toProtoJob ts_new h t includeStdout includeStderr =
     (let j = h t;
          pb = \<lparr>pb_Id = ID j, pb_Command = Command j # Args j, pb_RootFs = RootFS j,
                pb_CreatedAt = Some (ts_new (CreatedAt j)), pb_Pid = word_of_int (PID j),
                pb_Stdout = [], pb_Stderr = [],
                pb_ExitCode = map_option word_of_int (ExitCode j)\<rparr> in
      run_bind (optional_output includeStdout (\<lambda>t. read_fn False (h t)) (Suc t)) (\<lambda>(out, err, t1).
        case err of
          Some e \<Rightarrow> Some (Ret (Inl (Wrapf ''reading stdout'' e)))
        | None \<Rightarrow>
            run_bind (optional_output includeStderr (\<lambda>t. read_fn True (h t)) t1) (\<lambda>(out', err', t2).
              case err' of
                Some e \<Rightarrow> Some (Ret (Inl (Wrapf ''reading stderr'' e)))
              | None \<Rightarrow> Some (Ret (Inr (pb\<lparr>pb_Stdout := out, pb_Stderr := out'\<rparr>))))))"

section \<open>Handlers\<close>

text \<open>\<open>jobService.GetJob\<close>; \<open>evs\<close> are the events of the job it finds while it reads it.\<close>

definition service_GetJob ::
  "(int \<Rightarrow> 'ts) \<Rightarrow> (nat \<Rightarrow> job_event list) \<Rightarrow> rpc_ctx \<Rightarrow> GetJobRequest \<Rightarrow> worker \<Rightarrow>
     ((go_error + 'ts pb_Job) \<times> worker) go option" where
  "service_GetJob ts_new evs ctx req w =
     run_bind (Some (getJob ctx (get_JobId req) w)) (\<lambda>(r, w'). case r of
         Inl e \<Rightarrow> Some (Ret (Inl e, w'))
       | Inr p \<Rightarrow>
           run_bind (toProtoJob ts_new (job_at (heap w' ! p) evs) 0
               (get_IncludeStdout req) (get_IncludeStderr req))
             (\<lambda>pb. Some (Ret (pb, w'))))"

text \<open>A nil job in the request is dereferenced.\<close>

definition validateSubmitJobRequest :: "'ts SubmitJobRequest \<Rightarrow> go_error option go" where
  "validateSubmitJobRequest req =
     (case submit_Job req of
        None \<Rightarrow> Panic
      | Some j \<Rightarrow> Ret (
          if pb_Command j = [] then Some (Status InvalidArgument ''at least one command value required'')
          else if pb_CreatedAt j \<noteq> None
          then Some (Status InvalidArgument ''created at cannot be present on create'')
          else if pb_Pid j \<noteq> 0 then Some (Status InvalidArgument ''PID cannot be present on create'')
          else if pb_Stdout j \<noteq> [] then Some (Status InvalidArgument ''stdout cannot be present on create'')
          else if pb_Stderr j \<noteq> [] then Some (Status InvalidArgument ''stderr cannot be present on create'')
          else if pb_ExitCode j \<noteq> None
          then Some (Status InvalidArgument ''exit code cannot be present on create'')
          else None))"

definition submit_status :: "go_error \<Rightarrow> go_error" where
  "submit_status e =
     (if e = ErrShutdown then Status FailedPrecondition ''worker shutdown''
      else if e = ErrIDAlreadyExists then Status AlreadyExists ''job with ID already exists''
      else e)"

text \<open>\<open>SubmitJob\<close> once the request is valid and the namespace known.\<close>

definition submit_request ::
  "(int \<Rightarrow> 'ts) \<Rightarrow> env \<Rightarrow> (nat \<Rightarrow> job_event list) \<Rightarrow> string \<Rightarrow> 'ts pb_Job \<Rightarrow> worker \<Rightarrow>
     ((go_error + 'ts pb_Job) \<times> worker) go option" where
  "submit_request ts_new env evs ns j w =
     (case pb_Command j of
        [] \<Rightarrow> Some Panic
      | command # args \<Rightarrow>
          run_bind (Some (worker_SubmitJob env w ns (pb_Id j) command args
              (if pb_RootFs j \<noteq> [] then map WithRootFS [pb_RootFs j] else map WithRootFS [])))
            (\<lambda>((err, p), w'). case err of
                Some e \<Rightarrow> Some (Ret (Inl (submit_status e), w'))
              | None \<Rightarrow> (case p of
                    None \<Rightarrow> Some Panic
                  | Some q \<Rightarrow>
                      run_bind (toProtoJob ts_new (job_at (heap w' ! q) evs) 0 False False)
                        (\<lambda>pb. Some (Ret (pb, w'))))))"

definition service_SubmitJob ::
  "(int \<Rightarrow> 'ts) \<Rightarrow> env \<Rightarrow> (nat \<Rightarrow> job_event list) \<Rightarrow> rpc_ctx \<Rightarrow> 'ts SubmitJobRequest \<Rightarrow> worker \<Rightarrow>
     ((go_error + 'ts pb_Job) \<times> worker) go option" where
  "service_SubmitJob ts_new env evs ctx req w =
     run_bind (Some (validateSubmitJobRequest req)) (\<lambda>err. case err of
         Some e \<Rightarrow> Some (Ret (Inl e, w))
       | None \<Rightarrow> run_bind (Some (namespaceFromContext ctx)) (\<lambda>r. case r of
             Inl e \<Rightarrow> Some (Ret (Inl e, w))
           | Inr ns \<Rightarrow> (case submit_Job req of
                 None \<Rightarrow> Some Panic
               | Some j \<Rightarrow> submit_request ts_new env evs ns j w)))"

definition stop_status :: "go_error \<Rightarrow> go_error" where
  "stop_status e =
     (if e = CtxDeadlineExceeded
      then Status StatusDeadlineExceeded ''failed stopping job within 3 seconds'' else e)"

text \<open>
  \<open>jobService.StopJob\<close>: \<open>es0\<close> happens to the job before its exit code is looked at,
  \<open>es1\<close> before the stop is requested, \<open>es2\<close> before the select of \<open>Stop\<close> fires. The
  worker in the result carries the handler's own effect, the request.
\<close>

definition service_StopJob ::
  "(int \<Rightarrow> 'ts) \<Rightarrow> job_event list \<Rightarrow> job_event list \<Rightarrow> job_event list \<Rightarrow> (nat \<Rightarrow> job_event list) \<Rightarrow>
     go_error option \<Rightarrow> bool \<Rightarrow> rpc_ctx \<Rightarrow> StopJobRequest \<Rightarrow> worker \<Rightarrow>
     ((go_error + 'ts pb_Job) \<times> worker) go option" where
  "service_StopJob ts_new es0 es1 es2 evs ctx_err prefer_ctx ctx req w =
     run_bind (Some (getJob ctx (stop_JobId req) w)) (\<lambda>(r, w'). case r of
         Inl e \<Rightarrow> Some (Ret (Inl e, w'))
       | Inr p \<Rightarrow>
           let j0 = job_after (heap w' ! p) es0 in
           if ExitCode j0 \<noteq> None
           then Some (Ret (Inl (Status FailedPrecondition ''job already stopped''), w'))
           else
             let w2 = w'\<lparr>heap := (heap w')[p := Stop_request (stop_Force req) (heap w' ! p)]\<rparr>;
                 j2 = job_after (Stop_request (stop_Force req) (job_after j0 es1)) es2 in
             run_bind (Some (Stop_wait ctx_err prefer_ctx j2)) (\<lambda>(code, err). case err of
                 Some e \<Rightarrow> Some (Ret (Inl (stop_status e), w2))
               | None \<Rightarrow> run_bind (toProtoJob ts_new (job_at j2 evs) 0 False False)
                           (\<lambda>pb. Some (Ret (pb, w2)))))"

section \<open>Facts about the pieces\<close>

lemma optional_output_partial:
  assumes "optional_output wanted (\<lambda>t. read_fn is_err (job_at j evs t)) t = Some r"
  shows "\<exists>t' t''. t \<le> t' \<and> t \<le> t'' \<and>
    r = Ret (if wanted then output_of is_err (job_at j evs t') else [], None, t'')"
proof (cases wanted)
  case True
  with assms job_reader.allOutput_partial [of is_err j evs t r] show ?thesis
    by (auto simp: optional_output_def intro: le_SucI)
next
  case False
  with assms show ?thesis by (auto simp: optional_output_def)
qed

lemma toProtoJob_partial:
  assumes "toProtoJob ts_new (job_at j evs) t out err = Some r"
  shows "\<exists>t1 t2. t \<le> t1 \<and> t \<le> t2 \<and> r = Ret (Inr
      \<lparr>pb_Id = ID j, pb_Command = Command j # Args j, pb_RootFs = RootFS j,
       pb_CreatedAt = Some (ts_new (CreatedAt j)), pb_Pid = word_of_int (PID j),
       pb_Stdout = (if out then stdout (job_at j evs t1) else []),
       pb_Stderr = (if err then stderr (job_at j evs t2) else []),
       pb_ExitCode = map_option word_of_int (exitCode (job_at j evs t))\<rparr>)"
proof -
  let ?o = "optional_output out (\<lambda>t. read_fn False (job_at j evs t)) (Suc t)"
  from assms obtain r1 where r1: "?o = Some r1"
    by (cases ?o) (auto simp: toProtoJob_def Let_def)
  from optional_output_partial [OF r1] obtain t1 s1 where 1: "Suc t \<le> t1" "Suc t \<le> s1"
    "r1 = Ret (if out then output_of False (job_at j evs t1) else [], None, s1)" by blast
  let ?e = "optional_output err (\<lambda>t. read_fn True (job_at j evs t)) s1"
  from assms r1 1 obtain r2 where r2: "?e = Some r2"
    by (cases ?e) (auto simp: toProtoJob_def Let_def)
  from optional_output_partial [OF r2] obtain t2 s2 where 2: "s1 \<le> t2"
    "r2 = Ret (if err then output_of True (job_at j evs t2) else [], None, s2)" by blast
  have "t \<le> t1" "t \<le> t2" using 1 2 by simp_all
  moreover have "same_identity j (job_at j evs t)" by (rule job_at_identity)
  ultimately show ?thesis
    using assms r1 1 r2 2
    by (intro exI [of _ t1] exI [of _ t2])
      (auto simp: toProtoJob_def Let_def output_of_def ExitCode_def same_identity_def)
qed

lemma toProtoJob_no_output:
  "\<exists>pb. toProtoJob ts_new h t False False = Some (Ret (Inr pb)) \<and>
     pb_ExitCode pb = map_option word_of_int (exitCode (h t)) \<and> pb_Stdout pb = [] \<and> pb_Stderr pb = [] \<and>
     pb_Id pb = ID (h t) \<and> pb_Command pb = Command (h t) # Args (h t) \<and> pb_RootFs pb = RootFS (h t)"
  by (simp add: toProtoJob_def optional_output_def Let_def ExitCode_def)

lemma namespace_cases:
  "\<forall>certs. ctx_peer ctx \<noteq> Some (Some (TLSInfo certs)) \<Longrightarrow>
     namespaceFromContext ctx = Ret (Inl (Status Unauthenticated ''missing client certificate''))"
  "ctx_peer ctx = Some (Some (TLSInfo [])) \<Longrightarrow> namespaceFromContext ctx = Panic"
  "ctx_peer ctx = Some (Some (TLSInfo (ous # chain))) \<Longrightarrow>
     namespaceFromContext ctx = Ret (Inr (if ous = [] then [] else hd ous))"
  by (auto simp: namespaceFromContext_def Let_def split: option.splits auth_info.splits list.splits)

text \<open>\<open>getJob\<close> on a healthy worker.\<close>

definition found_job :: "worker \<Rightarrow> string \<Rightarrow> string \<Rightarrow> go_error + nat" where
  "found_job w ns i =
     (if shutdown w then Inl (Status FailedPrecondition ''worker shutdown'')
      else case lookup_job w ns i of None \<Rightarrow> Inl (Status NotFound ''not found'') | Some p \<Rightarrow> Inr p)"

lemma getJob_eq:
  assumes "worker_inv w"
  shows "getJob ctx i w =
    (if i = [] then Ret (Inl (Status InvalidArgument ''job ID required''), w)
     else go_bind (namespaceFromContext ctx) (\<lambda>r. case r of
        Inl e \<Rightarrow> Ret (Inl e, w)
      | Inr ns \<Rightarrow> Ret (found_job w ns i,
          w\<lparr>shutdownLock := (shutdownLock w)\<lparr>readers := readers (shutdownLock w) + 2\<rparr>\<rparr>)))"
  using get_job_result [OF assms]
  by (cases "namespaceFromContext ctx")
    (auto simp: getJob_def found_job_def split: sum.splits option.splits)

lemma getJob_cases:
  assumes "worker_inv w" and "getJob ctx i w = Ret (r, w')"
  obtains (early) e where "r = Inl e" "w' = w"
      "i = [] \<and> e = Status InvalidArgument ''job ID required'' \<or> namespaceFromContext ctx = Ret (Inl e)"
  | (asked) ns where "i \<noteq> []" "namespaceFromContext ctx = Ret (Inr ns)" "r = found_job w ns i"
      "w' = w\<lparr>shutdownLock := (shutdownLock w)\<lparr>readers := readers (shutdownLock w) + 2\<rparr>\<rparr>"
proof (cases "i = []")
  case True
  with assms early show thesis by (auto simp: getJob_eq)
next
  case False
  with assms obtain x where x: "namespaceFromContext ctx = Ret x"
    by (auto simp: getJob_eq go_bind_eq_Ret)
  show thesis
  proof (cases x)
    case (Inl e)
    with False assms x show thesis by (intro early [of e]) (auto simp: getJob_eq)
  next
    case (Inr ns)
    with False assms x show thesis by (intro asked [of ns]) (auto simp: getJob_eq)
  qed
qed

lemma worker_inv_readers:
  "worker_inv w \<Longrightarrow> worker_inv (w\<lparr>shutdownLock := (shutdownLock w)\<lparr>readers := n\<rparr>\<rparr>)"
  by (simp add: worker_inv_def entry_ok_def)

lemma getJob_same:
  assumes "worker_inv w" and "getJob ctx i w = Ret (r, w')"
  shows "heap w' = heap w" "job_entry w' = job_entry w" "shutdown w' = shutdown w" "worker_inv w'"
proof -
  have "heap w' = heap w \<and> job_entry w' = job_entry w \<and> shutdown w' = shutdown w \<and> worker_inv w'"
    by (rule getJob_cases [OF assms]) (simp_all add: assms(1) worker_inv_readers)
  then show "heap w' = heap w" "job_entry w' = job_entry w" "shutdown w' = shutdown w" "worker_inv w'"
    by simp_all
qed

lemma getJob_found:
  assumes "worker_inv w" and "getJob ctx i w = Ret (Inr p, w')"
  obtains ns where "namespaceFromContext ctx = Ret (Inr ns)" "lookup_job w ns i = Some p"
    "p < length (heap w)" "Namespace (heap w ! p) = ns" "ID (heap w ! p) = i" "job_wf (heap w ! p)"
    "i \<noteq> []" "\<not> shutdown w"
proof (cases rule: getJob_cases [OF assms, consumes 0, case_names early asked])
  case (asked ns)
  then have l: "lookup_job w ns i = Some p" "\<not> shutdown w"
    by (auto simp: found_job_def split: if_splits option.splits)
  then have "entry_ok w ns i (Some p)"
    using worker_inv_entry [OF assms(1), of ns i] by (auto simp: lookup_job_def split: option.splits)
  with l asked show thesis by (intro that) (auto simp: entry_ok_def)
qed simp

text \<open>The handlers, taken apart.\<close>

lemma service_GetJob_Ret:
  assumes "worker_inv w" and "service_GetJob ts_new evs ctx req w = Some (Ret (Inr pb, w'))"
  obtains ns p t1 t2 where "namespaceFromContext ctx = Ret (Inr ns)"
    "lookup_job w ns (get_JobId req) = Some p" "p < length (heap w)" "Namespace (heap w ! p) = ns"
    "ID (heap w ! p) = get_JobId req"
    "pb = \<lparr>pb_Id = ID (heap w ! p), pb_Command = Command (heap w ! p) # Args (heap w ! p),
       pb_RootFs = RootFS (heap w ! p), pb_CreatedAt = Some (ts_new (CreatedAt (heap w ! p))),
       pb_Pid = word_of_int (PID (heap w ! p)),
       pb_Stdout = (if get_IncludeStdout req then stdout (job_at (heap w ! p) evs t1) else []),
       pb_Stderr = (if get_IncludeStderr req then stderr (job_at (heap w ! p) evs t2) else []),
       pb_ExitCode = map_option word_of_int (exitCode (job_at (heap w ! p) evs 0))\<rparr>"
proof -
  from assms(2) obtain q w1 where q: "getJob ctx (get_JobId req) w = Ret (q, w1)"
    by (auto simp: service_GetJob_def run_bind_eq_Ret)
  with assms(2) obtain p where g: "getJob ctx (get_JobId req) w = Ret (Inr p, w1)"
    and r: "toProtoJob ts_new (job_at (heap w1 ! p) evs) 0 (get_IncludeStdout req) (get_IncludeStderr req) =
        Some (Ret (Inr pb))"
    by (cases q) (auto simp: service_GetJob_def run_bind_eq_Ret)
  from toProtoJob_partial [OF r [unfolded getJob_same(1) [OF assms(1) g]]] obtain t1 t2 where "pb =
      \<lparr>pb_Id = ID (heap w ! p), pb_Command = Command (heap w ! p) # Args (heap w ! p),
       pb_RootFs = RootFS (heap w ! p), pb_CreatedAt = Some (ts_new (CreatedAt (heap w ! p))),
       pb_Pid = word_of_int (PID (heap w ! p)),
       pb_Stdout = (if get_IncludeStdout req then stdout (job_at (heap w ! p) evs t1) else []),
       pb_Stderr = (if get_IncludeStderr req then stderr (job_at (heap w ! p) evs t2) else []),
       pb_ExitCode = map_option word_of_int (exitCode (job_at (heap w ! p) evs 0))\<rparr>"
    by blast
  with getJob_found [OF assms(1) g] that show thesis by metis
qed

lemma service_StopJob_heap:
  assumes "worker_inv w"
    and "service_StopJob ts_new es0 es1 es2 evs ctx_err prefer_ctx ctx req w = Some (Ret (r, w'))"
  shows "heap w' = heap w \<or>
    (\<exists>ns p. namespaceFromContext ctx = Ret (Inr ns) \<and> lookup_job w ns (stop_JobId req) = Some p \<and>
       Namespace (heap w ! p) = ns \<and>
       heap w' = (heap w)[p := Stop_request (stop_Force req) (heap w ! p)])"
proof -
  from assms(2) obtain q w1 where g: "getJob ctx (stop_JobId req) w = Ret (q, w1)"
    by (auto simp: service_StopJob_def run_bind_eq_Ret)
  note same = getJob_same(1) [OF assms(1) g]
  show ?thesis
  proof (cases q)
    case (Inl e)
    with assms(2) g same show ?thesis by (simp add: service_StopJob_def)
  next
    case (Inr p)
    with assms(2) g same have "heap w' = heap w \<or>
        heap w' = (heap w)[p := Stop_request (stop_Force req) (heap w ! p)]"
      by (auto simp: service_StopJob_def run_bind_eq_Ret Let_def split: if_splits option.splits)
    with getJob_found [OF assms(1) g [unfolded Inr]] show ?thesis by metis
  qed
qed

definition roots_of :: "'ts pb_Job \<Rightarrow> string list" where
  "roots_of j = (if pb_RootFs j \<noteq> [] then [pb_RootFs j] else [])"

lemma submit_request_Ret:
  assumes "submit_request ts_new env evs ns j w = Some (Ret (r, w'))"
  obtains command args err p where "pb_Command j = command # args"
    "worker_SubmitJob env w ns (pb_Id j) command args (map WithRootFS (roots_of j)) = Ret ((err, p), w')"
    "case err of Some e \<Rightarrow> r = Inl (submit_status e)
     | None \<Rightarrow> \<exists>q. p = Some q \<and> toProtoJob ts_new (job_at (heap w' ! q) evs) 0 False False = Some (Ret r)"
proof (cases "pb_Command j")
  case Nil
  with assms show thesis by (simp add: submit_request_def)
next
  case (Cons command args)
  have opts: "(if pb_RootFs j \<noteq> [] then map WithRootFS [pb_RootFs j] else map WithRootFS []) =
      map WithRootFS (roots_of j)"
    by (simp add: roots_of_def)
  from assms Cons obtain err p w1 where sub:
    "worker_SubmitJob env w ns (pb_Id j) command args (map WithRootFS (roots_of j)) = Ret ((err, p), w1)"
    unfolding submit_request_def opts by (auto simp: run_bind_eq_Ret)
  show thesis
  proof (cases err)
    case (Some e)
    with assms Cons sub show thesis
      by (intro that [OF Cons, of err p]) (auto simp: submit_request_def opts)
  next
    case None
    with assms Cons sub obtain q where q: "p = Some q"
      unfolding submit_request_def opts by (cases p) auto
    with assms Cons sub None show thesis
      unfolding submit_request_def opts
      by (intro that [OF Cons, of err p]) (auto simp: run_bind_eq_Ret)
  qed
qed

lemma service_SubmitJob_Ret:
  assumes "service_SubmitJob ts_new env evs ctx req w = Some (Ret (r, w'))"
  obtains (early) e where "r = Inl e" "w' = w"
      "validateSubmitJobRequest req = Ret (Some e) \<or> namespaceFromContext ctx = Ret (Inl e)"
  | (sent) ns j where "validateSubmitJobRequest req = Ret None" "submit_Job req = Some j"
      "namespaceFromContext ctx = Ret (Inr ns)"
      "submit_request ts_new env evs ns j w = Some (Ret (r, w'))"
proof -
  from assms obtain err where v: "validateSubmitJobRequest req = Ret err"
    by (auto simp: service_SubmitJob_def run_bind_eq_Ret)
  show thesis
  proof (cases err)
    case (Some e)
    with assms v early show thesis by (auto simp: service_SubmitJob_def)
  next
    case None
    with assms v obtain n where n: "namespaceFromContext ctx = Ret n"
      by (auto simp: service_SubmitJob_def run_bind_eq_Ret)
    from v obtain j where j: "submit_Job req = Some j"
      by (auto simp: validateSubmitJobRequest_def split: option.splits)
    from assms v None n j early sent show thesis
      by (cases n) (auto simp: service_SubmitJob_def)
  qed
qed

lemma submit_keeps_others:
  assumes "worker_inv w" and "env_uuid env \<noteq> []"
    and "service_SubmitJob ts_new env evs ctx req w = Some (Ret (r, w'))"
    and "namespaceFromContext ctx = Ret (Inr ns)"
  shows "(\<forall>n k. n \<noteq> ns \<longrightarrow> lookup_job w' n k = lookup_job w n k) \<and>
    take (length (heap w)) (heap w') = heap w"
proof (rule service_SubmitJob_Ret [OF assms(3)])
  fix ns' j
  assume n: "namespaceFromContext ctx = Ret (Inr ns')"
    and sub: "submit_request ts_new env evs ns' j w = Some (Ret (r, w'))"
  show ?thesis
  proof (rule submit_request_Ret [OF sub])
    fix command args err p
    assume s: "worker_SubmitJob env w ns' (pb_Id j) command args (map WithRootFS (roots_of j)) =
        Ret ((err, p), w')"
      and post: "case err of Some e \<Rightarrow> r = Inl (submit_status e)
         | None \<Rightarrow> \<exists>q. p = Some q \<and> toProtoJob ts_new (job_at (heap w' ! q) evs) 0 False False = Some (Ret r)"
    from n assms(4) have "ns' = ns" by simp
    show ?thesis
    proof (cases err)
      case (Some e)
      with failed_submit_effect [OF assms(1) s [unfolded Some] refl] show ?thesis
        by (simp add: lookup_job_def)
    next
      case None
      with post obtain q where q: "p = Some q" by auto
      from submit_effect [OF assms(1,2) s [unfolded None q] refl] \<open>ns' = ns\<close> show ?thesis
        by (auto simp: lookup_job_def)
    qed
  qed
qed simp

text \<open>What a valid submission does, whichever request brought it.\<close>

lemma submit_request_effect:
  assumes "worker_inv w" and "env_uuid env \<noteq> []"
    and "submit_request ts_new env evs ns j w = Some (Ret (r, w'))"
    and "i = (if pb_Id j = [] then env_uuid env else pb_Id j)"
  shows "case r of
      Inr pb \<Rightarrow> job_entry w ns i = None \<and> \<not> shutdown w \<and>
        (\<exists>p. lookup_job w' ns i = Some p \<and> Namespace (heap w' ! p) = ns \<and> ID (heap w' ! p) = i \<and>
           Command (heap w' ! p) # Args (heap w' ! p) = pb_Command j) \<and>
        pb_Id pb = i \<and> pb_Command pb = pb_Command j \<and> pb_Stdout pb = [] \<and> pb_Stderr pb = [] \<and>
        pb_RootFs pb = pb_RootFs j
    | Inl e \<Rightarrow> job_entry w' = job_entry w \<and> heap w' = heap w \<and>
        (shutdown w \<longrightarrow> e = Status FailedPrecondition ''worker shutdown'') \<and>
        (\<not> shutdown w \<longrightarrow> job_entry w ns i \<noteq> None \<longrightarrow>
           e = Status AlreadyExists ''job with ID already exists'') \<and>
        (\<forall>m. e \<noteq> Status InvalidArgument m)"
proof (rule submit_request_Ret [OF assms(3)])
  fix command args err p
  assume c: "pb_Command j = command # args"
    and s: "worker_SubmitJob env w ns (pb_Id j) command args (map WithRootFS (roots_of j)) =
      Ret ((err, p), w')"
    and post: "case err of Some e \<Rightarrow> r = Inl (submit_status e)
       | None \<Rightarrow> \<exists>q. p = Some q \<and> toProtoJob ts_new (job_at (heap w' ! q) evs) 0 False False = Some (Ret r)"
  show ?thesis
  proof (cases err)
    case (Some e)
    with failed_submit_effect [OF assms(1) s [unfolded Some] assms(4)] post
      submit_error [OF assms(1) s [unfolded Some]] show ?thesis
      by (auto simp: submit_status_def)
  next
    case None
    with post obtain q where q: "p = Some q"
      and t: "toProtoJob ts_new (job_at (heap w' ! q) evs) 0 False False = Some (Ret r)" by auto
    have "\<not> shutdown w"
      using submit_shutdown [OF assms(1)] s None by (cases "shutdown w") simp_all
    moreover have "RootFS (heap w' ! q) = pb_RootFs j"
      using submit_root [OF assms(1) s [unfolded None q]] by (simp add: roots_of_def split: if_splits)
    ultimately show ?thesis
      using submit_effect [OF assms(1,2) s [unfolded None q] assms(4)] toProtoJob_partial [OF t] c
      by (elim exE conjE) (simp add: job_after_identity)
  qed
qed

lemma job_wf_stop: "job_wf j \<Longrightarrow> job_wf (Stop_request force j)"
  by (simp add: job_wf_def job_defs)

lemma Stop_wait_wf:
  "job_wf j \<Longrightarrow> Stop_wait ctx_err prefer_ctx j =
    (if doneCtx j \<and> (ctx_err = None \<or> \<not> prefer_ctx) then Ret (the (exitCode j), None)
     else case ctx_err of None \<Rightarrow> Block | Some e \<Rightarrow> Ret (0, Some e))"
  by (auto simp: Stop_wait_def job_wf_def ExitCode_def split: option.splits)

lemma service_StopJob_running:
  assumes "worker_inv w" and "getJob ctx (stop_JobId req) w = Ret (Inr p, w1)"
    and "exitCode (job_after (heap w ! p) es0) = None"
    and "service_StopJob ts_new es0 es1 es2 evs ctx_err prefer_ctx ctx req w = Some res"
  shows "res = Block \<or> (\<exists>w'. heap w' = (heap w)[p := Stop_request (stop_Force req) (heap w ! p)] \<and>
    ((\<exists>pb. res = Ret (Inr pb, w') \<and> pb_ExitCode pb \<noteq> None \<and> pb_Id pb = stop_JobId req \<and>
        pb_Stdout pb = [] \<and> pb_Stderr pb = []) \<or>
     (\<exists>e. res = Ret (Inl (stop_status e), w') \<and> ctx_err = Some e)))"
proof -
  note same = getJob_same(1) [OF assms(1,2)]
  define j2 where j2: "j2 = job_after (Stop_request (stop_Force req)
      (job_after (job_after (heap w ! p) es0) es1)) es2"
  define w2 where w2: "w2 = w1\<lparr>heap := (heap w)[p := Stop_request (stop_Force req) (heap w ! p)]\<rparr>"
  have wf: "job_wf (heap w ! p)" and i: "ID (heap w ! p) = stop_JobId req"
    using getJob_found [OF assms(1,2)] by blast+
  from wf have wf2: "job_wf j2"
    unfolding j2 by (intro job_after_wf job_wf_stop)
  have "same_identity (heap w ! p) (Stop_request (stop_Force req) (job_after (job_after (heap w ! p) es0) es1))"
    by (rule same_identity_trans [OF job_after_identity same_identity_trans [OF job_after_identity]])
      (simp add: same_identity_def job_defs)
  then have id2: "same_identity (heap w ! p) (job_at j2 evs 0)"
    unfolding j2 by (metis same_identity_trans job_after_identity job_at_identity)
  have run: "service_StopJob ts_new es0 es1 es2 evs ctx_err prefer_ctx ctx req w =
      run_bind (Some (Stop_wait ctx_err prefer_ctx j2)) (\<lambda>(code, err). case err of
         Some e \<Rightarrow> Some (Ret (Inl (stop_status e), w2))
       | None \<Rightarrow> run_bind (toProtoJob ts_new (job_at j2 evs) 0 False False)
                   (\<lambda>pb. Some (Ret (pb, w2))))"
    unfolding j2 w2 using assms(2,3) same by (simp add: service_StopJob_def ExitCode_def Let_def)
  show ?thesis
  proof (cases "doneCtx j2 \<and> (ctx_err = None \<or> \<not> prefer_ctx)")
    case True
    then have "exitCode (job_at j2 evs 0) \<noteq> None"
      using wf2 by (simp add: job_wf_def job_after_exit_code)
    with toProtoJob_no_output [of ts_new "job_at j2 evs" 0] True run assms(4) id2 i
    show ?thesis
      by (intro disjI2 exI [of _ w2]) (auto simp: Stop_wait_wf [OF wf2] w2 same_identity_def)
  next
    case False
    have "heap w2 = (heap w)[p := Stop_request (stop_Force req) (heap w ! p)]" by (simp add: w2)
    with False run assms(4) show ?thesis
      by (cases ctx_err) (auto simp: Stop_wait_wf [OF wf2])
  qed
qed

abbreviation service_worker :: worker where
  "service_worker \<equiv> \<lparr>runner_of = ExecRunner, hasLimits = False,
     jobs = Some [(''ns'', [(''i'', Some 0)])], shutdown = False, shutdownLock = unlocked_mutex,
     heap = [newJob 0 ''ns'' ''i'' ''echo'' [''hi'']]\<rparr>"

abbreviation service_ctx :: rpc_ctx where
  "service_ctx \<equiv> \<lparr>ctx_peer = Some (Some (TLSInfo [[''ns'']]))\<rparr>"

lemma service_worker_inv: "worker_inv service_worker"
  by (auto simp: worker_inv_def table_wf_def gomap_wf_def job_entry_def entry_ok_def newJob_def
      job_wf_def listener_list_def unlocked_mutex_def split: if_splits)

section \<open>Properties\<close>

text \<open>C15: A request only reaches the namespace its certificate names. GetJob answers with the job
  stored under that namespace and the asked ID; StopJob changes no job of another namespace;
  SubmitJob changes no entry of another namespace and no existing job.\<close>

theorem requests_stay_in_namespace:
  assumes "worker_inv w" and "namespaceFromContext ctx = Ret (Inr ns)" and "env_uuid env \<noteq> []"
  shows "(service_GetJob ts_new evs ctx greq w = Some (Ret (Inr pb, w1)) \<longrightarrow>
      (\<exists>p. lookup_job w ns (get_JobId greq) = Some p \<and> Namespace (heap w ! p) = ns \<and>
         pb_Id pb = get_JobId greq \<and> pb_Command pb = Command (heap w ! p) # Args (heap w ! p))) \<and>
    (service_StopJob ts_new es0 es1 es2 evs ctx_err prefer_ctx ctx sreq w = Some (Ret (r, w2)) \<longrightarrow>
      (\<forall>p. Namespace (heap w ! p) \<noteq> ns \<longrightarrow> heap w2 ! p = heap w ! p)) \<and>
    (service_SubmitJob ts_new env evs ctx req w = Some (Ret (r', w3)) \<longrightarrow>
      (\<forall>n k. n \<noteq> ns \<longrightarrow> lookup_job w3 n k = lookup_job w n k) \<and>
      take (length (heap w)) (heap w3) = heap w)"
proof (intro conjI impI)
  assume "service_GetJob ts_new evs ctx greq w = Some (Ret (Inr pb, w1))"
  then show "\<exists>p. lookup_job w ns (get_JobId greq) = Some p \<and> Namespace (heap w ! p) = ns \<and>
         pb_Id pb = get_JobId greq \<and> pb_Command pb = Command (heap w ! p) # Args (heap w ! p)"
    by (rule service_GetJob_Ret [OF assms(1)]) (use assms(2) in auto)
next
  assume "service_StopJob ts_new es0 es1 es2 evs ctx_err prefer_ctx ctx sreq w = Some (Ret (r, w2))"
  from service_StopJob_heap [OF assms(1) this] assms(2)
  show "\<forall>p. Namespace (heap w ! p) \<noteq> ns \<longrightarrow> heap w2 ! p = heap w ! p"
    by (metis (no_types, lifting) go.inject nth_list_update_neq sum.inject(2))
next
  assume s: "service_SubmitJob ts_new env evs ctx req w = Some (Ret (r', w3))"
  show "\<forall>n k. n \<noteq> ns \<longrightarrow> lookup_job w3 n k = lookup_job w n k"
    "take (length (heap w)) (heap w3) = heap w"
    using submit_keeps_others [OF assms(1,3) s assms(2)] by blast+
qed

theorem requests_stay_in_namespace_witness:
  "\<exists>pb w1 p. service_GetJob id (\<lambda>_. []) service_ctx
      \<lparr>get_JobId = ''i'', get_IncludeStdout = False, get_IncludeStderr = False\<rparr> service_worker =
      Some (Ret (Inr pb, w1)) \<and>
    lookup_job service_worker ''ns'' ''i'' = Some p \<and> Namespace (heap service_worker ! p) = ''ns''"
proof -
  let ?r = "\<lparr>get_JobId = ''i'', get_IncludeStdout = False, get_IncludeStderr = False\<rparr>"
  obtain pb w1 where g: "service_GetJob id (\<lambda>_. []) service_ctx ?r service_worker = Some (Ret (Inr pb, w1))"
    by (simp add: service_GetJob_def getJob_eq [OF service_worker_inv] namespaceFromContext_def
        found_job_def lookup_job_def job_entry_def toProtoJob_def optional_output_def Let_def)
  have ns: "namespaceFromContext service_ctx = Ret (Inr ''ns'')"
    by (simp add: namespaceFromContext_def)
  have "env_uuid sample_env \<noteq> []" by simp
  from requests_stay_in_namespace [OF service_worker_inv ns this, of id "\<lambda>_. []" ?r pb w1,
      THEN conjunct1] g
  show ?thesis by auto
qed

text \<open>A GetJob response that carries an exit code carries the whole output it was asked for:
  each included stream equals what the job's stream is at every moment from its completion on.\<close>

theorem exit_code_means_complete_output:
  assumes "worker_inv w" and "service_GetJob ts_new evs ctx req w = Some (Ret (Inr pb, w'))"
    and "namespaceFromContext ctx = Ret (Inr ns)" and "lookup_job w ns (get_JobId req) = Some p"
    and "timeline_ok (heap w ! p) evs" and "pb_ExitCode pb \<noteq> None"
  shows "(get_IncludeStdout req \<longrightarrow> pb_Stdout pb = stdout (job_at (heap w ! p) evs t)) \<and>
    (get_IncludeStderr req \<longrightarrow> pb_Stderr pb = stderr (job_at (heap w ! p) evs t)) \<and>
    pb_ExitCode pb = map_option word_of_int (exitCode (job_at (heap w ! p) evs t))"
proof (rule service_GetJob_Ret [OF assms(1,2)])
  fix ns' p' t1 t2
  assume a: "namespaceFromContext ctx = Ret (Inr ns')" "lookup_job w ns' (get_JobId req) = Some p'"
    and pb: "pb = \<lparr>pb_Id = ID (heap w ! p'), pb_Command = Command (heap w ! p') # Args (heap w ! p'),
       pb_RootFs = RootFS (heap w ! p'), pb_CreatedAt = Some (ts_new (CreatedAt (heap w ! p'))),
       pb_Pid = word_of_int (PID (heap w ! p')),
       pb_Stdout = (if get_IncludeStdout req then stdout (job_at (heap w ! p') evs t1) else []),
       pb_Stderr = (if get_IncludeStderr req then stderr (job_at (heap w ! p') evs t2) else []),
       pb_ExitCode = map_option word_of_int (exitCode (job_at (heap w ! p') evs 0))\<rparr>"
  have p: "p' = p" using a assms(3,4) by simp
  have fin: "exitCode (job_at (heap w ! p) evs 0) \<noteq> None"
    using assms(6) unfolding pb p by simp
  note same = job_at_frozen [OF assms(5) fin]
  show ?thesis
    unfolding pb p using same [of t1] same [of t2] same [of t] by simp
qed

theorem exit_code_means_complete_output_witness:
  "\<exists>pb w1. service_GetJob id (\<lambda>_. []) service_ctx
      \<lparr>get_JobId = ''i'', get_IncludeStdout = False, get_IncludeStderr = False\<rparr>
      (service_worker\<lparr>heap := [(newJob 0 ''ns'' ''i'' ''echo'' [])\<lparr>exitCode := Some 3, doneCtx := True\<rparr>]\<rparr>) =
      Some (Ret (Inr pb, w1)) \<and> pb_ExitCode pb = Some 3"
proof -
  let ?r = "\<lparr>get_JobId = ''i'', get_IncludeStdout = False, get_IncludeStderr = False\<rparr>"
  let ?j = "(newJob 0 ''ns'' ''i'' ''echo'' [])\<lparr>exitCode := Some 3, doneCtx := True\<rparr>"
  let ?w = "service_worker\<lparr>heap := [?j]\<rparr>"
  have inv: "worker_inv ?w"
    by (auto simp: worker_inv_def table_wf_def gomap_wf_def job_entry_def entry_ok_def newJob_def
        job_wf_def listener_list_def unlocked_mutex_def split: if_splits)
  have at: "job_at ?j (\<lambda>_. []) t = ?j" for t
    by (induction t) (simp_all add: job_after_def)
  obtain w1 where w1: "getJob service_ctx ''i'' ?w = Ret (Inr 0, w1)" "heap w1 = [?j]"
    using getJob_eq [OF inv, of service_ctx "''i''"]
    by (simp add: namespaceFromContext_def found_job_def lookup_job_def job_entry_def)
  obtain pb where pb: "toProtoJob id (job_at ?j (\<lambda>_. [])) 0 False False = Some (Ret (Inr pb))"
    "pb_ExitCode pb = Some 3"
    using toProtoJob_no_output [of id "job_at ?j (\<lambda>_. [])" 0] at [of 0] by auto
  have g: "service_GetJob id (\<lambda>_. []) service_ctx ?r ?w = Some (Ret (Inr pb, w1))"
    and c: "pb_ExitCode pb \<noteq> None"
    using w1 pb by (simp_all add: service_GetJob_def)
  have ns: "namespaceFromContext service_ctx = Ret (Inr ''ns'')"
    and l: "lookup_job ?w ''ns'' (get_JobId ?r) = Some 0"
    and t: "timeline_ok (heap ?w ! 0) (\<lambda>_. [])"
    by (simp_all add: namespaceFromContext_def lookup_job_def job_entry_def timeline_ok_def)
  from exit_code_means_complete_output [OF inv g ns l t c, of 0] g show ?thesis
    by (simp add: job_after_def)
qed

text \<open>How a job is looked up for GetJob, StopJob and StreamJobOutput: no ID is
  InvalidArgument; a connection that is not TLS is Unauthenticated; a worker that is shut down is
  FailedPrecondition; an ID that is free or still being submitted in the namespace of the
  certificate is NotFound; otherwise it is the job stored there. Without a peer certificate in
  the chain, indexing it panics.\<close>

theorem job_lookup_status:
  assumes "worker_inv w"
  shows "(i = [] \<longrightarrow> getJob ctx i w = Ret (Inl (Status InvalidArgument ''job ID required''), w)) \<and>
    (i \<noteq> [] \<and> (\<forall>certs. ctx_peer ctx \<noteq> Some (Some (TLSInfo certs))) \<longrightarrow>
      getJob ctx i w = Ret (Inl (Status Unauthenticated ''missing client certificate''), w)) \<and>
    (i \<noteq> [] \<and> ctx_peer ctx = Some (Some (TLSInfo [])) \<longrightarrow> getJob ctx i w = Panic) \<and>
    (i \<noteq> [] \<and> ctx_peer ctx = Some (Some (TLSInfo (ous # chain))) \<and>
      ns = (if ous = [] then [] else hd ous) \<longrightarrow>
      (\<exists>w'. getJob ctx i w = Ret
        (if shutdown w then Inl (Status FailedPrecondition ''worker shutdown'')
         else case lookup_job w ns i of
             None \<Rightarrow> Inl (Status NotFound ''not found'')
           | Some p \<Rightarrow> Inr p, w')))"
  by (auto simp: getJob_eq [OF assms] namespace_cases found_job_def)

theorem job_lookup_status_witness:
  "\<exists>w'. getJob service_ctx ''i'' service_worker = Ret (Inr 0, w')"
  using job_lookup_status [OF service_worker_inv, of "''i''" service_ctx "[''ns'']" "[]" "''ns''"]
  by (simp add: lookup_job_def job_entry_def)

text \<open>A submission passes validation exactly when it has a command and, besides the ID and the
  root filesystem, nothing else; a request without a job is not refused but panics.\<close>

theorem submit_validation:
  "(validateSubmitJobRequest req = Panic \<longleftrightarrow> submit_Job req = None) \<and>
   (validateSubmitJobRequest req = Ret None \<longleftrightarrow>
      (\<exists>i command args root. submit_Job req = Some
         \<lparr>pb_Id = i, pb_Command = command # args, pb_RootFs = root, pb_CreatedAt = None, pb_Pid = 0,
          pb_Stdout = [], pb_Stderr = [], pb_ExitCode = None\<rparr>)) \<and>
   validateSubmitJobRequest req \<in>
     {Panic, Ret None} \<union> range (\<lambda>msg. Ret (Some (Status InvalidArgument msg)))"
proof (cases "submit_Job req")
  case (Some j)
  then show ?thesis
    by (cases j; cases "pb_Command j") (auto simp: validateSubmitJobRequest_def)
qed (simp add: validateSubmitJobRequest_def)

text \<open>What a submission through the service does on a healthy worker. When it is accepted, the
  job is stored under the certificate's namespace and the given or generated ID, which was free,
  and the response carries that ID and the submitted command, without output. When it is refused
  after validation, the table is unchanged and the status tells why: FailedPrecondition when the
  worker is shut down, AlreadyExists when the ID is taken.\<close>

theorem submit_response:
  assumes "worker_inv w" and "env_uuid env \<noteq> []"
    and "service_SubmitJob ts_new env evs ctx req w = Some (Ret (r, w'))"
    and "namespaceFromContext ctx = Ret (Inr ns)" and "submit_Job req = Some j"
    and "validateSubmitJobRequest req = Ret None"
    and "i = (if pb_Id j = [] then env_uuid env else pb_Id j)"
  shows "case r of
      Inr pb \<Rightarrow> job_entry w ns i = None \<and> \<not> shutdown w \<and>
        (\<exists>p. lookup_job w' ns i = Some p \<and> Namespace (heap w' ! p) = ns \<and> ID (heap w' ! p) = i \<and>
           Command (heap w' ! p) # Args (heap w' ! p) = pb_Command j) \<and>
        pb_Id pb = i \<and> pb_Command pb = pb_Command j \<and> pb_Stdout pb = [] \<and> pb_Stderr pb = []
    | Inl e \<Rightarrow> job_entry w' = job_entry w \<and> heap w' = heap w \<and>
        (shutdown w \<longrightarrow> e = Status FailedPrecondition ''worker shutdown'') \<and>
        (\<not> shutdown w \<longrightarrow> job_entry w ns i \<noteq> None \<longrightarrow>
           e = Status AlreadyExists ''job with ID already exists'')"
proof (rule service_SubmitJob_Ret [OF assms(3)])
  fix e assume "validateSubmitJobRequest req = Ret (Some e) \<or> namespaceFromContext ctx = Ret (Inl e)"
  with assms(4,6) show ?thesis by simp
next
  fix ns' j'
  assume "submit_Job req = Some j'" "namespaceFromContext ctx = Ret (Inr ns')"
    and "submit_request ts_new env evs ns' j' w = Some (Ret (r, w'))"
  with assms(4,5) have "submit_request ts_new env evs ns j w = Some (Ret (r, w'))" by simp
  from submit_request_effect [OF assms(1,2) this assms(7)] show ?thesis
    by (auto split: sum.splits)
qed

theorem submit_response_witness:
  "\<exists>r w'. service_SubmitJob id sample_env (\<lambda>_. []) service_ctx
      \<lparr>submit_Job = Some \<lparr>pb_Id = ''i'', pb_Command = [''ls''], pb_RootFs = [], pb_CreatedAt = None,
        pb_Pid = 0, pb_Stdout = [], pb_Stderr = [], pb_ExitCode = None\<rparr>\<rparr> service_worker =
      Some (Ret (Inl r, w')) \<and> r = Status AlreadyExists ''job with ID already exists''"
proof -
  let ?j = "\<lparr>pb_Id = ''i'', pb_Command = [''ls''], pb_RootFs = [], pb_CreatedAt = None,
        pb_Pid = 0, pb_Stdout = [], pb_Stderr = [], pb_ExitCode = None\<rparr> :: int pb_Job"
  have v: "validateSubmitJobRequest \<lparr>submit_Job = Some ?j\<rparr> = Ret None"
    by (simp add: validateSubmitJobRequest_def)
  have ns: "namespaceFromContext service_ctx = Ret (Inr ''ns'')"
    by (simp add: namespaceFromContext_def)
  obtain e w' where s: "service_SubmitJob id sample_env (\<lambda>_. []) service_ctx
      \<lparr>submit_Job = Some ?j\<rparr> service_worker = Some (Ret (Inl e, w'))"
    by (simp add: service_SubmitJob_def v ns submit_request_def worker_SubmitJob_def submit_body_def
        submit_reserve_def job_entry_def mutex_defs Let_def)
  have "env_uuid sample_env \<noteq> []" by simp
  from submit_response [OF service_worker_inv this s ns _ v refl] s
  show ?thesis by (simp add: job_entry_def)
qed

text \<open>StopJob on a job it finds, whatever happens to the job meanwhile: it never panics; a job
  that has completed is FailedPrecondition and gets no request; otherwise the request is made,
  and the answer is either the job with its exit code and no output, or the error of the context,
  DeadlineExceeded when the three seconds ran out.\<close>

theorem stop_job_outcome:
  assumes "worker_inv w" and "getJob ctx (stop_JobId req) w = Ret (Inr p, w1)"
    and "service_StopJob ts_new es0 es1 es2 evs ctx_err prefer_ctx ctx req w = Some res"
  shows "res \<noteq> Panic \<and>
    (if exitCode (job_after (heap w ! p) es0) \<noteq> None
     then res = Ret (Inl (Status FailedPrecondition ''job already stopped''), w1)
     else \<forall>r w'. res = Ret (r, w') \<longrightarrow>
       heap w' = (heap w)[p := Stop_request (stop_Force req) (heap w ! p)] \<and>
       (case r of
          Inr pb \<Rightarrow> pb_ExitCode pb \<noteq> None \<and> pb_Id pb = stop_JobId req \<and> pb_Stdout pb = [] \<and> pb_Stderr pb = []
        | Inl e \<Rightarrow> ctx_err \<noteq> None \<and>
            e = (if ctx_err = Some CtxDeadlineExceeded
                 then Status StatusDeadlineExceeded ''failed stopping job within 3 seconds''
                 else the ctx_err)))"
proof (cases "exitCode (job_after (heap w ! p) es0) = None")
  case False
  with assms(2,3) getJob_same(1) [OF assms(1,2)] show ?thesis
    by (auto simp: service_StopJob_def ExitCode_def Let_def)
next
  case True
  from service_StopJob_running [OF assms(1,2) True assms(3)] show ?thesis
    unfolding stop_status_def by (elim disjE exE conjE) (simp_all add: True)
qed

theorem stop_job_outcome_witness:
  "\<exists>w1. getJob service_ctx ''i'' service_worker = Ret (Inr 0, w1) \<and>
    service_StopJob id [EvDone 1] [] [] (\<lambda>_. []) None False service_ctx
      \<lparr>stop_JobId = ''i'', stop_Force = True\<rparr> service_worker =
      Some (Ret (Inl (Status FailedPrecondition ''job already stopped''), w1))"
proof -
  obtain w1 where w1: "getJob service_ctx ''i'' service_worker = Ret (Inr 0, w1)" "heap w1 = heap service_worker"
    using getJob_eq [OF service_worker_inv, of service_ctx "''i''"]
    by (simp add: namespaceFromContext_def found_job_def lookup_job_def job_entry_def)
  let ?r = "\<lparr>stop_JobId = ''i'', stop_Force = True\<rparr>"
  have d: "exitCode (job_after (heap service_worker ! 0) [EvDone 1]) = Some 1"
    by (simp add: job_after_def markDone_def no_chans_def)
  obtain res where "service_StopJob id [EvDone 1] [] [] (\<lambda>_. []) None False service_ctx ?r service_worker = Some res"
    using w1 d by (simp add: service_StopJob_def ExitCode_def)
  with stop_job_outcome [OF service_worker_inv, of service_ctx ?r 0 w1 id "[EvDone 1]" "[]" "[]"
      "\<lambda>_. []" None False res] w1(1) d
  show ?thesis by auto
qed

end
