(* ===== verification/Certificate.thy ===== *)
theory Certificate
  imports Service
begin

text \<open>
  \<open>workergrpc/certificate.go\<close>: the TLS configurations of the two ends and the generation of
  certificates. The cryptographic operations of the standard library are a record of functions:
  what they compute is not modelled, the properties name the documented laws they use. Randomness
  enters as the key pair and the serial number that were drawn, the clock as a number of
  nanoseconds. PEM and DER data are byte lists.
\<close>

section \<open>Keys and certificates\<close>

text \<open>An ECDSA private key, or a key of another kind, named by its Go type.\<close>

datatype 'k private_key = EcdsaKey 'k | OtherKey string

datatype ext_usage = ServerAuth | ClientAuthUsage

abbreviation "KeyUsageDigitalSignature \<equiv> (1 :: 64 word)"
abbreviation "KeyUsageCertSign \<equiv> (32 :: 64 word)"

record certificate =
  SerialNumber :: int
  CommonName :: string
  OrganizationalUnit :: "string list"
  NotBefore :: int
  NotAfter :: int
  KeyUsage :: "64 word"
  ExtKeyUsage :: "ext_usage list"
  BasicConstraintsValid :: bool
  IsCA :: bool
  IPAddresses :: "byte list list"
  DNSNames :: "string list"

text \<open>
  The library functions, in the order the code calls them: \<open>AppendCertsFromPEM\<close> on an empty
  pool (the certificates added, none for failure), \<open>tls.X509KeyPair\<close>, \<open>net.ParseIP\<close>,
  \<open>pem.Decode\<close>, \<open>x509.ParseCertificate\<close>, \<open>x509.ParsePKCS8PrivateKey\<close>,
  \<open>x509.CreateCertificate\<close> with template, parent, public key of the new pair and parent key,
  \<open>pem.EncodeToMemory\<close> and \<open>x509.MarshalPKCS8PrivateKey\<close>.
\<close>

record 'k crypto =
  pool_from_pem :: "byte list \<Rightarrow> certificate list"
  key_pair :: "byte list \<Rightarrow> byte list \<Rightarrow> go_error + certificate list"
  parse_ip :: "string \<Rightarrow> byte list option"
  pem_decode :: "byte list \<Rightarrow> byte list option"
  parse_certificate :: "byte list \<Rightarrow> go_error + certificate"
  parse_pkcs8 :: "byte list \<Rightarrow> go_error + 'k private_key"
  create_certificate :: "certificate \<Rightarrow> certificate \<Rightarrow> 'k \<Rightarrow> 'k \<Rightarrow> go_error + byte list"
  pem_encode :: "string \<Rightarrow> byte list \<Rightarrow> byte list"
  marshal_pkcs8 :: "'k \<Rightarrow> go_error + byte list"

section \<open>Credentials\<close>

datatype client_auth = NoClientCert | RequireAndVerifyClientCert

record tls_config =
  ClientAuth :: client_auth
  ClientCAs :: "certificate list option"
  RootCAs :: "certificate list option"
  Certificates :: "certificate list list"
  MinVersion :: nat
  CipherSuites :: "string list"

definition tlsMinVersion :: nat where
  "tlsMinVersion = 0x0303"

definition tlsCipherSuites :: "string list" where
  "tlsCipherSuites =
     [''TLS_ECDHE_ECDSA_WITH_AES_128_GCM_SHA256'', ''TLS_ECDHE_RSA_WITH_AES_128_GCM_SHA256'',
      ''TLS_ECDHE_ECDSA_WITH_AES_256_GCM_SHA384'', ''TLS_ECDHE_RSA_WITH_AES_256_GCM_SHA384'',
      ''TLS_ECDHE_ECDSA_WITH_CHACHA20_POLY1305'', ''TLS_ECDHE_RSA_WITH_CHACHA20_POLY1305'']"

definition MTLSServerCredentials ::
  "'k crypto \<Rightarrow> byte list \<Rightarrow> byte list \<Rightarrow> byte list \<Rightarrow> go_error + tls_config" where
  "MTLSServerCredentials c clientCACert serverCert serverKey =
     (let pool = pool_from_pem c clientCACert in
      if pool = [] then Inl (Errorf ''failed adding client CA cert from PEM'')
      else case key_pair c serverCert serverKey of
             Inl e \<Rightarrow> Inl e
           | Inr cert \<Rightarrow> Inr
               \<lparr>ClientAuth = RequireAndVerifyClientCert, ClientCAs = Some pool, RootCAs = None,
                Certificates = [cert], MinVersion = tlsMinVersion, CipherSuites = tlsCipherSuites\<rparr>)"

definition MTLSClientCredentials ::
  "'k crypto \<Rightarrow> byte list \<Rightarrow> byte list \<Rightarrow> byte list \<Rightarrow> go_error + tls_config" where
  "MTLSClientCredentials c serverCACert clientCert clientKey =
     (let pool = pool_from_pem c serverCACert in
      if pool = [] then Inl (Errorf ''failed adding server CA cert from PEM'')
      else case key_pair c clientCert clientKey of
             Inl e \<Rightarrow> Inl e
           | Inr cert \<Rightarrow> Inr
               \<lparr>ClientAuth = NoClientCert, ClientCAs = None, RootCAs = Some pool,
                Certificates = [cert], MinVersion = tlsMinVersion, CipherSuites = tlsCipherSuites\<rparr>)"

section \<open>Generation\<close>

record GenerateCertificateConfig =
  SignerCert :: "byte list"
  SignerKey :: "byte list"
  OU :: string
  CA :: bool
  ServerHost :: string

abbreviation "hour \<equiv> (3600 * 1000000000 :: int)"

unbundle bit_operations_syntax

text \<open>The template, from the literal to the end of the usage switch.\<close>

definition cert_template ::
  "'k crypto \<Rightarrow> int \<Rightarrow> int \<Rightarrow> GenerateCertificateConfig \<Rightarrow> certificate" where
  "cert_template c now serial config =
     (let cert = \<lparr>SerialNumber = serial, CommonName = [],
                  OrganizationalUnit = (if OU config \<noteq> [] then [OU config] else []),
                  NotBefore = now + (- 24) * hour, NotAfter = now + 365 * 24 * hour,
                  KeyUsage = KeyUsageDigitalSignature, ExtKeyUsage = [],
                  BasicConstraintsValid = True, IsCA = CA config,
                  IPAddresses = [], DNSNames = []\<rparr> in
      if CA config then cert\<lparr>KeyUsage := KeyUsage cert OR KeyUsageCertSign\<rparr>
      else if ServerHost config \<noteq> [] then
        (let cert = cert\<lparr>ExtKeyUsage := [ServerAuth], CommonName := ServerHost config\<rparr> in
         case parse_ip c (ServerHost config) of
           Some ip \<Rightarrow> cert\<lparr>IPAddresses := [ip]\<rparr>
         | None \<Rightarrow> cert\<lparr>DNSNames := [ServerHost config]\<rparr>)
      else cert\<lparr>ExtKeyUsage := [ClientAuthUsage]\<rparr>)"

text \<open>The parent: the signer's pair, or the certificate and key themselves.\<close>

definition load_signer ::
  "'k crypto \<Rightarrow> GenerateCertificateConfig \<Rightarrow> certificate \<Rightarrow> 'k \<Rightarrow> go_error + certificate \<times> 'k" where
  "load_signer c config cert priv =
     (if 0 < length (SignerCert config) \<or> 0 < length (SignerKey config) then
        if length (SignerCert config) = 0 \<or> length (SignerKey config) = 0
        then Inl (Errorf ''both signer cert and key must be absent or present'')
        else case pem_decode c (SignerCert config) of
          None \<Rightarrow> Inl (Errorf ''failed reading cert PEM'')
        | Some der \<Rightarrow> (case parse_certificate c der of
            Inl e \<Rightarrow> Inl (Wrapf ''parsing cert'' e)
          | Inr parent \<Rightarrow> (case pem_decode c (SignerKey config) of
              None \<Rightarrow> Inl (Errorf ''failed reading key PEM'')
            | Some kder \<Rightarrow> (case parse_pkcs8 c kder of
                Inl e \<Rightarrow> Inl (Wrapf ''parsing key'' e)
              | Inr (OtherKey t) \<Rightarrow> Inl (Errorf (''unexpected private key type '' @ t))
              | Inr (EcdsaKey k) \<Rightarrow> Inr (parent, k))))
      else Inr (cert, priv))"

text \<open>
  \<open>gen_key\<close> and \<open>serial\<close> are the outcomes of \<open>ecdsa.GenerateKey\<close> on P-256 and of
  drawing the serial number below \<open>2 ^ 128\<close>.
\<close>

definition GenerateCertificate ::
  "'k crypto \<Rightarrow> go_error + 'k \<Rightarrow> int \<Rightarrow> go_error + int \<Rightarrow> GenerateCertificateConfig \<Rightarrow>
     go_error + byte list \<times> byte list" where
  "GenerateCertificate c gen_key now serial config =
     (if CA config \<and> ServerHost config \<noteq> [] then Inl (Errorf ''cannot have server host for CA'')
      else if (length (SignerCert config) = 0) \<noteq> (length (SignerKey config) = 0)
      then Inl (Errorf ''only one of signer cert or key present, must have both or neither'')
      else case gen_key of
        Inl e \<Rightarrow> Inl e
      | Inr priv \<Rightarrow> (case serial of
          Inl e \<Rightarrow> Inl (Wrapf ''generating serial number'' e)
        | Inr sn \<Rightarrow>
            let cert = cert_template c now sn config in
            case load_signer c config cert priv of
              Inl e \<Rightarrow> Inl e
            | Inr (parent, parentPriv) \<Rightarrow> (case create_certificate c cert parent priv parentPriv of
                Inl e \<Rightarrow> Inl (Wrapf ''creating certificate'' e)
              | Inr certBytes \<Rightarrow> (case marshal_pkcs8 c priv of
                  Inl e \<Rightarrow> Inl (Wrapf ''marshaling private key'' e)
                | Inr privBytes \<Rightarrow> Inr (pem_encode c ''CERTIFICATE'' certBytes,
                                       pem_encode c ''PRIVATE KEY'' privBytes)))))"

section \<open>What the library is asked for\<close>

lemma cert_template_ou: "OrganizationalUnit (cert_template c now sn config) = (if OU config \<noteq> [] then [OU config] else [])"
  by (simp add: cert_template_def Let_def split: option.splits)

lemma load_signer_self: "SignerCert config = [] \<Longrightarrow> SignerKey config = [] \<Longrightarrow>
    load_signer c config cert priv = Inr (cert, priv)"
  by (simp add: load_signer_def)

text \<open>A successful generation, taken apart.\<close>

lemma GenerateCertificate_Inr:
  assumes "GenerateCertificate c gen_key now serial config = Inr (certPEM, keyPEM)"
  obtains priv sn parent parentPriv certBytes privBytes where
    "gen_key = Inr priv" "serial = Inr sn" "\<not> (CA config \<and> ServerHost config \<noteq> [])"
    "SignerCert config = [] \<longleftrightarrow> SignerKey config = []"
    "load_signer c config (cert_template c now sn config) priv = Inr (parent, parentPriv)"
    "create_certificate c (cert_template c now sn config) parent priv parentPriv = Inr certBytes"
    "certPEM = pem_encode c ''CERTIFICATE'' certBytes"
    "marshal_pkcs8 c priv = Inr privBytes" "keyPEM = pem_encode c ''PRIVATE KEY'' privBytes"
proof -
  from assms obtain priv where p: "gen_key = Inr priv"
    by (cases gen_key) (auto simp: GenerateCertificate_def split: if_splits)
  from assms p obtain sn where s: "serial = Inr sn"
    by (cases serial) (auto simp: GenerateCertificate_def split: if_splits)
  have g: "\<not> (CA config \<and> ServerHost config \<noteq> [])" "SignerCert config = [] \<longleftrightarrow> SignerKey config = []"
    using assms by (auto simp: GenerateCertificate_def split: if_splits)
  obtain parent parentPriv where l:
    "load_signer c config (cert_template c now sn config) priv = Inr (parent, parentPriv)"
    using assms g p s
    by (cases "load_signer c config (cert_template c now sn config) priv")
      (auto simp: GenerateCertificate_def Let_def)
  obtain certBytes where cb:
    "create_certificate c (cert_template c now sn config) parent priv parentPriv = Inr certBytes"
    using assms g p s l
    by (cases "create_certificate c (cert_template c now sn config) parent priv parentPriv")
      (auto simp: GenerateCertificate_def Let_def)
  obtain privBytes where "marshal_pkcs8 c priv = Inr privBytes"
    using assms g p s l cb
    by (cases "marshal_pkcs8 c priv") (auto simp: GenerateCertificate_def Let_def)
  with assms g p s l cb that show thesis by (simp add: GenerateCertificate_def Let_def)
qed

text \<open>
  A library that always succeeds and knows one certificate, to apply the properties to.
\<close>

definition sample_cert :: certificate where
  "sample_cert = \<lparr>SerialNumber = 1, CommonName = [], OrganizationalUnit = [''ns''], NotBefore = 0,
     NotAfter = 1, KeyUsage = 1, ExtKeyUsage = [ClientAuthUsage], BasicConstraintsValid = True,
     IsCA = False, IPAddresses = [], DNSNames = []\<rparr>"

definition sample_crypto :: "nat crypto" where
  "sample_crypto = \<lparr>pool_from_pem = (\<lambda>_. [sample_cert]), key_pair = (\<lambda>_ _. Inr [sample_cert]),
     parse_ip = (\<lambda>_. None), pem_decode = Some, parse_certificate = (\<lambda>_. Inr sample_cert),
     parse_pkcs8 = (\<lambda>_. Inr (EcdsaKey 7)), create_certificate = (\<lambda>_ _ _ _. Inr [1]),
     pem_encode = (\<lambda>_ b. b), marshal_pkcs8 = (\<lambda>_. Inr [2])\<rparr>"

abbreviation sample_config :: GenerateCertificateConfig where
  "sample_config \<equiv> \<lparr>SignerCert = [3], SignerKey = [4], OU = ''ns'', CA = False, ServerHost = []\<rparr>"

lemma sample_generation:
  "GenerateCertificate sample_crypto (Inr 5) 0 (Inr 1) sample_config = Inr ([1], [2])"
  by (simp add: GenerateCertificate_def sample_crypto_def load_signer_def Let_def)

section \<open>Properties\<close>

text \<open>C32: What a generated certificate is for. The library is asked for a certificate that is
  valid now and for 365 days more, for exactly one purpose: a CA that signs and authenticates
  nobody, a server for the given host, named as an IP address or as a DNS name, or a client. It
  is signed with the key of the signer given, or else with its own.\<close>

theorem generated_certificate_purpose:
  assumes "GenerateCertificate c gen_key now serial config = Inr (certPEM, keyPEM)"
  shows "\<exists>cert parent priv parentPriv certBytes.
    create_certificate c cert parent priv parentPriv = Inr certBytes \<and>
    certPEM = pem_encode c ''CERTIFICATE'' certBytes \<and> gen_key = Inr priv \<and>
    NotBefore cert < now \<and> NotAfter cert = now + 365 * 24 * hour \<and>
    (IsCA cert \<longleftrightarrow> CA config) \<and>
    (KeyUsage cert AND KeyUsageCertSign \<noteq> 0 \<longleftrightarrow> CA config) \<and>
    ExtKeyUsage cert = (if CA config then [] else if ServerHost config \<noteq> [] then [ServerAuth]
                        else [ClientAuthUsage]) \<and>
    (ServerHost config \<noteq> [] \<longrightarrow>
       (case parse_ip c (ServerHost config) of
          Some ip \<Rightarrow> IPAddresses cert = [ip] \<and> DNSNames cert = []
        | None \<Rightarrow> IPAddresses cert = [] \<and> DNSNames cert = [ServerHost config])) \<and>
    (if SignerCert config = [] then parent = cert \<and> parentPriv = priv
     else \<exists>der kder. pem_decode c (SignerCert config) = Some der \<and> parse_certificate c der = Inr parent \<and>
       pem_decode c (SignerKey config) = Some kder \<and> parse_pkcs8 c kder = Inr (EcdsaKey parentPriv))"
proof (rule GenerateCertificate_Inr [OF assms])
  fix priv sn parent parentPriv certBytes
  let ?cert = "cert_template c now sn config"
  assume g: "\<not> (CA config \<and> ServerHost config \<noteq> [])" "SignerCert config = [] \<longleftrightarrow> SignerKey config = []"
    and l: "load_signer c config ?cert priv = Inr (parent, parentPriv)"
    and cb: "create_certificate c ?cert parent priv parentPriv = Inr certBytes"
    and o: "certPEM = pem_encode c ''CERTIFICATE'' certBytes" "gen_key = Inr priv"
  have signer: "if SignerCert config = [] then parent = ?cert \<and> parentPriv = priv
     else \<exists>der kder. pem_decode c (SignerCert config) = Some der \<and> parse_certificate c der = Inr parent \<and>
       pem_decode c (SignerKey config) = Some kder \<and> parse_pkcs8 c kder = Inr (EcdsaKey parentPriv)"
    using l g(2)
    by (auto simp: load_signer_def split: if_splits option.splits sum.splits private_key.splits)
  have tmpl: "NotBefore ?cert < now" "NotAfter ?cert = now + 365 * 24 * hour" "IsCA ?cert \<longleftrightarrow> CA config"
    "KeyUsage ?cert AND KeyUsageCertSign \<noteq> 0 \<longleftrightarrow> CA config"
    "ExtKeyUsage ?cert = (if CA config then [] else if ServerHost config \<noteq> [] then [ServerAuth]
                        else [ClientAuthUsage])"
    "ServerHost config \<noteq> [] \<longrightarrow>
       (case parse_ip c (ServerHost config) of
          Some ip \<Rightarrow> IPAddresses ?cert = [ip] \<and> DNSNames ?cert = []
        | None \<Rightarrow> IPAddresses ?cert = [] \<and> DNSNames ?cert = [ServerHost config])"
    using g(1) by (auto simp: cert_template_def Let_def split: option.splits)
  with signer cb o show ?thesis by blast
qed

theorem generated_certificate_purpose_witness:
  "\<exists>cert parent parentPriv. create_certificate sample_crypto cert parent 5 parentPriv = Inr [1] \<and>
     ExtKeyUsage cert = [ClientAuthUsage]"
  using generated_certificate_purpose [OF sample_generation]
  by (auto simp: sample_crypto_def)

text \<open>C33: The organizational unit given to the generation is the namespace of whoever presents the
  certificate: if PEM decoding inverts PEM encoding and the certificate the library makes parses
  back with the template's subject, a request over a connection with that certificate as leaf is
  answered in that namespace, the empty one included.\<close>

theorem generated_ou_is_namespace:
  assumes "GenerateCertificate c gen_key now (Inr sn) config = Inr (certPEM, keyPEM)"
    and "\<forall>t b. pem_decode c (pem_encode c t b) = Some b"
    and "\<forall>parent pub key der. create_certificate c (cert_template c now sn config) parent pub key = Inr der \<longrightarrow>
      (\<exists>cert. parse_certificate c der = Inr cert \<and>
         OrganizationalUnit cert = OrganizationalUnit (cert_template c now sn config))"
  shows "\<exists>der cert. pem_decode c certPEM = Some der \<and> parse_certificate c der = Inr cert \<and>
    namespaceFromContext \<lparr>ctx_peer = Some (Some (TLSInfo (OrganizationalUnit cert # chain)))\<rparr> =
      Ret (Inr (OU config))"
proof (rule GenerateCertificate_Inr [OF assms(1)])
  fix priv sn' parent parentPriv certBytes
  assume s: "Inr sn = (Inr sn' :: go_error + int)"
    and cb: "create_certificate c (cert_template c now sn' config) parent priv parentPriv = Inr certBytes"
    and pem: "certPEM = pem_encode c ''CERTIFICATE'' certBytes"
  from s have "sn' = sn" by simp
  with assms(3) [rule_format, OF cb [unfolded this]]
  obtain cert where cert: "parse_certificate c certBytes = Inr cert"
    "OrganizationalUnit cert = (if OU config \<noteq> [] then [OU config] else [])"
    unfolding cert_template_ou by blast
  have "pem_decode c certPEM = Some certBytes" using assms(2) pem by simp
  with cert show ?thesis by (simp add: namespaceFromContext_def)
qed

theorem generated_ou_is_namespace_witness:
  "\<exists>der cert. pem_decode sample_crypto [1] = Some der \<and> parse_certificate sample_crypto der = Inr cert \<and>
    namespaceFromContext \<lparr>ctx_peer = Some (Some (TLSInfo (OrganizationalUnit cert # [])))\<rparr> = Ret (Inr ''ns'')"
proof -
  have "\<forall>t b. pem_decode sample_crypto (pem_encode sample_crypto t b) = Some b"
    by (simp add: sample_crypto_def)
  moreover have "OrganizationalUnit (cert_template sample_crypto 0 1 sample_config) = [''ns'']"
    by (simp add: cert_template_ou)
  then have "\<forall>parent pub key der. create_certificate sample_crypto
      (cert_template sample_crypto 0 1 sample_config) parent pub key = Inr der \<longrightarrow>
      (\<exists>cert. parse_certificate sample_crypto der = Inr cert \<and>
         OrganizationalUnit cert = OrganizationalUnit (cert_template sample_crypto 0 1 sample_config))"
    by (simp add: sample_crypto_def sample_cert_def)
  ultimately show ?thesis
    using generated_ou_is_namespace [OF sample_generation, of "[]"] by simp
qed

text \<open>A server that got its credentials answers every connection in some namespace: if, with
  client certificates required and verified, the library completes a handshake only with a peer
  that presented a certificate, no request on such a connection panics on the missing certificate
  or is answered Unauthenticated. The configuration verifies clients against the given CA only and
  allows nothing below TLS 1.2.\<close>

theorem mtls_requests_have_namespace:
  assumes "MTLSServerCredentials c clientCACert serverCert serverKey = Inr cfg"
    and "\<And>cfg chain. ClientAuth cfg = RequireAndVerifyClientCert \<Longrightarrow> accepts cfg chain \<Longrightarrow> chain \<noteq> []"
    and "accepts cfg chain"
  shows "(\<exists>ns. namespaceFromContext \<lparr>ctx_peer = Some (Some (TLSInfo chain))\<rparr> = Ret (Inr ns)) \<and>
    ClientCAs cfg = Some (pool_from_pem c clientCACert) \<and> pool_from_pem c clientCACert \<noteq> [] \<and>
    0x0303 \<le> MinVersion cfg"
proof -
  have cfg: "ClientAuth cfg = RequireAndVerifyClientCert"
    "ClientCAs cfg = Some (pool_from_pem c clientCACert)" "pool_from_pem c clientCACert \<noteq> []"
    "0x0303 \<le> MinVersion cfg"
    using assms(1) by (auto simp: MTLSServerCredentials_def tlsMinVersion_def Let_def split: if_splits sum.splits)
  from assms(2) [OF cfg(1) assms(3)] obtain ous rest where "chain = ous # rest"
    by (cases chain) auto
  with cfg show ?thesis by (simp add: namespaceFromContext_def)
qed

theorem mtls_requests_have_namespace_witness:
  "\<exists>cfg ns. MTLSServerCredentials sample_crypto [1] [2] [3] = Inr cfg \<and>
     namespaceFromContext \<lparr>ctx_peer = Some (Some (TLSInfo [[''ns'']]))\<rparr> = Ret (Inr ns)"
proof -
  obtain cfg where c: "MTLSServerCredentials sample_crypto [1] [2] [3] = Inr cfg"
    by (simp add: MTLSServerCredentials_def sample_crypto_def Let_def)
  show ?thesis
    using mtls_requests_have_namespace [OF c, of "\<lambda>_ chain. chain \<noteq> []" "[[''ns'']]"] c by simp
qed

end
