(* ===== verification/ServerCmd.thy ===== *)
theory ServerCmd
  imports Certificate
begin

text \<open>
  \<open>cmd/server.go\<close>: the serve command, from its flags to its return, with the state of the worker
  when the select fires as the result of the requests served until then. Files, the listener and
  the outcome of waiting are arguments.
\<close>

section \<open>Files\<close>

type_synonym files = "string \<Rightarrow> go_error + byte list"

text \<open>\<open>os.ReadFile\<close> with the wrapping its callers do.\<close>

definition read_file :: "files \<Rightarrow> string \<Rightarrow> string \<Rightarrow> go_error + byte list" where
  "read_file fs msg path = (case fs path of Inl e \<Rightarrow> Inl (Wrapf msg e) | Inr b \<Rightarrow> Inr b)"

lemma read_file_Inr [simp]: "read_file fs msg path = Inr b \<longleftrightarrow> fs path = Inr b"
  by (simp add: read_file_def split: sum.splits)

section \<open>The command\<close>

record serve_flags =
  serve_address :: string
  serve_clientCACert :: string
  serve_serverCert :: string
  serve_serverKey :: string
  serve_withoutLimits :: bool

definition serve_credentials :: "'k crypto \<Rightarrow> files \<Rightarrow> serve_flags \<Rightarrow> go_error + tls_config" where
  "serve_credentials c fs f =
     (if serve_clientCACert f = [] then Inl (Errorf ''client CA cert required'')
      else if serve_serverCert f = [] then Inl (Errorf ''server cert required'')
      else if serve_serverKey f = [] then Inl (Errorf ''server key required'')
      else case read_file fs ''reading client CA cert'' (serve_clientCACert f) of
        Inl e \<Rightarrow> Inl e
      | Inr ca \<Rightarrow> (case read_file fs ''reading server cert'' (serve_serverCert f) of
          Inl e \<Rightarrow> Inl e
        | Inr cert \<Rightarrow> (case read_file fs ''reading server key'' (serve_serverKey f) of
            Inl e \<Rightarrow> Inl e
          | Inr key \<Rightarrow> (case MTLSServerCredentials c ca cert key of
              Inl e \<Rightarrow> Inl (Wrapf ''loading credentials'' e)
            | Inr cfg \<Rightarrow> Inr cfg))))"

text \<open>
  What ends the select: the server failed, or a signal arrived. Each \<open>Shutdown\<close> comes with the
  error of its own context, if that is done when it waits, and whether all jobs have stopped by
  then; every context is made from the command's.
\<close>

type_synonym shutdown_wait = "go_error option \<times> bool"

datatype serve_event = ServeFailed go_error | TermSignal

definition serve_select ::
  "serve_event \<Rightarrow> shutdown_wait \<Rightarrow> shutdown_wait \<Rightarrow> worker \<Rightarrow> (go_error option \<times> worker) go" where
  "serve_select ev first second w =
     (case ev of
        ServeFailed e \<Rightarrow> Ret (Some (Wrapf ''serving service'' e), w)
      | TermSignal \<Rightarrow>
          go_bind (worker_Shutdown (fst first) (snd first) False w) (\<lambda>(err, w1).
            if err = None then Ret (None, w1)
            else go_bind (worker_Shutdown (fst second) (snd second) True w1) (\<lambda>(err, w2).
              Ret (map_option (Wrapf ''forced shutdown'') err, w2))))"

text \<open>The deferred forced shutdown, whose error is ignored.\<close>

definition deferred_shutdown :: "shutdown_wait \<Rightarrow> go_error option \<times> worker \<Rightarrow> (go_error option \<times> worker) go" where
  "deferred_shutdown third r =
     (case r of (err, w) \<Rightarrow>
        go_bind (worker_Shutdown (fst third) (snd third) True w) (\<lambda>(ignored, w'). Ret (err, w')))"

text \<open>
  \<open>serveCmd\<close>: \<open>listening\<close> is the error of \<open>net.Listen\<close>, \<open>served\<close> what the requests
  make of the worker. A command that fails before it has a worker has none to shut down.
\<close>

definition serveCmd ::
  "'k crypto \<Rightarrow> files \<Rightarrow> go_error + 64 word \<Rightarrow> serve_flags \<Rightarrow> go_error option \<Rightarrow>
     (tls_config \<Rightarrow> worker \<Rightarrow> worker) \<Rightarrow> serve_event \<Rightarrow> shutdown_wait \<Rightarrow> shutdown_wait \<Rightarrow> shutdown_wait \<Rightarrow>
     (go_error option \<times> worker option) go" where
  "serveCmd c fs stat f listening served ev first second third =
     (case serve_credentials c fs f of
        Inl e \<Rightarrow> Ret (Some e, None)
      | Inr creds \<Rightarrow>
          (case worker_New stat (if serve_withoutLimits f then None else StandardConfig) of
             (Inl e, _) \<Rightarrow> Ret (Some (Wrapf ''starting worker'' e), None)
           | (Inr w, _) \<Rightarrow>
               go_bind (case listening of
                   Some e \<Rightarrow> Ret (Some (Wrapf ''listening to address'' e), w)
                 | None \<Rightarrow> serve_select ev first second (served creds w)) (\<lambda>r.
               go_bind (deferred_shutdown third r) (\<lambda>(err, w'). Ret (err, Some w')))))"

section \<open>Shutting down twice\<close>

text \<open>A graceful \<open>Shutdown\<close> requests no forced stop.\<close>

lemma graceful_keeps_force:
  assumes "worker_Shutdown ctx_err wg_done False w = Ret (r, w')"
  shows "map forceStopCtx (heap w') = map forceStopCtx (heap w)"
proof -
  have one: "map forceStopCtx (fold (\<lambda>p hp. hp[the p := Stop_request False (hp ! the p)]) ps hp) =
      map forceStopCtx hp" for ps hp
  proof (induction ps arbitrary: hp)
    case (Cons p ps)
    have "map forceStopCtx (hp[the p := Stop_request False (hp ! the p)]) = map forceStopCtx hp"
      by (cases "the p < length hp")
        (auto simp: map_update Stop_request_def list_update_same_conv list_update_beyond)
    with Cons show ?case by simp
  qed simp
  show ?thesis
    using assms one
    by (auto simp: worker_Shutdown_def shutdown_mark_def shutdown_take_def stop_all_def go_bind_eq_Ret
        split: if_splits)
qed

lemma getJob_found_readers:
  assumes "worker_inv w" and "getJob ctx i w = Ret (Inr p, w1)"
  shows "0 < readers (shutdownLock w1)"
  by (rule getJob_cases [OF assms]) simp_all

section \<open>Properties\<close>

text \<open>C35: When the graceful shutdown fails, the forced one after it does nothing: it answers at once
  that the worker is shut down, the command reports that as its error, the deferred shutdown does
  nothing either, and no job was ever asked to stop by force.\<close>

theorem forced_shutdown_never_forces:
  assumes "worker_inv w"
    and "worker_Shutdown (fst first) (snd first) False w = Ret (Some e, w1)"
  shows "serve_select TermSignal first second w = Ret (Some (Wrapf ''forced shutdown'' ErrShutdown), w1) \<and>
    deferred_shutdown third (Some (Wrapf ''forced shutdown'' ErrShutdown), w1) =
      Ret (Some (Wrapf ''forced shutdown'' ErrShutdown), w1) \<and>
    map forceStopCtx (heap w1) = map forceStopCtx (heap w)"
  using assms(2) shutdown_again(1) [OF assms] graceful_keeps_force [OF assms(2)]
  by (simp add: serve_select_def deferred_shutdown_def)

theorem forced_shutdown_never_forces_witness:
  "\<exists>w1. serve_select TermSignal (Some CtxDeadlineExceeded, False) (None, False) service_worker =
      Ret (Some (Wrapf ''forced shutdown'' ErrShutdown), w1) \<and>
    map forceStopCtx (heap w1) = [False]"
proof -
  obtain w1 where w1: "worker_Shutdown (fst (Some CtxDeadlineExceeded, False)) (snd (Some CtxDeadlineExceeded, False))
      False service_worker = Ret (Some CtxDeadlineExceeded, w1)"
    by (simp add: worker_Shutdown_def shutdown_mark_def shutdown_take_def stop_all_def
        table_pointers_def shutdown_result_def mutex_defs)
  from forced_shutdown_never_forces [OF service_worker_inv w1, of "(None, False)"] show ?thesis
    by (auto simp: newJob_def)
qed

text \<open>One answered lookup (by GetJob, StopJob or StreamJobOutput) is enough for the serve command
  never to end on a signal: the graceful shutdown blocks for ever, whatever its context, and so
  does the deferred one when it is the server that fails.\<close>

theorem serve_hangs_after_lookup:
  assumes "worker_inv w" and "getJob ctx i w = Ret (Inr p, w1)"
  shows "serve_select TermSignal first second w1 = Block \<and> deferred_shutdown third (err, w1) = Block"
  using shutdown_readers_block [OF getJob_found_readers [OF assms]]
  by (simp add: serve_select_def deferred_shutdown_def)

theorem serve_hangs_after_lookup_witness:
  "\<exists>w1. getJob service_ctx ''i'' service_worker = Ret (Inr 0, w1) \<and>
     serve_select TermSignal (Some CtxDeadlineExceeded, True) (None, True) w1 = Block"
proof -
  obtain w1 where g: "getJob service_ctx ''i'' service_worker = Ret (Inr 0, w1)"
    using getJob_eq [OF service_worker_inv, of service_ctx "''i''"]
    by (simp add: namespaceFromContext_def found_job_def lookup_job_def job_entry_def)
  from serve_hangs_after_lookup [OF service_worker_inv g] g show ?thesis by blast
qed

end
