(* ===== verification/JobStream.thy ===== *)
theory JobStream
  imports JobReads
begin

text \<open>
  The output stream of \<open>workergrpc/service.go\<close>: \<open>StreamJobOutput\<close>, the goroutine that
  talks to the client, and up to two goroutines running \<open>streamOutput\<close>, one for each output
  of the job, as a step system together with the job they read. The two goroutines are told apart
  by a boolean, true for stderr, which is also the identity of their listener channels (0 and 1;
  other listeners of the job are 2 and up).
\<close>

section \<open>State\<close>

text \<open>
  Where a \<open>streamOutput\<close> goroutine is: not started; before the eager read; at the head of the
  loop over the past at an offset; sending a past chunk; before \<open>AddUpdateListener\<close>; before a
  live read; sending a live chunk, with the exit code that was read along with it; waiting for an
  update; leaving through the deferred \<open>RemoveUpdateListener\<close>; done, with its result on its
  error channel.
\<close>

datatype stream_pc =
    StOff
  | StEager
  | StPast nat
  | StPastSend nat "byte list"
  | StListen
  | StRead nat
  | StSend nat "byte list" "int option"
  | StWait nat
  | StUnlisten "go_error option"
  | StDone "go_error option"
  | StPanic

text \<open>The main goroutine: selecting, with the error channels that are not nil yet; about to send
  the exit code; returned; panicked on a nil exit code.\<close>

datatype main_pc = MSelect bool bool | MFinal | MReturned "go_error option" | MPanic

record stream_sys =
  ss_job :: job
  ss_chans :: chans
  ss_ctx :: "go_error option"
  ss_pc :: "bool \<Rightarrow> stream_pc"
  ss_past :: "bool \<Rightarrow> nat"
  ss_main :: main_pc
  ss_sent :: "StreamJobOutputResponse list"

definition listener_of :: "bool \<Rightarrow> nat" where
  "listener_of is_err = (if is_err then 1 else 0)"

section \<open>streamOutput\<close>

definition chunk_message :: "bool \<Rightarrow> bool \<Rightarrow> byte list \<Rightarrow> StreamJobOutputResponse" where
  "chunk_message is_err past b =
     \<lparr>resp_Response = Some (if is_err then RespStderr b else RespStdout b), resp_Past = past\<rparr>"

definition chunkSize :: nat where
  "chunkSize = 1024"

text \<open>
  One step of the goroutine that needs nobody else: \<open>None\<close> when it has to wait. It takes and
  returns the job, its channels, \<open>pastTotal\<close> and where it is. The contents of the buffer that
  the live reads reuse are not kept: a read overwrites what is then taken of it.
\<close>

definition stream_local ::
  "bool \<Rightarrow> bool \<Rightarrow> job \<Rightarrow> chans \<Rightarrow> nat \<Rightarrow> stream_pc \<Rightarrow> (job \<times> chans \<times> nat \<times> stream_pc) option" where
  "stream_local fromBeginning is_err j cs past pc =
     (case pc of
        StEager \<Rightarrow> Some (
          case read_fn is_err j [] 0 of
            Ret (n, tot, code, Some e, b) \<Rightarrow> (j, cs, past, StDone (Some e))
          | Ret (n, tot, code, None, b) \<Rightarrow>
              (j, cs, tot, if fromBeginning then StPast 0 else StListen)
          | _ \<Rightarrow> (j, cs, past, StPanic))
      | StPast off \<Rightarrow> Some (
          if off < past then
            let amountWanted = (if past - off < chunkSize then past - off else chunkSize) in
            case read_fn is_err j (replicate amountWanted 0) (int off) of
              Ret (n, tot, code, Some e, b) \<Rightarrow> (j, cs, past, StDone (Some e))
            | Ret (n, tot, code, None, b) \<Rightarrow> (j, cs, past, StPastSend (off + n) b)
            | _ \<Rightarrow> (j, cs, past, StPanic)
          else (j, cs, past, StListen))
      | StListen \<Rightarrow> Some (
          AddUpdateListener (listener_of is_err) j,
          cs(listener_of is_err := \<lparr>chan_cap = 2, chan_buf = []\<rparr>), past, StRead past)
      | StRead off \<Rightarrow> Some (
          case read_fn is_err j (replicate chunkSize 0) (int off) of
            Ret (n, tot, code, Some e, b) \<Rightarrow> (j, cs, past, StUnlisten (Some e))
          | Ret (n, tot, code, None, b) \<Rightarrow>
              (j, cs, past,
               if 0 < n then StSend (off + n) (take n b) code
               else if code \<noteq> None then StUnlisten None
               else StWait off)
          | _ \<Rightarrow> (j, cs, past, StPanic))
      | StWait off \<Rightarrow>
          (case chan_buf (cs (listener_of is_err)) of
             [] \<Rightarrow> None
           | u # us \<Rightarrow>
               Some (j, cs(listener_of is_err := (cs (listener_of is_err))\<lparr>chan_buf := us\<rparr>), past, StRead off))
      | StUnlisten e \<Rightarrow> Some (RemoveUpdateListener (listener_of is_err) j, cs, past, StDone e)
      | _ \<Rightarrow> None)"

text \<open>The message the goroutine offers on \<open>responseCh\<close>, and where it is once it is taken.\<close>

definition stream_offer :: "bool \<Rightarrow> stream_pc \<Rightarrow> (StreamJobOutputResponse \<times> stream_pc) option" where
  "stream_offer is_err pc =
     (case pc of
        StPastSend off b \<Rightarrow> Some (chunk_message is_err True b, StPast off)
      | StSend off b code \<Rightarrow>
          Some (chunk_message is_err False b, if code \<noteq> None then StUnlisten None else StRead off)
      | _ \<Rightarrow> None)"

text \<open>The \<open>Done\<close> branch of the selects.\<close>

definition stream_cancel :: "go_error \<Rightarrow> stream_pc \<Rightarrow> stream_pc option" where
  "stream_cancel e pc =
     (case pc of
        StPastSend off b \<Rightarrow> Some (StDone (Some e))
      | StSend off b code \<Rightarrow> Some (StUnlisten (Some e))
      | StWait off \<Rightarrow> Some (StUnlisten (Some e))
      | _ \<Rightarrow> None)"

section \<open>StreamJobOutput\<close>

definition wants_stream :: "StreamJobOutputRequest \<Rightarrow> bool \<Rightarrow> bool" where
  "wants_stream req is_err = (if is_err then \<not> GetOnlyStdout (Some req) else \<not> GetOnlyStderr (Some req))"

definition awaits :: "main_pc \<Rightarrow> bool \<Rightarrow> bool" where
  "awaits m is_err = (case m of MSelect out err \<Rightarrow> if is_err then err else out | _ \<Rightarrow> False)"

text \<open>A nil result on an error channel makes that channel nil; the loop ends when both are.\<close>

definition close_stream :: "bool \<Rightarrow> main_pc \<Rightarrow> main_pc" where
  "close_stream is_err m =
     (case m of
        MSelect out err \<Rightarrow>
          (let out' = (out \<and> is_err); err' = (err \<and> \<not> is_err)
           in if out' \<or> err' then MSelect out' err' else MFinal)
      | _ \<Rightarrow> m)"

text \<open>
  The actions of the system: something happens to the job; the stream's context is done (the
  client left, or the handler returned); a goroutine goes on alone, sees the context done, or
  hands a message to the main goroutine, which passes it to Send with the given result; the main
  goroutine takes a result from an error channel, sees the context done, or passes the exit code
  to Send. \<open>ss_sent\<close> is what was passed to Send: as a failed Send ends the handler, only
  its last element may not have reached the client, and only after an error.
\<close>

datatype stream_action =
    AJob job_event
  | ACtx go_error
  | AStream bool
  | ACancel bool
  | ARecv bool "go_error option"
  | AErr bool
  | AMainCancel
  | AFinish "go_error option"

fun foreign_event :: "job_event \<Rightarrow> bool" where
  "foreign_event (EvListen ch) = (2 \<le> ch)"
| "foreign_event (EvUnlisten ch) = (2 \<le> ch)"
| "foreign_event e = True"

definition selecting :: "stream_sys \<Rightarrow> bool" where
  "selecting s = (\<exists>out err. ss_main s = MSelect out err)"

definition completed_message :: "int \<Rightarrow> StreamJobOutputResponse" where
  "completed_message code =
     \<lparr>resp_Response = Some (RespCompletedExitCode (word_of_int code)), resp_Past = False\<rparr>"

fun stream_exec :: "bool \<Rightarrow> stream_action \<Rightarrow> stream_sys \<Rightarrow> stream_sys option" where
  "stream_exec fb (AJob e) s =
     (if event_allowed (ss_job s) e \<and> foreign_event e
      then (case job_apply (ss_job s, ss_chans s) e of
              (j, cs) \<Rightarrow> Some (s\<lparr>ss_job := j, ss_chans := cs\<rparr>))
      else None)"
| "stream_exec fb (ACtx e) s = (if ss_ctx s = None then Some (s\<lparr>ss_ctx := Some e\<rparr>) else None)"
| "stream_exec fb (AStream is_err) s =
     (case stream_local fb is_err (ss_job s) (ss_chans s) (ss_past s is_err) (ss_pc s is_err) of
        None \<Rightarrow> None
      | Some (j, cs, past, pc) \<Rightarrow>
          Some (s\<lparr>ss_job := j, ss_chans := cs, ss_past := (ss_past s)(is_err := past),
                 ss_pc := (ss_pc s)(is_err := pc)\<rparr>))"
| "stream_exec fb (ACancel is_err) s =
     (case ss_ctx s of
        None \<Rightarrow> None
      | Some e \<Rightarrow> map_option (\<lambda>pc. s\<lparr>ss_pc := (ss_pc s)(is_err := pc)\<rparr>) (stream_cancel e (ss_pc s is_err)))"
| "stream_exec fb (ARecv is_err r) s =
     (case (selecting s, stream_offer is_err (ss_pc s is_err)) of
        (True, Some (msg, pc)) \<Rightarrow>
          Some (s\<lparr>ss_pc := (ss_pc s)(is_err := pc), ss_sent := ss_sent s @ [msg],
                 ss_main := (if r = None then ss_main s else MReturned r)\<rparr>)
      | _ \<Rightarrow> None)"
| "stream_exec fb (AErr is_err) s =
     (if awaits (ss_main s) is_err
      then (case ss_pc s is_err of
              StDone (Some e) \<Rightarrow> Some (s\<lparr>ss_main := MReturned (Some e)\<rparr>)
            | StDone None \<Rightarrow> Some (s\<lparr>ss_main := close_stream is_err (ss_main s)\<rparr>)
            | _ \<Rightarrow> None)
      else None)"
| "stream_exec fb AMainCancel s =
     (case (selecting s, ss_ctx s) of
        (True, Some e) \<Rightarrow> Some (s\<lparr>ss_main := MReturned (Some e)\<rparr>)
      | _ \<Rightarrow> None)"
| "stream_exec fb (AFinish r) s =
     (if ss_main s = MFinal
      then (case ExitCode (ss_job s) of
              None \<Rightarrow> Some (s\<lparr>ss_main := MPanic\<rparr>)
            | Some c \<Rightarrow> Some (s\<lparr>ss_main := MReturned r, ss_sent := ss_sent s @ [completed_message c]\<rparr>))
      else None)"

text \<open>The state when the goroutines have been started, for a job that has been going on.\<close>

definition stream_start :: "StreamJobOutputRequest \<Rightarrow> job \<Rightarrow> chans \<Rightarrow> stream_sys" where
  "stream_start req j cs =
     \<lparr>ss_job = j, ss_chans = cs, ss_ctx = None,
      ss_pc = (\<lambda>is_err. if wants_stream req is_err then StEager else StOff),
      ss_past = (\<lambda>_. 0), ss_main = MSelect (wants_stream req False) (wants_stream req True),
      ss_sent = []\<rparr>"

definition stream_init :: "StreamJobOutputRequest \<Rightarrow> stream_sys \<Rightarrow> bool" where
  "stream_init req s \<longleftrightarrow>
     (\<exists>j cs. job_wf j \<and> 0 \<notin> set (listener_list j) \<and> 1 \<notin> set (listener_list j) \<and>
        s = stream_start req j cs)"

definition stream_step :: "StreamJobOutputRequest \<Rightarrow> stream_sys \<Rightarrow> stream_sys \<Rightarrow> bool" where
  "stream_step req s t \<longleftrightarrow> (\<exists>a. stream_exec (stream_FromBeginning req) a s = Some t)"

section \<open>What a goroutine has done so far\<close>

text \<open>
  Each message belongs to the past or to the live part of one stream; \<open>part\<close> is the payload
  of one part of one stream, in the order it was sent.
\<close>

definition part :: "bool \<Rightarrow> bool \<Rightarrow> StreamJobOutputResponse list \<Rightarrow> byte list" where
  "part is_err past ms = received is_err (filter (\<lambda>m. resp_Past m = past) ms)"

lemma part_simps [simp]:
  "part is_err past [] = []"
  "part is_err past (ms @ ms') = part is_err past ms @ part is_err past ms'"
  "part is_err past [m] = (if resp_Past m = past then payload is_err m else [])"
  by (simp_all add: part_def)

lemma payload_chunk [simp]:
  "payload is_err (chunk_message is_err' past b) = (if is_err = is_err' then b else [])"
  by (auto simp: payload_def chunk_message_def GetStderr_def GetStdout_def GetResponse_def)

lemma payload_completed [simp]: "payload is_err (completed_message c) = []"
  by (simp add: payload_def completed_message_def GetStderr_def GetStdout_def GetResponse_def)

lemma past_chunk [simp]: "resp_Past (chunk_message is_err past b) = past"
  by (simp add: chunk_message_def)

text \<open>What the past part is once the goroutine is live, and the live part up to an offset.\<close>

definition past_part :: "bool \<Rightarrow> nat \<Rightarrow> byte list \<Rightarrow> byte list" where
  "past_part fb past out = (if fb then take past out else [])"

definition live_part :: "nat \<Rightarrow> nat \<Rightarrow> byte list \<Rightarrow> byte list" where
  "live_part past off out = drop past (take off out)"

text \<open>
  What a goroutine may have handed over of the live part: some of it, in order; and, once it has
  stopped reading, all of it unless its last read filled the buffer.
\<close>

definition stopped_at :: "nat \<Rightarrow> nat \<Rightarrow> byte list \<Rightarrow> bool" where
  "stopped_at past off out \<longleftrightarrow>
     past \<le> off \<and> off \<le> length out \<and> (off = length out \<or> past + chunkSize \<le> off)"

definition live_some :: "nat \<Rightarrow> byte list \<Rightarrow> byte list \<Rightarrow> bool" where
  "live_some past out rl \<longleftrightarrow> past \<le> length out \<and> prefix rl (drop past out)"

definition live_all :: "nat \<Rightarrow> byte list \<Rightarrow> byte list \<Rightarrow> bool" where
  "live_all past out rl \<longleftrightarrow> (\<exists>off. stopped_at past off out \<and> rl = live_part past off out)"

lemma live_some_part: "past \<le> length out \<Longrightarrow> live_some past out (live_part past off out)"
  by (simp add: live_some_def live_part_def drop_take take_is_prefix)

lemma live_some_left: "live_some past out (rl @ b) \<Longrightarrow> live_some past out rl"
  by (auto simp: live_some_def dest: append_prefixD)

lemma live_some_Nil: "past \<le> length out \<Longrightarrow> live_some past out []"
  by (simp add: live_some_def)

lemma live_some_mono: "live_some past out rl \<Longrightarrow> prefix out out' \<Longrightarrow> live_some past out' rl"
  by (auto simp: live_some_def prefix_def)

lemma live_all_some: "live_all past out rl \<Longrightarrow> live_some past out rl"
  by (auto simp: live_all_def stopped_at_def intro: live_some_part)

text \<open>
  The invariant of one goroutine, over what it can see: the stream, the exit code, whether its
  channel is registered, the channel, and the two parts of what it has handed over.
\<close>

definition stream_ok ::
  "bool \<Rightarrow> nat \<Rightarrow> byte list \<Rightarrow> int option \<Rightarrow> bool \<Rightarrow> chan \<Rightarrow> stream_pc \<Rightarrow> byte list \<Rightarrow> byte list \<Rightarrow> bool" where
  "stream_ok fb past out code listening ch pc rp rl =
     (case pc of
        StOff \<Rightarrow> rp = [] \<and> rl = []
      | StEager \<Rightarrow> rp = [] \<and> rl = []
      | StPast off \<Rightarrow> fb \<and> off \<le> past \<and> past \<le> length out \<and> rp = take off out \<and> rl = []
      | StPastSend off b \<Rightarrow>
          fb \<and> off \<le> past \<and> past \<le> length out \<and> rp @ b = take off out \<and> rl = []
      | StListen \<Rightarrow> past \<le> length out \<and> rp = past_part fb past out \<and> rl = []
      | StRead off \<Rightarrow> past \<le> off \<and> off \<le> length out \<and> listening \<and> chan_cap ch = 2 \<and>
          rp = past_part fb past out \<and> rl = live_part past off out
      | StSend off b c \<Rightarrow> past \<le> off \<and> off \<le> length out \<and> listening \<and> chan_cap ch = 2 \<and>
          rp = past_part fb past out \<and> rl @ b = live_part past off out \<and>
          (c \<noteq> None \<longrightarrow> code \<noteq> None \<and> stopped_at past off out)
      | StWait off \<Rightarrow> past \<le> off \<and> off \<le> length out \<and> listening \<and> chan_cap ch = 2 \<and>
          rp = past_part fb past out \<and> rl = live_part past off out \<and>
          (chan_buf ch = [] \<longrightarrow> off = length out \<and> code = None)
      | StUnlisten e \<Rightarrow> rp = past_part fb past out \<and> live_some past out rl \<and>
          (e = None \<longrightarrow> code \<noteq> None \<and> live_all past out rl)
      | StDone e \<Rightarrow>
          (if e = None then code \<noteq> None \<and> rp = past_part fb past out \<and> live_all past out rl
           else prefix rp (past_part fb past out) \<and> live_some past out rl \<and>
                (rl = [] \<or> rp = past_part fb past out))
      | StPanic \<Rightarrow> False)"

text \<open>The job may go on while the goroutine does not move.\<close>

lemma stream_ok_mono:
  assumes "stream_ok fb past out code listening ch pc rp rl"
    and "prefix out out'" and "code \<noteq> None \<Longrightarrow> out' = out \<and> code' = code"
    and "chan_cap ch' = chan_cap ch"
    and "\<And>off. pc = StWait off \<Longrightarrow> chan_buf ch' = [] \<Longrightarrow> chan_buf ch = [] \<and> out' = out \<and> code' = code"
  shows "stream_ok fb past out' code' listening ch' pc rp rl"
proof -
  from assms(2) have len: "length out \<le> length out'" by (rule prefix_length_le)
  have tk: "take n out' = take n out" if "n \<le> length out" for n
    using assms(2) that by (rule prefix_take_same)
  have pp: "past_part fb past out' = past_part fb past out" if "past \<le> length out"
    using tk that by (simp add: past_part_def)
  have lp: "live_part past n out' = live_part past n out" if "n \<le> length out" for n
    using tk that by (simp add: live_part_def)
  have ls: "live_some past out rl \<Longrightarrow> live_some past out' rl"
    using assms(2) live_some_mono by blast
  have lb: "live_some past out rl \<Longrightarrow> past \<le> length out"
    by (simp add: live_some_def)
  show ?thesis
  proof (cases "code = None")
    case True
    with assms(1,4,5) len tk pp lp ls lb show ?thesis
      by (cases pc) (auto simp: stream_ok_def split: if_splits)
  next
    case False
    with assms(3) have "out' = out" "code' = code" by auto
    with assms(1,4,5) show ?thesis
      by (cases pc) (auto simp: stream_ok_def)
  qed
qed

text \<open>A goroutine only fails with the error of the context.\<close>

definition failed_with :: "stream_pc \<Rightarrow> go_error option" where
  "failed_with pc = (case pc of StDone r \<Rightarrow> r | StUnlisten r \<Rightarrow> r | _ \<Rightarrow> None)"

section \<open>The steps of a goroutine keep its invariant\<close>

text \<open>The invariant of goroutine \<open>e\<close>, given the job, the channels and where it is.\<close>

abbreviation goroutine_ok ::
  "bool \<Rightarrow> bool \<Rightarrow> job \<Rightarrow> chans \<Rightarrow> nat \<Rightarrow> stream_pc \<Rightarrow> byte list \<Rightarrow> byte list \<Rightarrow> bool" where
  "goroutine_ok fb e j cs past pc rp rl \<equiv>
     stream_ok fb past (output_of e j) (exitCode j) (listener_of e \<in> set (listener_list j))
       (cs (listener_of e)) pc rp rl"

lemma job_listen_fields [simp]:
  "output_of e (AddUpdateListener l j) = output_of e j"
  "output_of e (RemoveUpdateListener l j) = output_of e j"
  "exitCode (AddUpdateListener l j) = exitCode j"
  "exitCode (RemoveUpdateListener l j) = exitCode j"
  by (simp_all add: output_of_def AddUpdateListener_def RemoveUpdateListener_def Let_def)

lemma job_wf_listen [simp]:
  "job_wf j \<Longrightarrow> job_wf (AddUpdateListener l j)" "job_wf j \<Longrightarrow> job_wf (RemoveUpdateListener l j)"
  using job_apply_wf [of j no_chans "EvListen l"] job_apply_wf [of j no_chans "EvUnlisten l"] by simp_all

lemma past_read:
  assumes "off < past" and "past \<le> length out" and "n = (if past - off < chunkSize then past - off else chunkSize)"
  shows "0 < n" "off + n \<le> past" "take off out @ take n (drop off out) = take (off + n) out"
    "length (take n (drop off out)) = n"
  using assms by (auto simp: chunkSize_def take_drop_chunk)

lemma live_read:
  assumes "past \<le> off" and "off \<le> length out" and "c = take chunkSize (drop off out)"
  shows "off + length c \<le> length out" "live_part past off out @ c = live_part past (off + length c) out"
    "stopped_at past (off + length c) out" "c = [] \<longleftrightarrow> off = length out"
proof -
  show l: "off + length c \<le> length out" using assms by simp
  have "take off out @ c = take (off + length c) out"
    unfolding assms(3) by (auto simp: take_drop_chunk min_def)
  moreover have "past \<le> length (take off out)" using assms by simp
  ultimately show "live_part past off out @ c = live_part past (off + length c) out"
    unfolding live_part_def by (metis drop_append diff_is_0_eq' drop0)
  show "stopped_at past (off + length c) out"
    using assms l by (auto simp: stopped_at_def)
  show "c = [] \<longleftrightarrow> off = length out"
    using assms by (auto simp: chunkSize_def)
qed

lemma eager_step:
  "stream_local fb e j cs past StEager =
     Some (j, cs, length (output_of e j), if fb then StPast 0 else StListen)"
  by (simp add: stream_local_def read_fn_eq readOutput_empty_buffer)

lemma past_step:
  assumes "off < past" and "past \<le> length (output_of e j)"
    and "n = (if past - off < chunkSize then past - off else chunkSize)"
  shows "stream_local fb e j cs past (StPast off) =
    Some (j, cs, past, StPastSend (off + n) (take n (drop off (output_of e j))))"
proof -
  note r = past_read [OF assms]
  have "replicate n (0::byte) \<noteq> []" using r(1) by simp
  then show ?thesis
    using assms(1) readOutput_in_range [of "int off" e j "replicate n 0"] assms(2) r(4)
    by (simp add: stream_local_def read_fn_eq Let_def assms(3) [symmetric])
qed

lemma live_read_step:
  assumes "off \<le> length (output_of e j)" and "c = take chunkSize (drop off (output_of e j))"
  shows "stream_local fb e j cs past (StRead off) = Some (j, cs, past,
     if c \<noteq> [] then StSend (off + length c) c (exitCode j)
     else if exitCode j \<noteq> None then StUnlisten None else StWait off)"
proof -
  have b: "replicate chunkSize (0::byte) \<noteq> []" by (simp add: chunkSize_def)
  have "take (min chunkSize (length (output_of e j) - off)) (drop off (output_of e j)) = c"
    "length c = min chunkSize (length (output_of e j) - off)"
    using assms(2) by (auto simp: min_def)
  with readOutput_in_range [OF _ _ b, of "int off" e j] assms(1)
  have "readOutput j e (replicate chunkSize 0) (int off) =
      Ret (length c, length (output_of e j), exitCode j, None, c @ drop (length c) (replicate chunkSize 0))"
    by (simp add: Let_def)
  then show ?thesis
    by (simp add: stream_local_def read_fn_eq)
qed

lemma goroutine_local:
  assumes "goroutine_ok fb e j cs past pc rp rl" and "job_wf j"
    and "stream_local fb e j cs past pc = Some (j', cs', past', pc')"
  shows "goroutine_ok fb e j' cs' past' pc' rp rl"
proof (cases pc)
  case StEager
  with assms show ?thesis
    by (auto simp: eager_step stream_ok_def past_part_def split: if_splits)
next
  case (StPast off)
  show ?thesis
  proof (cases "off < past")
    case True
    from StPast assms(1) have p: "past \<le> length (output_of e j)" by (simp add: stream_ok_def)
    with True StPast assms show ?thesis
      using past_read [OF True p refl]
      by (auto simp: past_step [OF True p refl] stream_ok_def)
  next
    case False
    with StPast assms show ?thesis
      by (auto simp: stream_local_def stream_ok_def past_part_def)
  qed
next
  case StListen
  with assms show ?thesis
    by (auto simp: stream_local_def stream_ok_def live_part_def)
next
  case (StRead off)
  with assms(1) have o: "off \<le> length (output_of e j)" "past \<le> off" by (auto simp: stream_ok_def)
  define c where c: "c = take chunkSize (drop off (output_of e j))"
  note r = live_read [OF o(2,1) c]
  show ?thesis
  proof (cases "c = []")
    case True
    with r have "stopped_at past off (output_of e j)" "off = length (output_of e j)" by simp_all
    with StRead assms o True live_read_step [OF o(1) c, of fb cs past] show ?thesis
      by (auto simp: stream_ok_def live_all_def live_some_part split: if_splits)
  next
    case False
    with StRead assms o r live_read_step [OF o(1) c, of fb cs past] show ?thesis
      by (auto simp: stream_ok_def)
  qed
next
  case (StWait off)
  with assms show ?thesis
    by (auto simp: stream_local_def stream_ok_def split: list.splits)
next
  case (StUnlisten r)
  with assms show ?thesis
    by (auto simp: stream_local_def stream_ok_def)
qed (use assms in \<open>auto simp: stream_local_def\<close>)

lemma local_failure:
  assumes "goroutine_ok fb e j cs past pc rp rl"
    and "stream_local fb e j cs past pc = Some (j', cs', past', pc')"
  shows "failed_with pc' = None \<or> failed_with pc' = failed_with pc"
proof (cases pc)
  case (StPast off)
  show ?thesis
  proof (cases "off < past")
    case True
    from StPast assms(1) have p: "past \<le> length (output_of e j)" by (simp add: stream_ok_def)
    from StPast assms(2) past_step [OF True p refl, of fb cs] show ?thesis
      by (auto simp: failed_with_def)
  next
    case False
    with StPast assms(2) show ?thesis by (auto simp: stream_local_def failed_with_def)
  qed
next
  case (StRead off)
  with assms(1) have o: "off \<le> length (output_of e j)" by (simp add: stream_ok_def)
  from StRead assms(2) live_read_step [OF o refl, of fb cs past] show ?thesis
    by (auto simp: failed_with_def split: if_splits)
qed (use assms(2) in \<open>auto simp: stream_local_def failed_with_def read_fn_eq readOutput_empty_buffer
      split: list.splits if_splits\<close>)

text \<open>What the other goroutine sees of such a step.\<close>

lemma local_frame:
  assumes "stream_local fb e j cs past pc = Some (j', cs', past', pc')"
  shows "output_of x j' = output_of x j" "exitCode j' = exitCode j" "job_wf j \<Longrightarrow> job_wf j'"
    "l \<noteq> listener_of e \<Longrightarrow> cs' l = cs l"
    "l \<noteq> listener_of e \<Longrightarrow> l \<in> set (listener_list j') \<longleftrightarrow> l \<in> set (listener_list j)"
    "pc \<noteq> StOff" "pc' \<noteq> StOff"
  using assms
  by (auto simp: stream_local_def Let_def split: stream_pc.splits go.splits option.splits list.splits if_splits)

lemma job_apply_listeners:
  "set (listener_list (fst (job_apply s ev))) =
    (case ev of
       EvListen ch \<Rightarrow> insert ch (set (listener_list (fst s)))
     | EvUnlisten ch \<Rightarrow> set (listener_list (fst s)) - {ch}
     | _ \<Rightarrow> set (listener_list (fst s)))"
proof (cases s)
  case (Pair j cs)
  then show ?thesis
    by (cases ev) (simp_all, simp_all add: updateOutput_def markDone_def Stop_request_def listener_list_def)
qed

text \<open>The job's events: a goroutine that waits is woken by whatever it has to see.\<close>

lemma goroutine_job:
  assumes "goroutine_ok fb e j cs past pc rp rl" and "job_wf j"
    and "event_allowed j ev" and "foreign_event ev" and "job_apply (j, cs) ev = (j', cs')"
  shows "goroutine_ok fb e j' cs' past pc rp rl"
proof -
  have ext: "job_extends j j'"
    using job_apply_extends [OF assms(3), of cs] assms(5) by simp
  have lis: "listener_of e \<in> set (listener_list j') \<longleftrightarrow> listener_of e \<in> set (listener_list j)"
    using assms(4) job_apply_listeners [of "(j, cs)" ev] assms(5)
    by (cases ev) (auto simp: listener_of_def)
  have out: "output_of e j' = output_of e j @ written e [ev]"
    using output_of_job_apply [of e "(j, cs)" ev] assms(5) by simp
  have dist: "distinct (listener_list j)" using assms(2) by (simp add: job_wf_def)
  have cap: "chan_cap (cs' (listener_of e)) = chan_cap (cs (listener_of e))"
    using assms(5) by (cases ev) (auto simp: updateOutput_def markDone_def split: if_splits)
  have buf: "chan_buf (cs (listener_of e)) = [] \<and> output_of e j' = output_of e j \<and> exitCode j' = exitCode j"
    if "pc = StWait off" "chan_buf (cs' (listener_of e)) = []" for off
  proof -
    from assms(1) that(1) have l: "listener_of e \<in> set (listener_list j)"
      and c: "0 < chan_cap (cs (listener_of e))" by (auto simp: stream_ok_def)
    show ?thesis
    proof (cases "(\<exists>b x. ev = EvOutput b x) \<or> (\<exists>d. ev = EvDone d)")
      case True
      then have "cs' = snd (job_apply (j, cs) ev)" using assms(5) by simp
      with True that(2) l c dist show ?thesis
        by (auto simp: notify_apply try_send_nonempty)
    next
      case False
      with assms(5) that(2) out show ?thesis
        by (cases ev) (auto simp: job_defs Let_def)
    qed
  qed
  have "stream_ok fb past (output_of e j') (exitCode j') (listener_of e \<in> set (listener_list j))
      (cs' (listener_of e)) pc rp rl"
    by (rule stream_ok_mono [OF assms(1)])
      (use ext cap buf job_extends_output [OF ext] job_extends_frozen [OF ext] in auto)
  then show ?thesis by (simp add: lis)
qed

text \<open>Handing a message over, and seeing the context done.\<close>

lemma goroutine_offer:
  assumes "stream_ok fb past out code lis ch pc rp rl" and "stream_offer e pc = Some (m, pc')"
  shows "stream_ok fb past out code lis ch pc'
      (rp @ (if resp_Past m then payload e m else [])) (rl @ (if resp_Past m then [] else payload e m))"
    and "resp_Past m \<Longrightarrow> fb \<and> rl = []"
    and "payload (\<not> e) m = []" and "pc \<noteq> StOff" and "pc' \<noteq> StOff" and "pc \<noteq> StDone r"
    and "resp_Response m \<noteq> Some (RespCompletedExitCode c)"
  using assms
  by (auto simp: stream_offer_def stream_ok_def live_some_part live_all_def chunk_message_def
      payload_def GetStdout_def GetStderr_def GetResponse_def
      split: stream_pc.splits if_splits)

lemma live_some_sending:
  "rl @ b = live_part past off out \<Longrightarrow> past \<le> length out \<Longrightarrow> live_some past out rl"
  by (metis live_some_left live_some_part)

lemma prefix_past_sending:
  "rp @ b = take off out \<Longrightarrow> off \<le> past \<Longrightarrow> prefix rp (take past out)"
  by (metis append_prefixD le_iff_add prefix_def take_add)

lemma goroutine_drop:
  assumes "stream_ok fb past out code lis ch pc rp rl" and "stream_cancel e pc = Some pc'"
  shows "stream_ok fb past out code lis ch pc' rp rl" and "pc \<noteq> StOff" and "pc' \<noteq> StOff" and "pc \<noteq> StDone r"
  using assms
  by (auto simp: stream_cancel_def stream_ok_def past_part_def live_some_part live_some_Nil
      intro: live_some_sending prefix_past_sending split: stream_pc.splits)

section \<open>The invariant of the system\<close>

definition no_completion :: "StreamJobOutputResponse list \<Rightarrow> bool" where
  "no_completion ms \<longleftrightarrow> (\<forall>m \<in> set ms. \<forall>c. resp_Response m \<noteq> Some (RespCompletedExitCode c))"

definition stream_over :: "stream_sys \<Rightarrow> bool" where
  "stream_over s \<longleftrightarrow> (\<forall>e. ss_pc s e = StOff \<or> ss_pc s e = StDone None)"

definition main_ok :: "stream_sys \<Rightarrow> bool" where
  "main_ok s =
     (case ss_main s of
        MSelect out err \<Rightarrow>
          (out \<or> err) \<and> no_completion (ss_sent s) \<and>
          (\<forall>e. awaits (ss_main s) e \<longrightarrow> ss_pc s e \<noteq> StOff) \<and>
          (\<forall>e. \<not> awaits (ss_main s) e \<longrightarrow> ss_pc s e = StOff \<or> ss_pc s e = StDone None)
      | MFinal \<Rightarrow> no_completion (ss_sent s) \<and> stream_over s
      | MReturned None \<Rightarrow> stream_over s \<and>
          (\<exists>ms c. ss_sent s = ms @ [completed_message c] \<and> exitCode (ss_job s) = Some c \<and> no_completion ms)
      | MReturned (Some e) \<Rightarrow> no_completion (butlast (ss_sent s))
      | MPanic \<Rightarrow> False)"

definition stream_inv :: "StreamJobOutputRequest \<Rightarrow> stream_sys \<Rightarrow> bool" where
  "stream_inv req s \<longleftrightarrow>
     job_wf (ss_job s) \<and>
     (\<forall>e. goroutine_ok (stream_FromBeginning req) e (ss_job s) (ss_chans s) (ss_past s e) (ss_pc s e)
            (part e True (ss_sent s)) (part e False (ss_sent s))) \<and>
     (\<forall>e. received e (ss_sent s) = part e True (ss_sent s) @ part e False (ss_sent s)) \<and>
     (\<forall>m \<in> set (ss_sent s). resp_Past m \<longrightarrow> stream_FromBeginning req) \<and>
     (\<forall>e. ss_pc s e = StOff \<longleftrightarrow> \<not> wants_stream req e) \<and>
     (\<forall>e r. failed_with (ss_pc s e) = Some r \<longrightarrow> ss_ctx s = Some r) \<and> main_ok s"

lemma stream_invD:
  assumes "stream_inv req s"
  shows "job_wf (ss_job s)"
    and "goroutine_ok (stream_FromBeginning req) e (ss_job s) (ss_chans s) (ss_past s e) (ss_pc s e)
           (part e True (ss_sent s)) (part e False (ss_sent s))"
    and "received e (ss_sent s) = part e True (ss_sent s) @ part e False (ss_sent s)"
    and "ss_pc s e = StOff \<longleftrightarrow> \<not> wants_stream req e" and "main_ok s"
    and "failed_with (ss_pc s e) = Some r \<Longrightarrow> ss_ctx s = Some r"
  using assms by (simp_all add: stream_inv_def)

lemma wants_some: "wants_stream req False \<or> wants_stream req True"
  using stream_limits_exclusive [of "Some req"] by (auto simp: wants_stream_def)

lemma stream_init_inv: "stream_init req s \<Longrightarrow> stream_inv req s"
  using wants_some [of req]
  by (auto simp: stream_init_def stream_start_def stream_inv_def stream_ok_def main_ok_def
      no_completion_def awaits_def failed_with_def split: if_splits)

lemma listener_of_eq [simp]: "listener_of e = listener_of e' \<longleftrightarrow> e = e'"
  by (auto simp: listener_of_def)

text \<open>The main goroutine's part, when goroutine \<open>e\<close> moves and had not finished.\<close>

lemma main_ok_move:
  assumes "main_ok s" and "ss_pc s e \<noteq> StOff" and "ss_pc s e \<noteq> StDone None"
    and "ss_main t = ss_main s" and "ss_pc t = (ss_pc s)(e := pc)" and "pc \<noteq> StOff"
    and "ss_sent t = ss_sent s \<or> selecting s \<and> (no_completion (ss_sent s) \<longrightarrow> no_completion (ss_sent t))"
  shows "main_ok t"
  using assms
  by (auto simp: main_ok_def stream_over_def selecting_def split: main_pc.splits option.splits)

lemma main_ok_ctx [simp]: "main_ok (s\<lparr>ss_ctx := c\<rparr>) = main_ok s"
  by (simp add: main_ok_def stream_over_def split: main_pc.splits option.splits)

lemma inv_job:
  assumes "stream_inv req s" and "stream_exec fb (AJob ev) s = Some t"
  shows "stream_inv req t"
proof -
  note inv = stream_invD [OF assms(1)]
  obtain j' cs' where ev: "event_allowed (ss_job s) ev" "foreign_event ev"
    and a: "job_apply (ss_job s, ss_chans s) ev = (j', cs')"
    and t: "t = s\<lparr>ss_job := j', ss_chans := cs'\<rparr>"
    using assms(2) by (auto split: if_splits prod.splits)
  have "job_wf j'"
    using job_apply_wf [OF inv(1), of "ss_chans s" ev] a by simp
  moreover have "exitCode j' = exitCode (ss_job s)" if "exitCode (ss_job s) \<noteq> None"
    using job_apply_extends [OF ev(1), of "ss_chans s"] a that by (simp add: job_extends_def)
  then have "main_ok t"
    using inv(5) t
    by (auto simp: main_ok_def stream_over_def split: main_pc.splits option.splits)
  ultimately show ?thesis
    using assms(1) goroutine_job [OF inv(2,1) ev a] by (simp add: stream_inv_def t)
qed

lemma inv_stream:
  assumes "stream_inv req s" and "stream_exec (stream_FromBeginning req) (AStream e) s = Some t"
  shows "stream_inv req t"
proof -
  note inv = stream_invD [OF assms(1)]
  obtain j' cs' past' pc' where
    l: "stream_local (stream_FromBeginning req) e (ss_job s) (ss_chans s) (ss_past s e) (ss_pc s e) =
        Some (j', cs', past', pc')"
    and t: "t = s\<lparr>ss_job := j', ss_chans := cs', ss_past := (ss_past s)(e := past'),
        ss_pc := (ss_pc s)(e := pc')\<rparr>"
    using assms(2) by (auto split: option.splits)
  note f = local_frame [OF l]
  have own: "goroutine_ok (stream_FromBeginning req) e j' cs' past' pc'
      (part e True (ss_sent s)) (part e False (ss_sent s))"
    using goroutine_local [OF inv(2,1) l] .
  have other: "goroutine_ok (stream_FromBeginning req) x j' cs' (ss_past s x) (ss_pc s x)
      (part x True (ss_sent s)) (part x False (ss_sent s))" if "x \<noteq> e" for x
    using inv(2) [of x] f(1,2,4,5) that by simp
  have notdone: "ss_pc s e \<noteq> StDone None"
    using l by (auto simp: stream_local_def)
  have m: "main_ok t"
    by (rule main_ok_move [OF inv(5) f(6) notdone, of _ pc']) (simp_all add: t f(7))
  have fail: "failed_with (ss_pc t x) = Some r \<longrightarrow> ss_ctx t = Some r" for x r
    using inv(6) [of x] local_failure [OF inv(2) l] by (auto simp: t)
  show ?thesis
    using own other m fail inv(3,4) f(3) [OF inv(1)] f(6,7) assms(1)
    by (auto simp: stream_inv_def t)
qed

lemma no_completion_butlast: "no_completion ms \<Longrightarrow> no_completion (butlast ms)"
  by (auto simp: no_completion_def dest: in_set_butlastD)

lemma inv_recv:
  assumes "stream_inv req s" and "stream_exec fb (ARecv e r) s = Some t"
  shows "stream_inv req t"
proof -
  note inv = stream_invD [OF assms(1)]
  obtain m pc' where sel: "selecting s" and o: "stream_offer e (ss_pc s e) = Some (m, pc')"
    and t: "t = s\<lparr>ss_pc := (ss_pc s)(e := pc'), ss_sent := ss_sent s @ [m],
       ss_main := (if r = None then ss_main s else MReturned r)\<rparr>"
    using assms(2) by (auto split: if_splits option.splits bool.splits)
  note g = goroutine_offer [OF inv(2) o]
  have main: "main_ok t"
  proof (cases r)
    case None
    show ?thesis
      by (rule main_ok_move [OF inv(5) g(4,6), of _ pc'])
        (use g(5,7) None sel in \<open>auto simp: t no_completion_def\<close>)
  next
    case (Some err)
    with inv(5) sel show ?thesis by (auto simp: t main_ok_def selecting_def)
  qed
  have own: "goroutine_ok (stream_FromBeginning req) e (ss_job t) (ss_chans t) (ss_past t e) (ss_pc t e)
      (part e True (ss_sent t)) (part e False (ss_sent t))"
    using g(1) by (cases "resp_Past m") (simp_all add: t)
  have other: "goroutine_ok (stream_FromBeginning req) x (ss_job t) (ss_chans t) (ss_past t x) (ss_pc t x)
      (part x True (ss_sent t)) (part x False (ss_sent t))" if "x \<noteq> e" for x
    using inv(2) [of x] g(3) that by (cases x; cases e) (auto simp: t)
  have recv: "received x (ss_sent t) = part x True (ss_sent t) @ part x False (ss_sent t)" for x
    using inv(3) [of x] g(2,3) by (cases "x = e"; cases x; cases e) (auto simp: t)
  have ok: "goroutine_ok (stream_FromBeginning req) x (ss_job t) (ss_chans t) (ss_past t x) (ss_pc t x)
      (part x True (ss_sent t)) (part x False (ss_sent t))" for x
    by (cases "x = e") (use own other in simp_all)
  have flags: "\<forall>m \<in> set (ss_sent t). resp_Past m \<longrightarrow> stream_FromBeginning req"
    using assms(1) g(2) by (auto simp: t stream_inv_def)
  have off: "ss_pc t x = StOff \<longleftrightarrow> \<not> wants_stream req x" for x
    using inv(4) [of x] g(4,5) by (auto simp: t)
  have fail: "failed_with (ss_pc t x) = Some f \<longrightarrow> ss_ctx t = Some f" for x f
    using inv(6) [of x] o
    by (auto simp: t stream_offer_def failed_with_def split: stream_pc.splits if_splits)
  have "job_wf (ss_job t)" using inv(1) by (simp add: t)
  with ok recv flags off fail main show ?thesis unfolding stream_inv_def by blast
qed

lemma inv_drop:
  assumes "stream_inv req s" and "stream_exec fb (ACancel e) s = Some t"
  shows "stream_inv req t"
proof -
  note inv = stream_invD [OF assms(1)]
  obtain err pc' where c: "stream_cancel err (ss_pc s e) = Some pc'" and x: "ss_ctx s = Some err"
    and t: "t = s\<lparr>ss_pc := (ss_pc s)(e := pc')\<rparr>"
    using assms(2) by (auto split: option.splits)
  note g = goroutine_drop [OF inv(2) c]
  have "main_ok t"
    by (rule main_ok_move [OF inv(5) g(2,4), of _ pc']) (simp_all add: t g(3))
  moreover have "failed_with pc' = Some err"
    using c by (auto simp: stream_cancel_def failed_with_def split: stream_pc.splits)
  ultimately show ?thesis
    using g assms(1) x by (auto simp: stream_inv_def t)
qed

lemma inv_main:
  assumes "stream_inv req s" and "main_ok (s\<lparr>ss_main := m\<rparr>)"
  shows "stream_inv req (s\<lparr>ss_main := m\<rparr>)"
  using assms by (simp add: stream_inv_def)

lemma inv_err:
  assumes "stream_inv req s" and "stream_exec fb (AErr e) s = Some t"
  shows "stream_inv req t"
proof -
  note inv = stream_invD [OF assms(1)]
  from assms(2) have aw: "awaits (ss_main s) e" by (simp split: if_splits)
  then obtain a b where m: "ss_main s = MSelect a b"
    by (auto simp: awaits_def split: main_pc.splits)
  from assms(2) aw obtain r where pc: "ss_pc s e = StDone r"
    by (auto split: stream_pc.splits)
  have t: "t = s\<lparr>ss_main := (case r of Some err \<Rightarrow> MReturned (Some err) | None \<Rightarrow> close_stream e (ss_main s))\<rparr>"
    using assms(2) aw pc by (auto split: option.splits)
  have "main_ok t"
  proof (cases r)
    case None
    with t pc m inv(5) show ?thesis
      by (cases e; cases a; cases b)
        (auto simp: main_ok_def close_stream_def awaits_def stream_over_def all_bool_eq)
  next
    case (Some err)
    with t m inv(5) show ?thesis by (simp add: main_ok_def no_completion_butlast)
  qed
  with inv_main [OF assms(1)] t show ?thesis by simp
qed

lemma stream_over_exit:
  assumes "stream_inv req s" and "stream_over s"
  shows "exitCode (ss_job s) \<noteq> None"
proof -
  obtain e where "wants_stream req e" using wants_some by blast
  with stream_invD(2,4) [OF assms(1), of e] assms(2) show ?thesis
    by (auto simp: stream_over_def stream_ok_def)
qed

lemma inv_rest:
  assumes "stream_inv req s" and "stream_exec fb a s = Some t"
    and "a = AMainCancel \<or> a = AFinish r \<or> a = ACtx err"
  shows "stream_inv req t"
proof -
  note inv = stream_invD [OF assms(1)]
  consider "a = ACtx err" | "a = AMainCancel" | "a = AFinish r"
    using assms(3) by blast
  then show ?thesis
  proof cases
    case 1
    with assms(2) have "ss_ctx s = None" "t = s\<lparr>ss_ctx := Some err\<rparr>" by (auto split: if_splits)
    with assms(1) show ?thesis by (simp add: stream_inv_def)
  next
    case 2
    with assms(2) obtain e where "selecting s" "t = s\<lparr>ss_main := MReturned (Some e)\<rparr>"
      by (auto split: bool.splits option.splits)
    with inv(5) inv_main [OF assms(1)] show ?thesis
      by (auto simp: main_ok_def selecting_def no_completion_butlast)
  next
    case 3
    with assms(2) have m: "ss_main s = MFinal" by (simp split: if_splits)
    then have ov: "stream_over s" "no_completion (ss_sent s)" using inv(5) by (simp_all add: main_ok_def)
    from stream_over_exit [OF assms(1) ov(1)] obtain c where c: "exitCode (ss_job s) = Some c"
      by blast
    from 3 m c assms(2) have t:
      "t = s\<lparr>ss_main := MReturned r, ss_sent := ss_sent s @ [completed_message c]\<rparr>"
      by (simp add: ExitCode_def)
    have "main_ok t"
      using ov c by (cases r) (auto simp: main_ok_def stream_over_def t)
    moreover have "resp_Past (completed_message c) = False" by (simp add: completed_message_def)
    ultimately show ?thesis
      using assms(1) by (auto simp: stream_inv_def t)
  qed
qed

lemma stream_exec_inv:
  assumes "stream_inv req s" and "stream_exec (stream_FromBeginning req) a s = Some t"
  shows "stream_inv req t"
  using assms
  by (cases a) (blast intro: inv_job inv_stream inv_recv inv_drop inv_err inv_rest)+

interpretation streams: invariant_system "stream_init req" "stream_step req" "stream_inv req" for req
  by unfold_locales (auto simp: stream_step_def intro: stream_init_inv stream_exec_inv)

section \<open>Completion\<close>

text \<open>
  A step of the server alone: nothing more happens to the job, the context is not done, and Send
  succeeds. With the exit code set, every such step that is taken brings the handler nearer to its
  end by the measure below, and there always is one.
\<close>

definition server_step :: "StreamJobOutputRequest \<Rightarrow> stream_sys \<Rightarrow> stream_sys \<Rightarrow> bool" where
  "server_step req s t \<longleftrightarrow>
     (\<exists>a \<in> {AFinish None} \<union> range AStream \<union> range AErr \<union> range (\<lambda>e. ARecv e None).
        stream_exec (stream_FromBeginning req) a s = Some t)"

definition pc_measure :: "nat \<Rightarrow> nat \<Rightarrow> stream_pc \<Rightarrow> nat" where
  "pc_measure len past pc =
     (case pc of
        StEager \<Rightarrow> 2 * len + 12
      | StPast off \<Rightarrow> 2 * (past - off) + 9
      | StPastSend off b \<Rightarrow> 2 * (past - off) + 10
      | StListen \<Rightarrow> 8
      | StWait off \<Rightarrow> 7
      | StSend off b c \<Rightarrow> if c = None then 7 else 4
      | StRead off \<Rightarrow> 6
      | StUnlisten r \<Rightarrow> 3
      | _ \<Rightarrow> 0)"

lemma local_progress:
  assumes "goroutine_ok fb e j cs past pc rp rl" and "exitCode j \<noteq> None"
    and "pc \<noteq> StOff" and "\<forall>r. pc \<noteq> StDone r" and "stream_offer e pc = None"
  shows "\<exists>j' cs' past' pc'. stream_local fb e j cs past pc = Some (j', cs', past', pc') \<and>
    pc_measure (length (output_of e j')) past' pc' < pc_measure (length (output_of e j)) past pc"
proof (cases pc)
  case StEager
  then show ?thesis by (simp add: eager_step pc_measure_def)
next
  case (StPast off)
  show ?thesis
  proof (cases "off < past")
    case True
    from StPast assms(1) have p: "past \<le> length (output_of e j)" by (simp add: stream_ok_def)
    from StPast past_step [OF True p refl, of fb cs] past_read [OF True p refl] show ?thesis
      by (auto simp: pc_measure_def)
  next
    case False
    with StPast show ?thesis by (simp add: stream_local_def pc_measure_def)
  qed
next
  case (StRead off)
  with assms(1) have o: "off \<le> length (output_of e j)" by (simp add: stream_ok_def)
  from StRead assms(2) live_read_step [OF o refl, of fb cs past] show ?thesis
    by (auto simp: pc_measure_def)
next
  case (StWait off)
  with assms(1,2) obtain u us where "chan_buf (cs (listener_of e)) = u # us"
    by (cases "chan_buf (cs (listener_of e))") (auto simp: stream_ok_def)
  with StWait show ?thesis by (simp add: stream_local_def pc_measure_def)
qed (use assms in \<open>auto simp: eager_step stream_local_def pc_measure_def stream_offer_def stream_ok_def\<close>)

lemma offer_progress:
  assumes "stream_ok fb past out code lis ch pc rp rl" and "stream_offer e pc = Some (m, pc')"
  shows "pc_measure len past pc' < pc_measure len past pc"
  using assms by (auto simp: stream_offer_def pc_measure_def split: stream_pc.splits if_splits)

definition main_measure :: "main_pc \<Rightarrow> nat" where
  "main_measure m = (case m of MSelect out err \<Rightarrow> 1 + of_bool out + of_bool err | MFinal \<Rightarrow> 1 | _ \<Rightarrow> 0)"

definition stream_measure :: "stream_sys \<Rightarrow> nat" where
  "stream_measure s = main_measure (ss_main s) +
     (\<Sum>e\<in>UNIV. pc_measure (length (output_of e (ss_job s))) (ss_past s e) (ss_pc s e))"

lemma measure_bool: "stream_measure s = main_measure (ss_main s) +
    pc_measure (length (stdout (ss_job s))) (ss_past s False) (ss_pc s False) +
    pc_measure (length (stderr (ss_job s))) (ss_past s True) (ss_pc s True)"
  by (simp add: stream_measure_def UNIV_bool output_of_def)

lemma measure_move:
  assumes "ss_main t = ss_main s"
    and "\<And>x. x \<noteq> e \<Longrightarrow> output_of x (ss_job t) = output_of x (ss_job s) \<and>
       ss_past t x = ss_past s x \<and> ss_pc t x = ss_pc s x"
    and "pc_measure (length (output_of e (ss_job t))) (ss_past t e) (ss_pc t e) <
         pc_measure (length (output_of e (ss_job s))) (ss_past s e) (ss_pc s e)"
  shows "stream_measure t < stream_measure s"
  using assms(1,3) assms(2) [of "\<not> e"]
  by (cases e) (auto simp: measure_bool output_of_def)

lemma select_progress:
  assumes inv: "stream_inv req s" and sel: "selecting s" and ex: "exitCode (ss_job s) = Some c"
    and ctx: "ss_ctx s = None"
  shows "\<exists>t. server_step req s t \<and> stream_measure t < stream_measure s \<and> ss_ctx t = None \<and>
    exitCode (ss_job t) = Some c \<and> (selecting t \<or> ss_main t = MFinal)"
proof -
  let ?fb = "stream_FromBeginning req"
  note I = stream_invD [OF inv]
  from sel I(5) obtain e where aw: "awaits (ss_main s) e"
    by (auto simp: selecting_def main_ok_def awaits_def split: if_splits)
      (metis (full_types))+
  with sel I(5) have off: "ss_pc s e \<noteq> StOff"
    by (auto simp: selecting_def main_ok_def)
  show ?thesis
  proof (cases "stream_offer e (ss_pc s e)")
    case (Some mp)
    then obtain m pc' where o: "stream_offer e (ss_pc s e) = Some (m, pc')" by (cases mp) auto
    let ?t = "s\<lparr>ss_pc := (ss_pc s)(e := pc'), ss_sent := ss_sent s @ [m], ss_main := ss_main s\<rparr>"
    have "stream_exec ?fb (ARecv e None) s = Some ?t" using sel o by simp
    then have "server_step req s ?t" unfolding server_step_def by blast
    moreover have "stream_measure ?t < stream_measure s"
      by (rule measure_move [of _ _ e]) (use offer_progress [OF I(2) o] in simp_all)
    ultimately show ?thesis using sel ex ctx by (intro exI [of _ ?t]) (simp add: selecting_def)
  next
    case None
    show ?thesis
    proof (cases "\<exists>r. ss_pc s e = StDone r")
      case True
      then obtain r where r: "ss_pc s e = StDone r" by blast
      with I(6) [of e] ctx have d: "ss_pc s e = StDone None"
        by (cases r) (simp_all add: failed_with_def)
      let ?t = "s\<lparr>ss_main := close_stream e (ss_main s)\<rparr>"
      have "stream_exec ?fb (AErr e) s = Some ?t" using aw d by simp
      then have "server_step req s ?t" unfolding server_step_def by blast
      moreover obtain a b where "ss_main s = MSelect a b" using sel by (auto simp: selecting_def)
      with aw have "stream_measure ?t < stream_measure s \<and> (selecting ?t \<or> ss_main ?t = MFinal)"
        by (cases e; cases a; cases b)
          (auto simp: measure_bool main_measure_def close_stream_def awaits_def selecting_def)
      ultimately show ?thesis using ex ctx by (intro exI [of _ ?t]) simp
    next
      case False
      then obtain j' cs' past' pc' where
        l: "stream_local ?fb e (ss_job s) (ss_chans s) (ss_past s e) (ss_pc s e) = Some (j', cs', past', pc')"
        and lt: "pc_measure (length (output_of e j')) past' pc' <
           pc_measure (length (output_of e (ss_job s))) (ss_past s e) (ss_pc s e)"
        using local_progress [of ?fb "ss_past s e" e "ss_job s" "ss_chans s" "ss_pc s e",
            OF I(2) _ off _ None] ex by blast
      let ?t = "s\<lparr>ss_job := j', ss_chans := cs', ss_past := (ss_past s)(e := past'),
          ss_pc := (ss_pc s)(e := pc')\<rparr>"
      have "stream_exec ?fb (AStream e) s = Some ?t" using l by simp
      then have "server_step req s ?t" unfolding server_step_def by blast
      moreover have "stream_measure ?t < stream_measure s"
        by (rule measure_move [of _ _ e]) (use lt local_frame(1) [OF l] in simp_all)
      ultimately show ?thesis
        using sel ex ctx local_frame(2) [OF l] by (intro exI [of _ ?t]) (simp add: selecting_def)
    qed
  qed
qed

lemma server_step_step: "server_step req s t \<Longrightarrow> stream_step req s t"
  unfolding server_step_def stream_step_def by blast

lemma server_completes:
  assumes "stream_inv req s" and "selecting s \<or> ss_main s = MFinal" and "exitCode (ss_job s) = Some c"
    and "ss_ctx s = None"
  shows "\<exists>t. (server_step req)\<^sup>*\<^sup>* s t \<and> ss_main t = MReturned None"
  using assms
proof (induction "stream_measure s" arbitrary: s rule: less_induct)
  case less
  show ?case
  proof (cases "ss_main s = MFinal")
    case True
    let ?t = "s\<lparr>ss_main := MReturned None, ss_sent := ss_sent s @ [completed_message c]\<rparr>"
    have "stream_exec (stream_FromBeginning req) (AFinish None) s = Some ?t"
      using True less.prems(3) by (simp add: ExitCode_def)
    then have "server_step req s ?t" unfolding server_step_def by blast
    then show ?thesis by (intro exI [of _ ?t]) auto
  next
    case False
    with less.prems obtain t where t: "server_step req s t" "stream_measure t < stream_measure s"
      "ss_ctx t = None" "exitCode (ss_job t) = Some c" "selecting t \<or> ss_main t = MFinal"
      using select_progress [OF less.prems(1) _ less.prems(3,4)] by blast
    have "stream_inv req t"
      using t(1) less.prems(1) unfolding server_step_def by (blast intro: stream_exec_inv)
    with less.hyps [OF t(2)] t obtain u where "(server_step req)\<^sup>*\<^sup>* t u" "ss_main u = MReturned None"
      by blast
    with t(1) show ?thesis by (meson converse_rtranclp_into_rtranclp)
  qed
qed

section \<open>What was sent\<close>

text \<open>What the client asked for: all of the output, or what comes after the stream was opened.\<close>

definition asked_output :: "bool \<Rightarrow> nat \<Rightarrow> byte list \<Rightarrow> byte list" where
  "asked_output fb past out = (if fb then out else drop past out)"

lemma parts_prefix:
  "live_some past out rl \<Longrightarrow> prefix (past_part fb past out @ rl) (asked_output fb past out)"
  by (auto simp: live_some_def past_part_def asked_output_def prefix_def)
    (metis append.assoc append_take_drop_id)

lemma prefix_asked_take: "prefix rp (take past out) \<Longrightarrow> prefix rp (asked_output True past out)"
  by (metis asked_output_def prefix_order.trans take_is_prefix)

lemma goroutine_prefix:
  assumes "stream_ok fb past out code lis ch pc rp rl"
  shows "prefix (rp @ rl) (asked_output fb past out)"
proof (cases pc)
  case (StPast off)
  with assms show ?thesis by (simp add: stream_ok_def asked_output_def take_is_prefix)
next
  case (StPastSend off b)
  with assms show ?thesis
    by (auto simp: stream_ok_def asked_output_def) (metis append_prefixD take_is_prefix)
next
  case (StDone r)
  with assms live_all_some [of past out rl] parts_prefix [of past out rl fb] show ?thesis
    by (auto simp: stream_ok_def split: if_splits)
qed (use assms in \<open>auto simp: stream_ok_def intro: parts_prefix [OF live_some_part]
      parts_prefix [OF live_some_sending] parts_prefix [OF live_some_Nil, simplified] parts_prefix\<close>)

lemma goroutine_past:
  "stream_ok fb past out code lis ch pc rp rl \<Longrightarrow> prefix rp (past_part fb past out)"
  by (cases pc) (auto simp: stream_ok_def past_part_def intro: prefix_past_sending
      elim: prefix_past_sending [of _ "[]", simplified] split: if_splits)

lemma goroutine_order:
  "stream_ok fb past out code lis ch pc rp rl \<Longrightarrow> rl \<noteq> [] \<Longrightarrow> rp = past_part fb past out"
  by (cases pc) (auto simp: stream_ok_def split: if_splits)

lemma all_delivered:
  assumes "live_all past out rl" and "length out \<le> past + chunkSize"
  shows "past_part fb past out @ rl = asked_output fb past out"
  using assms by (auto simp: live_all_def stopped_at_def past_part_def asked_output_def live_part_def)

section \<open>Runs\<close>

abbreviation stream_run :: "bool \<Rightarrow> stream_action list \<Rightarrow> stream_sys \<Rightarrow> stream_sys option" where
  "stream_run fb \<equiv> run_actions (stream_exec fb)"

interpretation stream_actions: action_system "stream_exec (stream_FromBeginning req)" "stream_step req" for req
  by unfold_locales (auto simp: stream_step_def)

section \<open>The moment a stream is opened\<close>

text \<open>
  The goroutine of an output opens it with its first step, the eager read. How much there was of
  the output in that state of a run is told here from the job, not from what the goroutine keeps.
\<close>

definition opened_len :: "bool \<Rightarrow> bool \<Rightarrow> stream_action list \<Rightarrow> stream_sys \<Rightarrow> nat" where
  "opened_len fb e as s0 = length (output_of e (ss_job (before_first (stream_exec fb) (AStream e) as s0)))"

lemma opened_len_now: "opened_len fb e (AStream e # as) s0 = length (output_of e (ss_job s0))"
  by (simp add: opened_len_def before_first_now)

definition unopened :: "stream_pc \<Rightarrow> bool" where
  "unopened pc \<longleftrightarrow> pc = StOff \<or> pc = StEager"

lemma offer_cancel_opened:
  "stream_offer e pc = Some (m, pc') \<Longrightarrow> \<not> unopened pc \<and> \<not> unopened pc'"
  "stream_cancel err pc = Some pc' \<Longrightarrow> \<not> unopened pc \<and> \<not> unopened pc'"
  by (auto simp: stream_offer_def stream_cancel_def unopened_def split: stream_pc.splits if_splits)

lemma local_opened:
  "stream_local fb e j cs past pc = Some (j', cs', past', pc') \<Longrightarrow> \<not> unopened pc \<Longrightarrow>
   past' = past \<and> \<not> unopened pc'"
  "stream_local fb e j cs past pc = Some (j', cs', past', pc') \<Longrightarrow> unopened pc \<Longrightarrow>
   past' = length (output_of e j) \<and> \<not> unopened pc'"
  by (auto simp: unopened_def eager_step)
    (auto simp: stream_local_def Let_def split: stream_pc.splits go.splits option.splits list.splits if_splits)

lemma unopened_step:
  assumes "stream_exec fb a s = Some t" and "a \<noteq> AStream e"
  shows "unopened (ss_pc t e) = unopened (ss_pc s e)" "ss_past t e = ss_past s e"
  using assms
  by (cases a; auto dest: offer_cancel_opened
      split: if_splits option.splits bool.splits stream_pc.splits prod.splits)+

lemma opening_step:
  assumes "stream_exec fb (AStream e) s = Some t"
  shows "\<not> unopened (ss_pc t e)"
    and "ss_past t e = (if unopened (ss_pc s e) then length (output_of e (ss_job s)) else ss_past s e)"
  using assms local_opened [of fb e "ss_job s" "ss_chans s" "ss_past s e" "ss_pc s e"]
  by (cases "unopened (ss_pc s e)"; fastforce split: option.splits)+

lemma opened_stays:
  assumes "stream_exec fb a s = Some t" and "\<not> unopened (ss_pc s e)"
  shows "\<not> unopened (ss_pc t e) \<and> ss_past t e = ss_past s e"
  using assms unopened_step [OF assms(1), of e] opening_step [of fb e s t] by (cases "a = AStream e") auto

lemma opened_past:
  assumes "stream_init req s0" and "stream_run fb as s0 = Some s"
  shows "unopened (ss_pc s e) \<or> ss_past s e = opened_len fb e as s0"
proof -
  have "unopened (ss_pc s e) \<or> (\<not> unopened (ss_pc s e) \<and> ss_past s e = opened_len fb e as s0)"
    unfolding opened_len_def
  proof (rule first_action_settles [where late = "\<lambda>n s. \<not> unopened (ss_pc s e) \<and> ss_past s e = n"
        and f = "\<lambda>u. length (output_of e (ss_job u))", OF assms(2)])
    show "unopened (ss_pc s0 e)"
      using assms(1) by (auto simp: stream_init_def stream_start_def unopened_def)
  next
    fix a u v
    assume "unopened (ss_pc u e)" "stream_exec fb a u = Some v" "a \<noteq> AStream e"
    then show "unopened (ss_pc v e)" by (simp add: unopened_step(1))
  next
    fix u v
    assume "unopened (ss_pc u e)" "stream_exec fb (AStream e) u = Some v"
    then show "\<not> unopened (ss_pc v e) \<and> ss_past v e = length (output_of e (ss_job u))"
      by (simp add: opening_step del: stream_exec.simps)
  next
    fix a n u v
    assume "\<not> unopened (ss_pc u e) \<and> ss_past u e = n" "stream_exec fb a u = Some v"
    then show "\<not> unopened (ss_pc v e) \<and> ss_past v e = n" using opened_stays by blast
  qed
  then show ?thesis by blast
qed

lemma step_output_grows:
  assumes "stream_exec fb a s = Some t"
  shows "prefix (output_of e (ss_job s)) (output_of e (ss_job t))"
proof (cases a)
  case (AJob ev)
  with assms show ?thesis
    using output_of_job_apply [of e "(ss_job s, ss_chans s)" ev] by (auto split: if_splits prod.splits)
next
  case (AStream x)
  with assms show ?thesis by (auto simp: local_frame(1) split: option.splits)
qed (use assms in \<open>auto split: if_splits option.splits bool.splits stream_pc.splits\<close>)

lemma run_output_grows:
  "stream_run fb as s = Some t \<Longrightarrow> prefix (output_of e (ss_job s)) (output_of e (ss_job t))"
  by (induction as arbitrary: s)
    (auto split: option.splits dest: step_output_grows intro: prefix_order.trans)

text \<open>What the job had when the handler was called is there when the stream is opened, and stays.\<close>

lemma opened_len_bounds:
  assumes "stream_run fb as s0 = Some s"
  shows "prefix (output_of e (ss_job s0)) (take (opened_len fb e as s0) (output_of e (ss_job s)))"
    and "opened_len fb e as s0 \<le> length (output_of e (ss_job s))"
proof -
  let ?u = "before_first (stream_exec fb) (AStream e) as s0"
  note r = before_first_run [OF assms, of "AStream e"]
  have u: "prefix (output_of e (ss_job s0)) (output_of e (ss_job ?u))"
    "prefix (output_of e (ss_job ?u)) (output_of e (ss_job s))"
    using r run_output_grows by blast+
  then have "take (opened_len fb e as s0) (output_of e (ss_job s)) = output_of e (ss_job ?u)"
    by (auto simp: opened_len_def prefix_def)
  with u show "prefix (output_of e (ss_job s0)) (take (opened_len fb e as s0) (output_of e (ss_job s)))"
    "opened_len fb e as s0 \<le> length (output_of e (ss_job s))"
    by (simp_all add: opened_len_def prefix_length_le)
qed

abbreviation stdout_req :: StreamJobOutputRequest where
  "stdout_req \<equiv> \<lparr>stream_JobId = ''i'', stream_Limit = Some (OnlyStdout True), stream_FromBeginning = True\<rparr>"

abbreviation stdout_start :: stream_sys where
  "stdout_start \<equiv> stream_start stdout_req (newJob 0 [] ''i'' ''c'' []) no_chans"

lemma stdout_start_init: "stream_init stdout_req stdout_start"
  by (auto simp: stream_init_def newJob_def listener_list_def job_wf_def intro!: exI)

lemma stdout_start_reach: "reach (stream_init stdout_req) (stream_step stdout_req) stdout_start"
  by (rule reach.reach_init) (rule stdout_start_init)

lemma stdout_run_reach:
  "stream_run True as stdout_start = Some t \<Longrightarrow> reach (stream_init stdout_req) (stream_step stdout_req) t"
  by (rule stream_actions.run_reach [OF _ stdout_start_reach]) simp

lemma wants_stdout [simp]: "wants_stream stdout_req is_err \<longleftrightarrow> \<not> is_err"
  by (simp add: wants_stream_def GetOnlyStdout_def GetOnlyStderr_def GetStreamLimit_def)

lemma selecting_MSelect: "ss_main s = MSelect a b \<Longrightarrow> selecting s"
  by (auto simp: selecting_def)

text \<open>The stream is opened, the job writes \<open>xs\<close> and ends, and only then is it read again.\<close>

abbreviation late_read :: "byte list \<Rightarrow> stream_action list" where
  "late_read xs \<equiv> [AStream False, AStream False, AStream False,
     AJob (EvOutput False xs), AJob (EvDone 0), AStream False]"

lemma chunkSize_pos [simp]: "0 < chunkSize" "chunkSize \<noteq> 0"
  by (simp_all add: chunkSize_def)

lemma late_read_run:
  assumes "xs \<noteq> []"
  shows "\<exists>t. stream_run True (late_read xs) stdout_start = Some t \<and>
    ss_pc t = (\<lambda>e. if e then StOff else StSend (length (take chunkSize xs)) (take chunkSize xs) (Some 0)) \<and>
    ss_main t = MSelect True False \<and> ss_sent t = [] \<and> ss_past t = (\<lambda>_. 0) \<and> ss_ctx t = None \<and>
    stdout (ss_job t) = xs \<and> exitCode (ss_job t) = Some 0"
proof -
  let ?j = "(AddUpdateListener 0 (newJob 0 [] ''i'' ''c'' []))\<lparr>stdout := xs, exitCode := Some 0, doneCtx := True\<rparr>"
  have c: "take chunkSize xs = take chunkSize (drop 0 (output_of False ?j))"
    by (simp add: output_of_def)
  have o: "0 \<le> length (output_of False ?j)" by simp
  have ne: "take chunkSize xs \<noteq> []" using assms by simp
  note r = live_read_step [OF o c, of True]
  show ?thesis
    using r ne
    by (simp add: stream_start_def eager_step stream_local_def [of _ _ _ _ _ "StPast _"]
        stream_local_def [of _ _ _ _ _ StListen] updateOutput_def markDone_def listener_of_def
        newJob_def output_of_def AddUpdateListener_def fun_eq_iff)
qed

lemma late_read_ends:
  assumes "xs \<noteq> []"
  obtains as t where "stream_run True (AStream False # as) stdout_start = Some t" "ss_main t = MReturned None"
    "received False (ss_sent t) = take chunkSize xs" "stdout (ss_job t) = xs"
proof -
  from late_read_run [OF assms] obtain s where s: "stream_run True (late_read xs) stdout_start = Some s"
    "ss_pc s = (\<lambda>e. if e then StOff else StSend (length (take chunkSize xs)) (take chunkSize xs) (Some 0))"
    "ss_main s = MSelect True False" "ss_sent s = []" "ss_past s = (\<lambda>_. 0)"
    "stdout (ss_job s) = xs" "exitCode (ss_job s) = Some 0" by blast
  let ?rest = "[ARecv False None, AStream False, AErr False, AFinish None]"
  have "\<exists>t. stream_run True ?rest s = Some t \<and> ss_main t = MReturned None \<and>
      received False (ss_sent t) = take chunkSize xs \<and> stdout (ss_job t) = xs"
    using s(2-)
    by (simp add: selecting_MSelect [OF s(3)] stream_offer_def stream_local_def awaits_def close_stream_def
        ExitCode_def RemoveUpdateListener_def fun_eq_iff)
  then obtain t where t: "stream_run True ?rest s = Some t" "ss_main t = MReturned None"
    "received False (ss_sent t) = take chunkSize xs" "stdout (ss_job t) = xs" by blast
  have "stream_run True (AStream False # tl (late_read xs) @ ?rest) stdout_start = Some t"
    using s(1) t(1) run_actions_append [of "stream_exec True" "late_read xs" ?rest stdout_start]
    by (simp only: append_Cons list.sel option.case)
  with t(2-) that show thesis by blast
qed

lemma late_read_finish:
  assumes "xs \<noteq> []"
  obtains t where "reach (stream_init stdout_req) (stream_step stdout_req) t" "ss_main t = MReturned None"
    "received False (ss_sent t) = take chunkSize xs" "stdout (ss_job t) = xs"
  using late_read_ends [OF assms] stdout_run_reach by metis

text \<open>What was sent of a stream so far, and how a stream that ended well was closed.\<close>

lemma stream_sent_prefix:
  assumes "stream_inv req s"
  shows "prefix (received e (ss_sent s))
      (asked_output (stream_FromBeginning req) (ss_past s e) (output_of e (ss_job s)))"
    and "\<not> wants_stream req e \<Longrightarrow> received e (ss_sent s) = []"
proof -
  note I = stream_invD [OF assms]
  show "prefix (received e (ss_sent s))
      (asked_output (stream_FromBeginning req) (ss_past s e) (output_of e (ss_job s)))"
    using goroutine_prefix [OF I(2) [of e]] I(3) [of e] by simp
  show "received e (ss_sent s) = []" if "\<not> wants_stream req e"
    using I(2) [of e] I(3) [of e] I(4) [of e] that by (simp add: stream_ok_def)
qed

lemma stream_ended:
  assumes "stream_inv req s" and "ss_main s = MReturned None"
  shows "\<exists>ms c. ss_sent s = ms @ [completed_message c] \<and> exitCode (ss_job s) = Some c \<and>
    no_completion ms \<and>
    (wants_stream req e \<longrightarrow> length (output_of e (ss_job s)) \<le> ss_past s e + chunkSize \<longrightarrow>
       received e (ss_sent s) =
         asked_output (stream_FromBeginning req) (ss_past s e) (output_of e (ss_job s)))"
proof -
  note I = stream_invD [OF assms(1)]
  from I(5) assms(2) have over: "stream_over s"
    and last: "\<exists>ms c. ss_sent s = ms @ [completed_message c] \<and> exitCode (ss_job s) = Some c \<and> no_completion ms"
    by (auto simp: main_ok_def)
  have "received e (ss_sent s) =
      asked_output (stream_FromBeginning req) (ss_past s e) (output_of e (ss_job s))"
    if "wants_stream req e" "length (output_of e (ss_job s)) \<le> ss_past s e + chunkSize"
  proof -
    from that(1) over I(4) [of e] have "ss_pc s e = StDone None" by (auto simp: stream_over_def)
    with I(2) [of e] I(3) [of e] all_delivered [OF _ that(2)] show ?thesis
      by (simp add: stream_ok_def)
  qed
  with last show ?thesis by blast
qed

text \<open>
  The same, told from the moment the stream was opened: whatever an output's goroutine keeps, it has
  sent nothing before that moment, and from then on it goes by the length the output had then.
\<close>

lemma run_inv:
  assumes "stream_init req s0" and "stream_run (stream_FromBeginning req) as s0 = Some s"
  shows "stream_inv req s"
  using streams.inv_reach stream_actions.run_reach [OF assms(2)] assms(1) by (blast intro: reach_init)

lemma unopened_silent:
  "stream_inv req s \<Longrightarrow> unopened (ss_pc s e) \<Longrightarrow>
   part e True (ss_sent s) = [] \<and> part e False (ss_sent s) = [] \<and> received e (ss_sent s) = []"
  using stream_invD(2,3) [of req s e] by (auto simp: unopened_def stream_ok_def)

lemma sent_from_opening:
  assumes "stream_inv req s"
    and "unopened (ss_pc s e) \<or> ss_past s e = n"
  shows "prefix (received e (ss_sent s)) (asked_output (stream_FromBeginning req) n (output_of e (ss_job s)))"
    and "prefix (part e True (ss_sent s)) (past_part (stream_FromBeginning req) n (output_of e (ss_job s)))"
    and "part e False (ss_sent s) \<noteq> [] \<Longrightarrow>
      part e True (ss_sent s) = past_part (stream_FromBeginning req) n (output_of e (ss_job s))"
    and "ss_main s = MReturned None \<Longrightarrow> wants_stream req e \<Longrightarrow> ss_past s e = n"
proof -
  note I = stream_invD [OF assms(1)]
  have "ss_main s = MReturned None \<Longrightarrow> wants_stream req e \<Longrightarrow> \<not> unopened (ss_pc s e)"
    using I(4) [of e] I(5) by (auto simp: main_ok_def stream_over_def unopened_def)
  with assms(2) show "ss_main s = MReturned None \<Longrightarrow> wants_stream req e \<Longrightarrow> ss_past s e = n" by blast
  show "prefix (received e (ss_sent s)) (asked_output (stream_FromBeginning req) n (output_of e (ss_job s)))"
    "prefix (part e True (ss_sent s)) (past_part (stream_FromBeginning req) n (output_of e (ss_job s)))"
    "part e False (ss_sent s) \<noteq> [] \<Longrightarrow>
      part e True (ss_sent s) = past_part (stream_FromBeginning req) n (output_of e (ss_job s))"
    using assms(2) stream_sent_prefix(1) [OF assms(1), of e] goroutine_past [OF I(2) [of e]]
      goroutine_order [OF I(2) [of e]] unopened_silent [OF assms(1), of e] by auto
qed

section \<open>Properties\<close>

text \<open>C12: At every moment of every run, with \<open>n\<close> the length an output had when its goroutine was about to
  take its first step: what was sent of the output is a gap-free prefix of what the client asked for,
  all of the output, or everything after its first \<open>n\<close> bytes. Chunks marked past come before live
  ones; together they are a prefix of the first \<open>n\<close> bytes, and exactly these once a live chunk was
  sent. The first \<open>n\<close> bytes include all there was when the handler was called. Nothing is marked past
  unless asked from the beginning, and an output that was not asked for is not sent.\<close>

theorem stream_delivers_in_order:
  assumes "stream_init req s0" and "stream_run (stream_FromBeginning req) as s0 = Some s"
    and "n = opened_len (stream_FromBeginning req) e as s0"
  shows "prefix (received e (ss_sent s))
      (asked_output (stream_FromBeginning req) n (output_of e (ss_job s))) \<and>
    received e (ss_sent s) = part e True (ss_sent s) @ part e False (ss_sent s) \<and>
    prefix (part e True (ss_sent s)) (past_part (stream_FromBeginning req) n (output_of e (ss_job s))) \<and>
    (part e False (ss_sent s) \<noteq> [] \<longrightarrow> part e True (ss_sent s) =
       past_part (stream_FromBeginning req) n (output_of e (ss_job s))) \<and>
    prefix (output_of e (ss_job s0)) (take n (output_of e (ss_job s))) \<and>
    n \<le> length (output_of e (ss_job s)) \<and>
    (\<forall>m \<in> set (ss_sent s). resp_Past m \<longrightarrow> stream_FromBeginning req) \<and>
    (\<not> wants_stream req e \<longrightarrow> received e (ss_sent s) = [])"
proof -
  have inv: "stream_inv req s" using assms(1,2) by (rule run_inv)
  note o = sent_from_opening [OF inv opened_past [OF assms(1,2)], of e, folded assms(3)]
  show ?thesis
    using o(1-3) opened_len_bounds [OF assms(2), of e] stream_sent_prefix(2) [OF inv, of e]
      stream_invD(3) [OF inv, of e] inv
    by (simp add: stream_inv_def assms(3))
qed

theorem stream_delivers_in_order_witness:
  "\<exists>s :: stream_sys. ss_main s = MReturned None \<and> prefix (received False (ss_sent s)) (stdout (ss_job s)) \<and>
     part False True (ss_sent s) = []"
proof -
  obtain as t where t: "stream_run True (AStream False # as) stdout_start = Some t" "ss_main t = MReturned None"
    using late_read_ends [of "[7]"] by blast
  have "stream_init stdout_req stdout_start" by (rule stdout_start_init)
  from stream_delivers_in_order [OF this _ refl, of "AStream False # as" t False] t(1)
  have "prefix (received False (ss_sent t)) (stdout (ss_job t)) \<and> part False True (ss_sent t) = []"
    by (auto simp: asked_output_def past_part_def opened_len_now stream_start_def newJob_def output_of_def
        simp del: run_actions.simps)
  with t(2) show ?thesis by blast
qed

text \<open>C11: When the handler ends well, the last message, and only it, carries the exit code, which
  is the job's; no error is reported. Each output asked for was sent whole (all of it, or all that
  followed the opening) if at most one chunk of it, 1024 bytes, appeared after its goroutine was about
  to take its first step in that run.\<close>

theorem stream_completion:
  assumes "stream_init req s0" and "stream_run (stream_FromBeginning req) as s0 = Some s"
    and "n = opened_len (stream_FromBeginning req) e as s0"
    and "ss_main s = MReturned None"
  shows "\<exists>ms c. ss_sent s = ms @ [completed_message c] \<and> exitCode (ss_job s) = Some c \<and>
    no_completion ms \<and>
    (wants_stream req e \<longrightarrow> length (output_of e (ss_job s)) \<le> n + chunkSize \<longrightarrow>
       received e (ss_sent s) =
         asked_output (stream_FromBeginning req) n (output_of e (ss_job s)))"
proof -
  have inv: "stream_inv req s" using assms(1,2) by (rule run_inv)
  note o = sent_from_opening(4) [OF inv opened_past [OF assms(1,2)] assms(4), of e, folded assms(3)]
  from stream_ended [OF inv assms(4), of e] o show ?thesis by metis
qed

theorem stream_completion_witness:
  "\<exists>s :: stream_sys. ss_main s = MReturned None \<and> received False (ss_sent s) = [7] \<and> exitCode (ss_job s) \<noteq> None"
proof -
  obtain as t where t: "stream_run True (AStream False # as) stdout_start = Some t" "ss_main t = MReturned None"
    "stdout (ss_job t) = [7]"
    using late_read_ends [of "[7]"] by blast
  have "stream_init stdout_req stdout_start" by (rule stdout_start_init)
  from stream_completion [OF this _ refl t(2), of "AStream False # as" False] t
  have "received False (ss_sent t) = [7] \<and> exitCode (ss_job t) \<noteq> None"
    by (auto simp: asked_output_def output_of_def chunkSize_def simp del: run_actions.simps)
  with t(2) show ?thesis by blast
qed

text \<open>C23: A goroutine that waits with an empty channel has missed nothing: its listener is
  registered, it has read to the end of its output, and the job has no exit code yet.\<close>

theorem stream_no_lost_wakeup:
  assumes "reach (stream_init req) (stream_step req) s"
    and "ss_pc s e = StWait off" and "chan_buf (ss_chans s (listener_of e)) = []"
  shows "listener_of e \<in> set (listener_list (ss_job s)) \<and> off = length (output_of e (ss_job s)) \<and>
    exitCode (ss_job s) = None"
  using stream_invD(2) [OF streams.inv_reach [OF assms(1)], of e] assms(2,3)
  by (simp add: stream_ok_def)

theorem stream_no_lost_wakeup_witness:
  "\<exists>(s :: stream_sys) off. ss_pc s False = StWait off \<and> off = length (stdout (ss_job s)) \<and> exitCode (ss_job s) = None"
proof -
  let ?j = "AddUpdateListener 0 (newJob 0 [] ''i'' ''c'' [])"
  have o: "0 \<le> length (output_of False ?j)" and c: "[] = take chunkSize (drop 0 (output_of False ?j))"
    by (simp_all add: output_of_def newJob_def AddUpdateListener_def)
  have "\<exists>t. stream_run True [AStream False, AStream False, AStream False, AStream False] stdout_start = Some t \<and>
      ss_pc t False = StWait 0 \<and> chan_buf (ss_chans t (listener_of False)) = []"
    using live_read_step [OF o c, of True]
    by (simp add: stream_start_def eager_step stream_local_def [of _ _ _ _ _ "StPast _"]
        stream_local_def [of _ _ _ _ _ StListen] listener_of_def newJob_def output_of_def
        AddUpdateListener_def)
  then obtain t where t: "stream_run True [AStream False, AStream False, AStream False, AStream False]
      stdout_start = Some t" "ss_pc t False = StWait 0" "chan_buf (ss_chans t (listener_of False)) = []"
    by blast
  from t(1) have "reach (stream_init stdout_req) (stream_step stdout_req) t"
    by (rule stdout_run_reach)
  from stream_no_lost_wakeup [OF this t(2,3)] t(2) show ?thesis
    by (intro exI [of _ t] exI [of _ 0]) (simp add: output_of_def)
qed

text \<open>Once the job has an exit code, the stream can always be brought to its end by the server's
  own steps, whatever state it is in: no interleaving leaves its goroutines waiting for each other.\<close>

theorem stream_can_complete:
  assumes "reach (stream_init req) (stream_step req) s"
    and "exitCode (ss_job s) \<noteq> None" and "ss_ctx s = None" and "selecting s \<or> ss_main s = MFinal"
  shows "\<exists>t. (server_step req)\<^sup>*\<^sup>* s t \<and> ss_main t = MReturned None"
  using server_completes [OF streams.inv_reach [OF assms(1)] assms(4) _ assms(3)] assms(2) by blast

theorem stream_can_complete_witness:
  "\<exists>s t. ss_main s = MSelect True False \<and> (server_step stdout_req)\<^sup>*\<^sup>* s t \<and> ss_main t = MReturned None"
proof -
  from late_read_run [of "[7]"] obtain s where s:
    "stream_run True (late_read [7]) stdout_start = Some s" "ss_main s = MSelect True False"
    "ss_ctx s = None" "exitCode (ss_job s) = Some 0" by blast
  from s(1) have "reach (stream_init stdout_req) (stream_step stdout_req) s"
    by (rule stdout_run_reach)
  from stream_can_complete [OF this] s show ?thesis by (auto simp: selecting_def)
qed

text \<open>C24: The handler can end well, exit code and all, although the client asked for the output from
  the beginning and did not get its end: when more than one chunk appears after the stream was
  opened and the job ends before it is read, the goroutine stops after the first chunk, because it
  looks at the exit code before it has drained the output.\<close>

theorem stream_can_drop_tail:
  "\<exists>s. reach (stream_init stdout_req) (stream_step stdout_req) s \<and> ss_main s = MReturned None \<and>
     wants_stream stdout_req False \<and> length (stdout (ss_job s)) = 1025 \<and>
     received False (ss_sent s) = take 1024 (stdout (ss_job s)) \<and>
     received False (ss_sent s) \<noteq> stdout (ss_job s)"
proof -
  define xs :: "byte list" where "xs = replicate 1025 7"
  have l: "length xs = 1025" and "xs \<noteq> []" unfolding xs_def by simp_all
  obtain t where t: "reach (stream_init stdout_req) (stream_step stdout_req) t" "ss_main t = MReturned None"
    "received False (ss_sent t) = take chunkSize xs" "stdout (ss_job t) = xs"
    using late_read_finish [OF \<open>xs \<noteq> []\<close>] .
  have "length (take chunkSize xs) \<noteq> length xs" using l by (simp add: chunkSize_def)
  then have "take chunkSize xs \<noteq> xs" by metis
  with t l show ?thesis by (intro exI [of _ t]) (simp add: chunkSize_def)
qed

end
