(* ===== verification/ClientCmd.thy ===== *)
theory ClientCmd
  imports ServerCmd JobStream
begin

text \<open>
  \<open>cmd/client.go\<close>: the commands that talk to a server. Reading the credentials and dialling is
  \<open>dialClient\<close>; each command then makes one request and prints the answer. The gRPC connection
  is a parameter: the function or the list of messages the server answers with. \<open>prototext.Format\<close>
  is the parameter \<open>fmt\<close>. What is printed is a byte list.
\<close>

section \<open>Dialling\<close>

record clientFlags =
  address :: string
  serverCACert :: string
  clientCert :: string
  clientKey :: string

definition dialClient ::
  "'k crypto \<Rightarrow> files \<Rightarrow> (string \<Rightarrow> tls_config \<Rightarrow> go_error + 'conn) \<Rightarrow> clientFlags \<Rightarrow> go_error + 'conn" where
  "dialClient c fs dial f =
     (if address f = [] then Inl (Errorf ''address required'')
      else if serverCACert f = [] then Inl (Errorf ''server CA cert required'')
      else if clientCert f = [] then Inl (Errorf ''client cert required'')
      else if clientKey f = [] then Inl (Errorf ''client key required'')
      else case read_file fs ''reading server CA cert'' (serverCACert f) of
        Inl e \<Rightarrow> Inl e
      | Inr ca \<Rightarrow> (case read_file fs ''reading client cert'' (clientCert f) of
          Inl e \<Rightarrow> Inl e
        | Inr cert \<Rightarrow> (case read_file fs ''reading client key'' (clientKey f) of
            Inl e \<Rightarrow> Inl e
          | Inr key \<Rightarrow> (case MTLSClientCredentials c ca cert key of
              Inl e \<Rightarrow> Inl (Wrapf ''loading credentials'' e)
            | Inr creds \<Rightarrow> (case dial (address f) creds of
                Inl e \<Rightarrow> Inl (Wrapf ''dialing server'' e)
              | Inr conn \<Rightarrow> Inr conn)))))"

section \<open>Trimming\<close>

text \<open>
  \<open>strings.TrimSpace\<close> on bytes: the UTF-8 encodings of the white space of
  \<open>unicode.IsSpace\<close>.
\<close>

definition utf8_spaces :: "byte list list" where
  "utf8_spaces =
     [[9], [10], [11], [12], [13], [32], [0xC2, 0x85], [0xC2, 0xA0], [0xE1, 0x9A, 0x80]] @
     map (\<lambda>b. [0xE2, 0x80, b])
       [0x80, 0x81, 0x82, 0x83, 0x84, 0x85, 0x86, 0x87, 0x88, 0x89, 0x8A, 0xA8, 0xA9, 0xAF] @
     [[0xE2, 0x81, 0x9F], [0xE3, 0x80, 0x80]]"

text \<open>The length of the space a text begins with, zero if it begins with none.\<close>

definition space_at :: "byte list list \<Rightarrow> byte list \<Rightarrow> nat" where
  "space_at spaces xs = (case find (\<lambda>sp. prefix sp xs) spaces of None \<Rightarrow> 0 | Some sp \<Rightarrow> length sp)"

lemma space_at_le: "space_at spaces xs \<le> length xs"
  by (auto simp: space_at_def find_Some_iff dest: prefix_length_le split: option.split)

function trim_start :: "byte list list \<Rightarrow> byte list \<Rightarrow> byte list" where
  "trim_start spaces xs =
     (if space_at spaces xs = 0 then xs else trim_start spaces (drop (space_at spaces xs) xs))"
  by pat_completeness auto
termination
proof (relation "measure (length \<circ> snd)")
  fix spaces and xs :: "byte list"
  assume "space_at spaces xs \<noteq> 0"
  with space_at_le [of spaces xs]
  show "((spaces, drop (space_at spaces xs) xs), spaces, xs) \<in> measure (length \<circ> snd)" by simp
qed simp

declare trim_start.simps [simp del]

definition TrimSpace :: "byte list \<Rightarrow> byte list" where
  "TrimSpace xs = rev (trim_start (map rev utf8_spaces) (rev (trim_start utf8_spaces xs)))"

section \<open>get\<close>

definition bytes_of :: "string \<Rightarrow> byte list" where
  "bytes_of s = map of_char s"

text \<open>The result: the error, and what was printed. The answer is a pointer, as is its job.\<close>

definition print_job ::
  "('ts pb_Job \<Rightarrow> byte list) \<Rightarrow> GetJobRequest \<Rightarrow> 'ts pb_Job option \<Rightarrow> (go_error option \<times> byte list) go" where
  "print_job fmt req job =
     (case job of
        None \<Rightarrow> Panic
      | Some j \<Rightarrow> Ret (None,
          fmt (j\<lparr>pb_Stdout := [], pb_Stderr := []\<rparr>) @
          (if get_IncludeStdout req then bytes_of ''stdout: '' @ TrimSpace (pb_Stdout j) @ [10] else []) @
          (if get_IncludeStderr req then bytes_of ''stderr: '' @ TrimSpace (pb_Stderr j) @ [10] else [])))"

definition getCmd ::
  "go_error + 'conn \<Rightarrow> ('conn \<Rightarrow> GetJobRequest \<Rightarrow> go_error + 'ts pb_Job option) \<Rightarrow>
     ('ts pb_Job \<Rightarrow> byte list) \<Rightarrow> bool \<Rightarrow> bool \<Rightarrow> string \<Rightarrow> (go_error option \<times> byte list) go" where
  "getCmd dialed call fmt out err jobId =
     (case dialed of
        Inl e \<Rightarrow> Ret (Some e, [])
      | Inr conn \<Rightarrow>
          (let req = \<lparr>get_JobId = jobId, get_IncludeStdout = out, get_IncludeStderr = err\<rparr> in
           case call conn req of
             Inl e \<Rightarrow> Ret (Some (Wrapf ''getting job'' e), [])
           | Inr job \<Rightarrow> print_job fmt req job))"

section \<open>stop\<close>

text \<open>
  \<open>stopCmd\<close>: the select takes the answer to StopJob or a signal; a signal cancels the call.
\<close>

datatype 'ts stop_event = StopAnswered "go_error + 'ts pb_Job" | StopSignal

definition stop_request :: "bool \<Rightarrow> string \<Rightarrow> StopJobRequest" where
  "stop_request force jobId = \<lparr>stop_JobId = jobId, stop_Force = force\<rparr>"

definition stopCmd ::
  "go_error + 'conn \<Rightarrow> ('conn \<Rightarrow> StopJobRequest \<Rightarrow> 'ts stop_event) \<Rightarrow>
     ('ts pb_Job \<Rightarrow> byte list) \<Rightarrow> bool \<Rightarrow> string \<Rightarrow> go_error option \<times> byte list" where
  "stopCmd dialed outcome fmt force jobId =
     (case dialed of
        Inl e \<Rightarrow> (Some e, [])
      | Inr conn \<Rightarrow>
          (case outcome conn (stop_request force jobId) of
             StopAnswered (Inl e) \<Rightarrow> (Some (Wrapf ''stopping job'' e), [])
           | StopAnswered (Inr job) \<Rightarrow> (None, fmt job @ [10])
           | StopSignal \<Rightarrow> (Some (Errorf ''signal received, cancelling stop''), [])))"

section \<open>submit\<close>

text \<open>The request made of the flags and the arguments; \<open>cobra\<close> demands at least one argument.\<close>

definition submit_job_request :: "string \<Rightarrow> string \<Rightarrow> string list \<Rightarrow> 'ts SubmitJobRequest" where
  "submit_job_request jobId rootFs args =
     \<lparr>submit_Job = Some \<lparr>pb_Id = jobId, pb_Command = args, pb_RootFs = rootFs, pb_CreatedAt = None,
        pb_Pid = 0, pb_Stdout = [], pb_Stderr = [], pb_ExitCode = None\<rparr>\<rparr>"

definition submitCmd ::
  "go_error + 'conn \<Rightarrow> ('conn \<Rightarrow> 'ts SubmitJobRequest \<Rightarrow> go_error + 'ts pb_Job) \<Rightarrow>
     ('ts pb_Job \<Rightarrow> byte list) \<Rightarrow> string \<Rightarrow> string \<Rightarrow> string list \<Rightarrow> go_error option \<times> byte list" where
  "submitCmd dialed call fmt jobId rootFs args =
     (case dialed of
        Inl e \<Rightarrow> (Some e, [])
      | Inr conn \<Rightarrow>
          (case call conn (submit_job_request jobId rootFs args) of
             Inl e \<Rightarrow> (Some (Wrapf ''submitting job'' e), [])
           | Inr job \<Rightarrow> (None, fmt job @ [10])))"

section \<open>tail\<close>

definition tail_request :: "bool \<Rightarrow> bool \<Rightarrow> bool \<Rightarrow> string \<Rightarrow> go_error + StreamJobOutputRequest" where
  "tail_request noPast onlyStderr stdoutAndStderr jobId =
     (let req = \<lparr>stream_JobId = jobId, stream_Limit = None, stream_FromBeginning = \<not> noPast\<rparr> in
      if onlyStderr then
        if stdoutAndStderr then Inl (Errorf ''cannot provide stderr and stdout-and-stderr'')
        else Inr (req\<lparr>stream_Limit := Some (OnlyStderr True)\<rparr>)
      else if \<not> stdoutAndStderr then Inr (req\<lparr>stream_Limit := Some (OnlyStdout True)\<rparr>)
      else Inr req)"

text \<open>
  The receiving goroutine, over what \<open>Recv\<close> returns one after the other: what it has printed,
  and what it put on \<open>errCh\<close>, if it is finished.
\<close>

fun tail_loop ::
  "(go_error + StreamJobOutputResponse) list \<Rightarrow> byte list \<Rightarrow> byte list \<times> go_error option option" where
  "tail_loop [] printed = (printed, None)"
| "tail_loop (Inl e # rs) printed = (printed, Some (Some e))"
| "tail_loop (Inr resp # rs) printed =
     (case resp_Response resp of
        Some (RespStdout b) \<Rightarrow> tail_loop rs (printed @ b)
      | Some (RespStderr b) \<Rightarrow> tail_loop rs (printed @ b)
      | Some (RespCompletedExitCode c) \<Rightarrow> (printed, Some None)
      | None \<Rightarrow> tail_loop rs printed)"

text \<open>
  The command on a stream that returned \<open>rs\<close> up to the moment the select fires; the select waits
  (\<open>None\<close>) while there is neither an entry on \<open>errCh\<close> nor a signal. With both, either branch
  may be taken: \<open>prefer_signal\<close>.
\<close>

definition tail_select :: "bool \<Rightarrow> bool \<Rightarrow> go_error option option \<Rightarrow> go_error option option" where
  "tail_select signal prefer_signal errCh =
     (case errCh of
        None \<Rightarrow> if signal then Some None else None
      | Some err \<Rightarrow>
          if signal \<and> prefer_signal then Some None
          else Some (map_option (Wrapf ''reading stream'') err))"

definition tailCmd ::
  "go_error + 'conn \<Rightarrow>
     ('conn \<Rightarrow> StreamJobOutputRequest \<Rightarrow> go_error + (go_error + StreamJobOutputResponse) list) \<Rightarrow>
     bool \<Rightarrow> bool \<Rightarrow> bool \<Rightarrow> bool \<Rightarrow> bool \<Rightarrow> string \<Rightarrow> go_error option option \<times> byte list" where
  "tailCmd dialed open_stream noPast onlyStderr stdoutAndStderr signal prefer_signal jobId =
     (case dialed of
        Inl e \<Rightarrow> (Some (Some e), [])
      | Inr conn \<Rightarrow>
          (case tail_request noPast onlyStderr stdoutAndStderr jobId of
             Inl e \<Rightarrow> (Some (Some e), [])
           | Inr req \<Rightarrow>
               (case open_stream conn req of
                  Inl e \<Rightarrow> (Some (Some (Wrapf ''starting stream'' e)), [])
                | Inr rs \<Rightarrow>
                    (case tail_loop rs [] of
                       (printed, errCh) \<Rightarrow> (tail_select signal prefer_signal errCh, printed)))))"

section \<open>Facts about the pieces\<close>

lemma append_shuffles_left: "zs \<in> shuffles xs ys \<Longrightarrow> b @ zs \<in> shuffles (b @ xs) ys"
  by (induction b) (simp_all add: Cons_in_shuffles_leftI)

lemma append_shuffles_right: "zs \<in> shuffles xs ys \<Longrightarrow> b @ zs \<in> shuffles xs (b @ ys)"
  by (induction b) (simp_all add: Cons_in_shuffles_rightI)

text \<open>The receiving goroutine on messages before the last: it prints both outputs interleaved.\<close>

lemma tail_loop_messages:
  assumes "no_completion ms"
  shows "\<exists>out. tail_loop (map Inr ms @ rs) printed = tail_loop rs (printed @ out) \<and>
    out \<in> shuffles (received False ms) (received True ms)"
  using assms
proof (induction ms arbitrary: printed)
  case Nil
  then show ?case by (intro exI [of _ "[]"]) simp
next
  case (Cons m ms)
  then have nc: "no_completion ms" and m: "resp_Response m \<noteq> Some (RespCompletedExitCode c)" for c
    by (auto simp: no_completion_def)
  define b where "b = payload False m @ payload True m"
  obtain out where out: "tail_loop (map Inr ms @ rs) (printed @ b) = tail_loop rs ((printed @ b) @ out)"
    "out \<in> shuffles (received False ms) (received True ms)"
    using Cons.IH [OF nc] by blast
  have p: "tail_loop (map Inr (m # ms) @ rs) printed = tail_loop (map Inr ms @ rs) (printed @ b)"
    "payload False m = [] \<or> payload True m = []"
    using m by (auto simp: b_def payload_def GetStdout_def GetStderr_def GetResponse_def
        split: option.split StreamResponse.split)
  have "b @ out \<in> shuffles (received False (m # ms)) (received True (m # ms))"
    using p(2) out(2) by (auto simp: b_def append_shuffles_left append_shuffles_right)
  with p(1) out(1) show ?case by (intro exI [of _ "b @ out"]) simp
qed

lemma tail_loop_completed:
  assumes "no_completion ms"
  shows "\<exists>out. tail_loop (map Inr (ms @ [completed_message c]) @ rs) [] = (out, Some None) \<and>
    out \<in> shuffles (received False ms) (received True ms)"
  using tail_loop_messages [OF assms, of "Inr (completed_message c) # rs" "[]"]
  by (auto simp: completed_message_def)

lemma shuffles_single: "out \<in> shuffles xs [] \<Longrightarrow> out = xs" "out \<in> shuffles [] ys \<Longrightarrow> out = ys"
  by auto

text \<open>Which outputs the flags ask for.\<close>

lemma tail_request_wants:
  assumes "tail_request noPast onlyStderr both i = Inr req"
  shows "wants_stream req e \<longleftrightarrow> both \<or> e = onlyStderr" "stream_FromBeginning req \<longleftrightarrow> \<not> noPast"
    "both \<longrightarrow> \<not> onlyStderr"
  using assms by (auto simp: tail_request_def Let_def wants_stream_def GetOnlyStdout_def GetOnlyStderr_def
      GetStreamLimit_def split: if_splits)

text \<open>A submission that a server accepts.\<close>

lemma sample_submission:
  "\<exists>pb w'. service_SubmitJob id sample_env (\<lambda>_. []) service_ctx
     (submit_job_request ''j'' [] [''ls'', ''-l''] :: int SubmitJobRequest) service_worker = Some (Ret (Inr pb, w'))"
proof -
  let ?req = "submit_job_request ''j'' [] [''ls'', ''-l''] :: int SubmitJobRequest"
  have v: "validateSubmitJobRequest ?req = Ret None"
    by (simp add: validateSubmitJobRequest_def submit_job_request_def)
  have ns: "namespaceFromContext service_ctx = Ret (Inr ''ns'')"
    by (simp add: namespaceFromContext_def)
  let ?j = "\<lparr>pb_Id = ''j'', pb_Command = [''ls'', ''-l''], pb_RootFs = [], pb_CreatedAt = None,
      pb_Pid = 0, pb_Stdout = [], pb_Stderr = [], pb_ExitCode = None\<rparr> :: int pb_Job"
  have req: "submit_Job ?req = Some ?j" by (simp add: submit_job_request_def)
  obtain w' where w': "worker_SubmitJob sample_env service_worker ''ns'' ''j'' ''ls'' [''-l''] (map WithRootFS []) =
      Ret ((None, Some 1), w')"
    by (simp add: worker_SubmitJob_def submit_body_def submit_reserve_def submit_make_def
        submit_commit_def runner_start_def execRunner_start_def startCmd_def job_entry_def
        newJob_def mutex_defs Let_def)
  obtain pb where t: "toProtoJob id (job_at (heap w' ! 1) (\<lambda>_. [])) 0 False False = Some (Ret (Inr pb))"
    using toProtoJob_no_output [of id "job_at (heap w' ! 1) (\<lambda>_. [])" 0] by blast
  have "service_SubmitJob id sample_env (\<lambda>_. []) service_ctx ?req service_worker = Some (Ret (Inr pb, w'))"
    using w' t by (simp add: service_SubmitJob_def v ns req submit_request_def)
  then show ?thesis by blast
qed

section \<open>Properties\<close>

text \<open>The tail command against the server: when the handler ends well, the command ends with no
  error and has printed an interleaving of what was sent of the two outputs, which for one output is
  what was sent of it.\<close>

lemma tail_of_run:
  assumes "tail_request noPast onlyStderr both i = Inr req"
    and "stream_init req s0" and "stream_run (\<not> noPast) as s0 = Some s" and "ss_main s = MReturned None"
  shows "\<exists>out. tailCmd (Inr conn) (\<lambda>_ _. Inr (map Inr (ss_sent s))) noPast onlyStderr both False False i =
      (Some None, out) \<and>
    out \<in> shuffles (received False (ss_sent s)) (received True (ss_sent s)) \<and>
    (\<not> both \<longrightarrow> out = received onlyStderr (ss_sent s))"
    and "both \<or> e = onlyStderr \<Longrightarrow>
      prefix (received e (ss_sent s)) (asked_output (\<not> noPast) (opened_len (\<not> noPast) e as s0) (output_of e (ss_job s))) \<and>
      (length (output_of e (ss_job s)) \<le> opened_len (\<not> noPast) e as s0 + chunkSize \<longrightarrow>
         received e (ss_sent s) = asked_output (\<not> noPast) (opened_len (\<not> noPast) e as s0) (output_of e (ss_job s)))"
proof -
  note w = tail_request_wants [OF assms(1)]
  have run: "stream_run (stream_FromBeginning req) as s0 = Some s" using assms(3) by (simp add: w)
  have inv: "stream_inv req s" using assms(2) run by (rule run_inv)
  note from_opening = sent_from_opening [OF inv opened_past [OF assms(2) run], unfolded w]
  note ended = stream_ended [OF inv assms(4), unfolded w]
  show "both \<or> e = onlyStderr \<Longrightarrow>
      prefix (received e (ss_sent s)) (asked_output (\<not> noPast) (opened_len (\<not> noPast) e as s0) (output_of e (ss_job s))) \<and>
      (length (output_of e (ss_job s)) \<le> opened_len (\<not> noPast) e as s0 + chunkSize \<longrightarrow>
         received e (ss_sent s) = asked_output (\<not> noPast) (opened_len (\<not> noPast) e as s0) (output_of e (ss_job s)))"
    using from_opening(1) [of e] from_opening(4) [of e, OF assms(4)] ended [of e] by (auto simp: w)
  obtain ms c where ms: "ss_sent s = ms @ [completed_message c]" "no_completion ms"
    using ended by blast
  obtain out where out: "tail_loop (map Inr (ss_sent s)) [] = (out, Some None)"
    "out \<in> shuffles (received False (ss_sent s)) (received True (ss_sent s))"
    using tail_loop_completed [OF ms(2), of c "[]"] ms(1) by auto
  have one: "out = received onlyStderr (ss_sent s)" if "\<not> both"
    using out(2) stream_sent_prefix(2) [OF inv, of "\<not> onlyStderr"] that by (cases onlyStderr) (auto simp: w)
  have cmd: "tailCmd (Inr conn) (\<lambda>_ _. Inr (map Inr (ss_sent s))) noPast onlyStderr both False False i =
      (Some None, out)"
    using assms(1) out(1) by (simp add: tailCmd_def tail_select_def)
  show "\<exists>out. tailCmd (Inr conn) (\<lambda>_ _. Inr (map Inr (ss_sent s))) noPast onlyStderr both False False i =
      (Some None, out) \<and>
    out \<in> shuffles (received False (ss_sent s)) (received True (ss_sent s)) \<and>
    (\<not> both \<longrightarrow> out = received onlyStderr (ss_sent s))"
    using cmd out(2) one by blast
qed

text \<open>A job submitted from the command line: the request always passes the server's validation,
  so it is never answered InvalidArgument, and when it is accepted the answer shows the command and
  arguments as they were typed, the given root and the given ID, or a generated one.\<close>

theorem submitted_command_comes_back:
  assumes "worker_inv w" and "env_uuid env \<noteq> []" and "args \<noteq> []"
    and "service_SubmitJob ts_new env evs ctx (submit_job_request i root args) w = Some (Ret (r, w'))"
    and "namespaceFromContext ctx = Ret (Inr ns)"
  shows "case r of
      Inr pb \<Rightarrow> pb_Command pb = args \<and> pb_RootFs pb = root \<and>
        pb_Id pb = (if i = [] then env_uuid env else i) \<and>
        (\<exists>p. lookup_job w' ns (pb_Id pb) = Some p \<and> Command (heap w' ! p) # Args (heap w' ! p) = args) \<and>
        submitCmd (Inr w) (\<lambda>_ _. r) fmt i root args = (None, fmt pb @ [10])
    | Inl e \<Rightarrow> (\<forall>m. e \<noteq> Status InvalidArgument m) \<and>
        submitCmd (Inr w) (\<lambda>_ _. r) fmt i root args = (Some (Wrapf ''submitting job'' e), [])"
proof (rule service_SubmitJob_Ret [OF assms(4)])
  fix e
  assume "validateSubmitJobRequest (submit_job_request i root args) = Ret (Some e) \<or>
    namespaceFromContext ctx = Ret (Inl e)"
  with assms(3,5) show ?thesis by (simp add: validateSubmitJobRequest_def submit_job_request_def)
next
  fix ns' j
  assume "submit_Job (submit_job_request i root args) = Some j" "namespaceFromContext ctx = Ret (Inr ns')"
    and sub: "submit_request ts_new env evs ns' j w = Some (Ret (r, w'))"
  then have j: "pb_Id j = i" "pb_Command j = args" "pb_RootFs j = root" "ns' = ns"
    using assms(5) by (auto simp: submit_job_request_def)
  from submit_request_effect [OF assms(1,2) sub refl] show ?thesis
    unfolding j by (cases r) (auto simp: submitCmd_def)
qed

theorem submitted_command_comes_back_witness:
  "\<exists>pb w'. service_SubmitJob id sample_env (\<lambda>_. []) service_ctx
      (submit_job_request ''j'' [] [''ls'', ''-l'']) service_worker = Some (Ret (Inr pb, w')) \<and>
    pb_Command pb = [''ls'', ''-l''] \<and> pb_Id pb = ''j''"
proof -
  obtain pb w' where s: "service_SubmitJob id sample_env (\<lambda>_. []) service_ctx
      (submit_job_request ''j'' [] [''ls'', ''-l'']) service_worker = Some (Ret (Inr pb, w'))"
    using sample_submission by blast
  have ns: "namespaceFromContext service_ctx = Ret (Inr ''ns'')"
    by (simp add: namespaceFromContext_def)
  have "env_uuid sample_env \<noteq> []" by simp
  from submitted_command_comes_back [OF service_worker_inv this _ s ns] s show ?thesis by simp
qed

end
