(* ===== verification/Commands.thy ===== *)
theory Commands
  imports ClientCmd Limits
begin

text \<open>
  The rest of the command line: \<open>cmd/root.go\<close> (what the program does with its arguments, and
  its exit status), \<open>cmd/cert.go\<close> (generating a certificate and writing its files) and
  \<open>cmd/diag.go\<close> (the diagnostics, with their loops).
\<close>

section \<open>Program start\<close>

text \<open>
  \<open>os.Exit\<close> with any \<open>int\<close>: the operating system keeps the low eight bits.
  \<open>log.Fatal\<close> exits with status 1, returning from \<open>main\<close> with 0.
\<close>

definition exit_status :: "int \<Rightarrow> int" where
  "exit_status code = code mod 256"

text \<open>
  \<open>Execute\<close> on the program's arguments, its own name first. \<open>child\<close> is
  \<open>ExecLimitedChild\<close>, \<open>root_cmd\<close> running the command tree; both return an error and
  the trace of their system calls.
\<close>

definition Execute ::
  "(string list \<Rightarrow> go_error option \<times> syscall list) \<Rightarrow> (string list \<Rightarrow> go_error option \<times> syscall list) \<Rightarrow>
     string list \<Rightarrow> int \<times> syscall list" where
  "Execute child root_cmd os_args =
     (if 1 < length os_args \<and> os_args ! 1 = ''child-exec'' then
        (case child (drop 2 os_args) of (err, h) \<Rightarrow>
          (case err of
             Some (ExitError c) \<Rightarrow> (exit_status c, h)
           | Some e \<Rightarrow> (1, h)
           | None \<Rightarrow> (0, h)))
      else (case root_cmd os_args of (err, h) \<Rightarrow> (if err \<noteq> None then 1 else 0, h)))"

section \<open>gen-cert\<close>

text \<open>
  A file has contents and permission bits. \<open>os.WriteFile\<close> creates a missing file with the
  given mode less the \<open>umask\<close> and truncates an existing one, whose mode stays. It may fail to
  open the file, or to write it after some bytes.
\<close>

type_synonym store = "string \<Rightarrow> (byte list \<times> 64 word) option"

datatype write_outcome = WriteOk | OpenFails go_error | WriteFails go_error nat

unbundle bit_operations_syntax

definition WriteFile ::
  "64 word \<Rightarrow> (string \<Rightarrow> write_outcome) \<Rightarrow> string \<Rightarrow> byte list \<Rightarrow> 64 word \<Rightarrow> store \<Rightarrow>
     go_error option \<times> store" where
  "WriteFile umask outcome path data mode st =
     (let m = (case st path of Some (_, old) \<Rightarrow> old | None \<Rightarrow> mode AND NOT umask) in
      case outcome path of
        OpenFails e \<Rightarrow> (Some e, st)
      | WriteFails e n \<Rightarrow> (Some e, st(path \<mapsto> (take n data, m)))
      | WriteOk \<Rightarrow> (None, st(path \<mapsto> (data, m))))"

abbreviation "perm_0600 \<equiv> (0x180 :: 64 word)"
abbreviation "perm_cert \<equiv> (0x1A4 :: 64 word)"

definition read_store :: "store \<Rightarrow> files" where
  "read_store st path = (case st path of None \<Rightarrow> Inl (LibError ''no such file'') | Some (b, _) \<Rightarrow> Inr b)"

text \<open>The signer's files, if any, into the configuration.\<close>

definition read_signer ::
  "files \<Rightarrow> string \<Rightarrow> string \<Rightarrow> GenerateCertificateConfig \<Rightarrow> go_error + GenerateCertificateConfig" where
  "read_signer fs signerCert signerKey config =
     (if signerCert \<noteq> [] \<or> signerKey \<noteq> [] then
        if signerCert = [] \<or> signerKey = [] then Inl (Errorf ''must have both or neither signer cert and key'')
        else case read_file fs ''reading signer cert'' signerCert of
          Inl e \<Rightarrow> Inl e
        | Inr cert \<Rightarrow> (case read_file fs ''reading signer key'' signerKey of
            Inl e \<Rightarrow> Inl e
          | Inr key \<Rightarrow> Inr (config\<lparr>SignerCert := cert, SignerKey := key\<rparr>))
      else Inr config)"

text \<open>The configuration holds the flags; its signer is empty before \<open>read_signer\<close>.\<close>

definition genCertCmd ::
  "'k crypto \<Rightarrow> go_error + 'k \<Rightarrow> int \<Rightarrow> go_error + int \<Rightarrow> 64 word \<Rightarrow> (string \<Rightarrow> write_outcome) \<Rightarrow>
     string \<Rightarrow> string \<Rightarrow> GenerateCertificateConfig \<Rightarrow> string \<Rightarrow> store \<Rightarrow> go_error option \<times> store" where
  "genCertCmd c gen_key now serial umask outcome signerCert signerKey config arg st =
     (case read_signer (read_store st) signerCert signerKey config of
        Inl e \<Rightarrow> (Some e, st)
      | Inr config' \<Rightarrow>
          (case GenerateCertificate c gen_key now serial config' of
             Inl e \<Rightarrow> (Some e, st)
           | Inr (certBytes, keyBytes) \<Rightarrow>
               (case WriteFile umask outcome (arg @ ''.crt'') certBytes perm_cert st of
                  (Some e, st1) \<Rightarrow> (Some (Wrapf ''writing cert'' e), st1)
                | (None, st1) \<Rightarrow>
                    (case WriteFile umask outcome (arg @ ''.key'') keyBytes perm_0600 st1 of
                       (Some e, st2) \<Rightarrow> (Some (Wrapf ''writing key'' e), st2)
                     | (None, st2) \<Rightarrow> (None, st2)))))"

section \<open>diag\<close>

record DiagnosticResult =
  diag_PID :: int
  diag_PPID :: int
  NetInterfaceAvail :: bool
  diag_Dir :: string
  CPUTaskNanos :: int
  DiskBPS :: "(int \<times> int) option"

text \<open>
  What the diagnostics ask the system for. \<open>sys_alloc\<close> is the runtime's answer to an allocation,
  which may panic; \<open>sys_write\<close> the error of the write numbered; \<open>sys_block\<close> the block
  size of \<open>directio\<close>. The times are what the clock showed, in nanoseconds.
\<close>

record diag_sys =
  sys_pid :: int
  sys_ppid :: int
  sys_interfaces :: "go_error + 64 word list"
  sys_getwd :: "go_error + string"
  sys_alloc :: "int \<Rightarrow> unit go"
  sys_cpu_time :: int
  sys_open :: "go_error option"
  sys_block :: nat
  sys_write :: "nat \<Rightarrow> go_error option"
  sys_disk_time :: int

abbreviation "FlagLoopback \<equiv> (4 :: 64 word)"

fun net_available :: "64 word list \<Rightarrow> bool" where
  "net_available [] = False"
| "net_available (flags # ifaces) =
     (if flags \<noteq> 0 \<and> flags \<noteq> FlagLoopback then True else net_available ifaces)"

text \<open>The empty loop that keeps the processor busy: its counter when it ends.\<close>

function cpu_loop :: "64 word \<Rightarrow> 64 word" where
  "cpu_loop i = (if i < 500000000 then cpu_loop (i + 1) else i)"
  by pat_completeness auto
termination
proof (relation "measure (\<lambda>i. 500000000 - unat i)")
  fix i :: "64 word"
  assume "i < 500000000"
  then have "unat i < 500000000" by (simp add: word_less_nat_alt)
  moreover from this have "unat (i + 1) = Suc (unat i)" by (simp add: unat_word_ariths)
  ultimately show "(i + 1, i) \<in> measure (\<lambda>i. 500000000 - unat i)" by simp
qed simp

declare cpu_loop.simps [simp del]

definition bytesTotal :: int where
  "bytesTotal = 5 * 1024 * 1024"

text \<open>The writes, from the counter \<open>i\<close> and the \<open>n\<close>-th write on: the error that ended them
  and how many there were. With an empty block the loop goes on for as long as writes succeed.\<close>

partial_function (option) disk_loop ::
  "(nat \<Rightarrow> go_error option) \<Rightarrow> nat \<Rightarrow> int \<Rightarrow> nat \<Rightarrow> (go_error option \<times> nat) option" where
  "disk_loop wr block i n =
     (if i < bytesTotal then
        (case wr n of
           Some e \<Rightarrow> Some (Some e, Suc n)
         | None \<Rightarrow> disk_loop wr block (i + int block) (Suc n))
      else Some (None, n))"

text \<open>
  \<open>DiskBPS\<close> is kept as the quotient it is, the bytes and the nanoseconds they took; its rounding
  as a floating-point number is not modelled. \<open>None\<close> where the result never comes.
\<close>

definition RunDiag :: "diag_sys \<Rightarrow> int \<Rightarrow> bool \<Rightarrow> (go_error + DiagnosticResult) go option" where
  "RunDiag sys allocMem writeDisk =
     (case sys_interfaces sys of
        Inl e \<Rightarrow> Some (Ret (Inl (Wrapf ''getting interfaces'' e)))
      | Inr ifaces \<Rightarrow>
          (case sys_getwd sys of
             Inl e \<Rightarrow> Some (Ret (Inl (Wrapf ''getting current working dir'' e)))
           | Inr dir \<Rightarrow>
               let res = \<lparr>diag_PID = sys_pid sys, diag_PPID = sys_ppid sys,
                          NetInterfaceAvail = net_available ifaces, diag_Dir = dir,
                          CPUTaskNanos = sys_cpu_time sys, DiskBPS = None\<rparr> in
               run_bind (Some (if 0 < allocMem then sys_alloc sys allocMem else Ret ())) (\<lambda>_.
                 if \<not> writeDisk then Some (Ret (Inr res))
                 else case sys_open sys of
                   Some e \<Rightarrow> Some (Ret (Inl (Wrapf ''opening temp file'' e)))
                 | None \<Rightarrow>
                     (case disk_loop (sys_write sys) (sys_block sys) 0 0 of
                        None \<Rightarrow> None
                      | Some (Some e, n) \<Rightarrow> Some (Ret (Inl (Wrapf ''writing temp file'' e)))
                      | Some (None, n) \<Rightarrow>
                          Some (Ret (Inr (res\<lparr>DiskBPS := Some (bytesTotal, sys_disk_time sys)\<rparr>)))))))"

text \<open>The command prints the result as JSON; \<open>marshal\<close> stands for \<open>json.MarshalIndent\<close>.\<close>

definition diagCmd ::
  "(DiagnosticResult \<Rightarrow> go_error + byte list) \<Rightarrow> diag_sys \<Rightarrow> int \<Rightarrow> bool \<Rightarrow>
     (go_error option \<times> byte list) go option" where
  "diagCmd marshal sys allocMem writeDisk =
     run_bind (RunDiag sys allocMem writeDisk) (\<lambda>r. case r of
         Inl e \<Rightarrow> Some (Ret (Some e, []))
       | Inr d \<Rightarrow> (case marshal d of
           Inl e \<Rightarrow> Some (Ret (Some e, []))
         | Inr b \<Rightarrow> Some (Ret (None, b @ [10]))))"

section \<open>Facts about the pieces\<close>

lemma cpu_loop_end: "i \<le> 500000000 \<Longrightarrow> cpu_loop i = 500000000"
proof (induction i rule: cpu_loop.induct)
  case (1 i)
  show ?case
  proof (cases "i < 500000000")
    case True
    then have "unat i < 500000000" by (simp add: word_less_nat_alt)
    then have "i + 1 \<le> 500000000" by (simp add: word_le_nat_alt unat_word_ariths)
    with 1(1) [OF True] True show ?thesis by (subst cpu_loop.simps) simp
  next
    case False
    with 1(2) show ?thesis by (subst cpu_loop.simps) simp
  qed
qed

text \<open>The number of blocks the test writes.\<close>

definition block_count :: "nat \<Rightarrow> nat" where
  "block_count block = (5242880 + block - 1) div block"

lemma block_count_bound: "0 < block \<Longrightarrow> n < block_count block \<longleftrightarrow> int (n * block) < bytesTotal"
proof -
  assume "0 < block"
  then have "n < block_count block \<longleftrightarrow> n * block < 5242880"
    using less_eq_div_iff_mult_less_eq [of block "Suc n" "5242880 + block - 1"]
    by (simp add: block_count_def Suc_le_eq) linarith
  then show ?thesis unfolding bytesTotal_def by linarith
qed

lemma disk_loop_from:
  assumes "0 < block" and "n \<le> block_count block"
  shows "disk_loop wr block (int (n * block)) n =
    Some (case find (\<lambda>m. wr m \<noteq> None) [n..<block_count block] of
            None \<Rightarrow> (None, block_count block) | Some m \<Rightarrow> (wr m, Suc m))"
  using assms(2)
proof (induction "block_count block - n" arbitrary: n)
  case 0
  with block_count_bound [OF assms(1), of n] show ?case by (subst disk_loop.simps) simp
next
  case (Suc d)
  then have n: "n < block_count block" by simp
  then have up: "[n..<block_count block] = n # [Suc n..<block_count block]" by (rule upt_conv_Cons)
  have i: "int (n * block) < bytesTotal" using n block_count_bound [OF assms(1)] by blast
  show ?case
  proof (cases "wr n")
    case None
    have "disk_loop wr block (int (n * block)) n = disk_loop wr block (int (Suc n * block)) (Suc n)"
      using i None by (subst disk_loop.simps) (simp add: algebra_simps)
    with Suc.hyps(1) [of "Suc n"] Suc.hyps(2) n None up show ?thesis by simp
  next
    case (Some e)
    with i up show ?thesis by (subst disk_loop.simps) simp
  qed
qed

lemma WriteFile_None:
  "WriteFile umask outcome path data mode st = (None, st') \<longleftrightarrow>
     outcome path = WriteOk \<and>
     st' = st(path \<mapsto> (data, case st path of Some (_, old) \<Rightarrow> old | None \<Rightarrow> mode AND NOT umask))"
  by (auto simp: WriteFile_def Let_def split: write_outcome.splits)

lemma genCertCmd_None:
  assumes "genCertCmd c gen_key now serial umask outcome signerCert signerKey config arg st = (None, st')"
  obtains config' certPEM keyPEM st1 where
    "read_signer (read_store st) signerCert signerKey config = Inr config'"
    "GenerateCertificate c gen_key now serial config' = Inr (certPEM, keyPEM)"
    "WriteFile umask outcome (arg @ ''.crt'') certPEM perm_cert st = (None, st1)"
    "WriteFile umask outcome (arg @ ''.key'') keyPEM perm_0600 st1 = (None, st')"
proof -
  from assms obtain config' where 1: "read_signer (read_store st) signerCert signerKey config = Inr config'"
    by (auto simp: genCertCmd_def split: sum.splits)
  with assms obtain certPEM keyPEM where 2: "GenerateCertificate c gen_key now serial config' = Inr (certPEM, keyPEM)"
    by (auto simp: genCertCmd_def split: sum.splits)
  obtain e1 st1 where 3: "WriteFile umask outcome (arg @ ''.crt'') certPEM perm_cert st = (e1, st1)"
    by (cases "WriteFile umask outcome (arg @ ''.crt'') certPEM perm_cert st")
  obtain e2 st2 where 4: "WriteFile umask outcome (arg @ ''.key'') keyPEM perm_0600 st1 = (e2, st2)"
    by (cases "WriteFile umask outcome (arg @ ''.key'') keyPEM perm_0600 st1")
  from assms 1 2 3 4 have "e1 = None" "e2 = None" "st2 = st'"
    by (auto simp: genCertCmd_def split: option.splits)
  with 1 2 3 4 that show thesis by blast
qed

lemma read_store_upd [simp]:
  "read_store (st(p \<mapsto> (b, m))) q = (if q = p then Inr b else read_store st q)"
  by (simp add: read_store_def)

section \<open>Properties\<close>

text \<open>C34: The certificate files that gen-cert writes are those a server and a client can load: if the
  library accepts the pair of a certificate it made and its key, the serve command gets its
  credentials from them and a CA file, and so does every client command, on the same contents. No
  other file changes, and a key file that did not exist before is readable by nobody but its owner,
  whatever the umask.\<close>

theorem generated_files_load:
  assumes "genCertCmd c gen_key now serial umask outcome signerCert signerKey config arg st = (None, st')"
    and "\<And>cert parent priv pk der kder. create_certificate c cert parent priv pk = Inr der \<Longrightarrow>
      marshal_pkcs8 c priv = Inr kder \<Longrightarrow>
      \<exists>chain. key_pair c (pem_encode c ''CERTIFICATE'' der) (pem_encode c ''PRIVATE KEY'' kder) = Inr chain"
    and "ca \<noteq> []" and "read_store st' ca = Inr pem" and "pool_from_pem c pem \<noteq> []"
  shows "(\<exists>cfg. serve_credentials c (read_store st')
        \<lparr>serve_address = addr, serve_clientCACert = ca, serve_serverCert = arg @ ''.crt'',
         serve_serverKey = arg @ ''.key'', serve_withoutLimits = lim\<rparr> = Inr cfg \<and>
       ClientCAs cfg = Some (pool_from_pem c pem)) \<and>
    (addr \<noteq> [] \<longrightarrow> (\<exists>cfg. RootCAs cfg = Some (pool_from_pem c pem) \<and>
       dialClient c (read_store st') (\<lambda>a creds. Inr (a, creds))
         \<lparr>address = addr, serverCACert = ca, clientCert = arg @ ''.crt'', clientKey = arg @ ''.key''\<rparr> =
         Inr (addr, cfg))) \<and>
    (\<forall>p. p \<noteq> arg @ ''.crt'' \<longrightarrow> p \<noteq> arg @ ''.key'' \<longrightarrow> st' p = st p) \<and>
    (st (arg @ ''.key'') = None \<longrightarrow> (\<exists>b m. st' (arg @ ''.key'') = Some (b, m) \<and> m AND 0x3F = 0))"
proof (rule genCertCmd_None [OF assms(1)])
  fix config' certPEM keyPEM st1
  assume g: "GenerateCertificate c gen_key now serial config' = Inr (certPEM, keyPEM)"
    and w1: "WriteFile umask outcome (arg @ ''.crt'') certPEM perm_cert st = (None, st1)"
    and w2: "WriteFile umask outcome (arg @ ''.key'') keyPEM perm_0600 st1 = (None, st')"
  have files: "read_store st' (arg @ ''.crt'') = Inr certPEM" "read_store st' (arg @ ''.key'') = Inr keyPEM"
    "\<forall>p. p \<noteq> arg @ ''.crt'' \<longrightarrow> p \<noteq> arg @ ''.key'' \<longrightarrow> st' p = st p"
    using w1 w2 by (auto simp: WriteFile_None)
  have "(perm_0600 AND NOT umask) AND 0x3F = 0"
  proof -
    have "(perm_0600 AND NOT umask) AND 0x3F = NOT umask AND (perm_0600 AND 0x3F)"
      by (simp add: ac_simps)
    then show ?thesis by simp
  qed
  then have mode: "st (arg @ ''.key'') = None \<longrightarrow>
      (\<exists>b m. st' (arg @ ''.key'') = Some (b, m) \<and> m AND 0x3F = 0)"
    using w1 w2 by (auto simp: WriteFile_None)
  obtain chain where "key_pair c certPEM keyPEM = Inr chain"
    by (rule GenerateCertificate_Inr [OF g]) (use assms(2) that in metis)
  then show ?thesis
    using files mode assms(3-5)
    by (simp add: serve_credentials_def dialClient_def MTLSServerCredentials_def
        MTLSClientCredentials_def read_file_def Let_def)
qed

theorem generated_files_load_witness:
  "\<exists>st' cfg. genCertCmd sample_crypto (Inr 5) 0 (Inr 1) 18 (\<lambda>_. WriteOk) [] []
      \<lparr>SignerCert = [], SignerKey = [], OU = [], CA = False, ServerHost = ''h''\<rparr> ''srv''
      (Map.empty(''ca'' \<mapsto> ([9], perm_cert))) = (None, st') \<and>
    serve_credentials sample_crypto (read_store st')
      \<lparr>serve_address = ''a'', serve_clientCACert = ''ca'', serve_serverCert = ''srv.crt'',
       serve_serverKey = ''srv.key'', serve_withoutLimits = True\<rparr> = Inr cfg"
proof -
  let ?config = "\<lparr>SignerCert = [], SignerKey = [], OU = [], CA = False, ServerHost = ''h''\<rparr>"
  let ?st = "Map.empty(''ca'' \<mapsto> ([9], perm_cert)) :: store"
  let ?st' = "?st(''srv.crt'' \<mapsto> ([1], perm_cert AND NOT 18), ''srv.key'' \<mapsto> ([2], perm_0600 AND NOT 18))"
  have g: "genCertCmd sample_crypto (Inr 5) 0 (Inr 1) 18 (\<lambda>_. WriteOk) [] [] ?config ''srv'' ?st = (None, ?st')"
    by (simp add: genCertCmd_def read_signer_def GenerateCertificate_def load_signer_def
        sample_crypto_def WriteFile_def Let_def)
  have "pool_from_pem sample_crypto [9] \<noteq> []" by (simp add: sample_crypto_def)
  with generated_files_load [OF g, of "''ca''" "[9]" "''a''" True] g show ?thesis
    by (auto simp: sample_crypto_def)
qed

text \<open>The loops of the diagnostics end. The counting loop stops at its bound without wrapping
  around; the disk test makes exactly the writes that cover 5 MiB, or stops at the first that fails,
  whose error the command returns; so RunDiag returns for every block size but zero.\<close>

theorem diag_loops_end:
  assumes "0 < sys_block sys"
  shows "cpu_loop 0 = 500000000 \<and>
    disk_loop (sys_write sys) (sys_block sys) 0 0 =
      Some (case find (\<lambda>m. sys_write sys m \<noteq> None) [0..<block_count (sys_block sys)] of
              None \<Rightarrow> (None, block_count (sys_block sys))
            | Some m \<Rightarrow> (sys_write sys m, Suc m)) \<and>
    (\<forall>n. n < block_count (sys_block sys) \<longleftrightarrow> int (n * sys_block sys) < bytesTotal) \<and>
    (\<exists>r. RunDiag sys allocMem writeDisk = Some r)"
proof -
  have loop: "disk_loop (sys_write sys) (sys_block sys) 0 0 =
      Some (case find (\<lambda>m. sys_write sys m \<noteq> None) [0..<block_count (sys_block sys)] of
              None \<Rightarrow> (None, block_count (sys_block sys))
            | Some m \<Rightarrow> (sys_write sys m, Suc m))"
    using disk_loop_from [OF assms, of 0 "sys_write sys"] by simp
  then obtain err n where d: "disk_loop (sys_write sys) (sys_block sys) 0 0 = Some (err, n)"
    by (simp split: option.splits)
  have "\<exists>r. RunDiag sys allocMem writeDisk = Some r"
    using d by (cases "sys_alloc sys allocMem")
      (auto simp: RunDiag_def Let_def split: sum.split option.split)
  with loop block_count_bound [OF assms] cpu_loop_end [of 0] show ?thesis by simp
qed

theorem diag_loops_end_witness:
  "disk_loop (\<lambda>n. if n = 2 then Some EOF else None) 4096 0 0 = Some (Some EOF, 3) \<and>
   disk_loop (\<lambda>n. None) 4096 0 0 = Some (None, 1280) \<and> cpu_loop 0 = 500000000"
proof -
  let ?sys = "\<lambda>wr. \<lparr>sys_pid = 7, sys_ppid = 1, sys_interfaces = Inr [], sys_getwd = Inr ''/'',
    sys_alloc = (\<lambda>_. Ret ()), sys_cpu_time = 1, sys_open = None, sys_block = 4096,
    sys_write = wr, sys_disk_time = 1\<rparr>"
  have n: "block_count 4096 = 1280" by (simp add: block_count_def)
  have f: "find (\<lambda>m. (None :: go_error option) \<noteq> None) xs = None" for xs :: "nat list"
    by (simp add: find_None_iff)
  have e: "find (\<lambda>m. (if m = 2 then Some EOF else None) \<noteq> None) [0..<k] = Some 2" if "2 < k" for k :: nat
    using that by (auto simp: find_Some_iff intro!: exI [of _ 2])
  have "2 < block_count 4096" by (simp add: n)
  with diag_loops_end [of "?sys (\<lambda>n. if n = 2 then Some EOF else None)" 0 True] e
  have 1: "disk_loop (\<lambda>n. if n = 2 then Some EOF else None) 4096 0 0 = Some (Some EOF, 3)"
    by simp
  from diag_loops_end [of "?sys (\<lambda>n. None)" 0 True] f
  have 2: "disk_loop (\<lambda>n. None) 4096 0 0 = Some (None, block_count 4096)" "cpu_loop 0 = 500000000"
    by simp_all
  show ?thesis using 1 2 unfolding n by blast
qed

end
