(* ===== verification/LimitedRun.thy ===== *)
theory LimitedRun
  imports Commands
begin

text \<open>
  A limited job from end to end: the arguments \<open>limitedRunner.start\<close> gives the re-executed
  program, what \<open>Execute\<close> makes of them in the child, and the exit code that comes back through
  the child's exit status to the goroutine that waits for it.
\<close>

section \<open>Between the two processes\<close>

text \<open>The arguments a command is started with: its path first, as \<open>exec.Command\<close> has it.\<close>

definition argv_of :: "cmd \<Rightarrow> string list" where
  "argv_of c = cmd_path c # cmd_args c"

text \<open>What \<open>Wait\<close> returns for a process that exited with a status.\<close>

definition wait_error :: "int \<Rightarrow> go_error option" where
  "wait_error status = (if status = 0 then None else Some (ExitError status))"

lemma exit_code_of_status [simp]: "exit_code_of_wait (wait_error status) = status"
  by (simp add: exit_code_of_wait_def wait_error_def)

text \<open>The exit status of the child for what its command ended with.\<close>

definition child_status :: "go_error option \<Rightarrow> int" where
  "child_status err = (case err of None \<Rightarrow> 0 | Some (ExitError c) \<Rightarrow> exit_status c | Some _ \<Rightarrow> 1)"

lemma Execute_child:
  "Execute child root_cmd (p # ''child-exec'' # args) =
     (case child args of (err, h) \<Rightarrow> (child_status err, h))"
  by (auto simp: Execute_def child_status_def split: prod.split option.split go_error.split)

text \<open>\<open>main\<close>, with the child's code where a child is started; no system call was made before.\<close>

definition program_main ::
  "kernel \<Rightarrow> (string \<Rightarrow> go_error + jobLimitArgs) \<Rightarrow> string \<Rightarrow>
     (string list \<Rightarrow> go_error option \<times> syscall list) \<Rightarrow> string list \<Rightarrow> int \<times> syscall list" where
  "program_main k unmarshal cid root_cmd os_args =
     Execute (\<lambda>args. ExecLimitedChild k unmarshal cid args []) root_cmd os_args"

lemma limited_cmd_argv:
  assumes "limited_cmd marshal uid gid cfg j = Inr c"
  obtains json where "marshal (limit_args cfg j) = Inr json"
    "argv_of c = ''/proc/self/exe'' # ''child-exec'' # json # Command j # Args j"
  using assms by (auto simp: limited_cmd_def argv_of_def split: sum.splits)

section \<open>Errors of the setup\<close>

text \<open>A failed setup never looks like an exit code.\<close>

lemma exec_all_error: "exec_all k cs h = (Some e, h') \<Longrightarrow> \<exists>msg e'. e = Wrapf msg e'"
  by (induction k cs h rule: exec_all.induct) (auto split: option.splits)

lemma writeCGroupSettings_error:
  assumes "writeCGroupSettings k cid c st h = (dir, Some e, h')"
  shows "\<exists>msg e'. e = Wrapf msg e'"
  using assms exec_all_error
  by (fastforce simp: writeCGroupSettings_def Let_def split: prod.splits option.splits)

lemma apply_limits_error:
  "apply_limits k cid ls dirs h = (Some e, dirs', h') \<Longrightarrow> \<exists>msg e'. e = Wrapf msg e'"
  by (induction k cid ls dirs h rule: apply_limits.induct)
    (auto simp: Let_def split: prod.splits option.splits dest: writeCGroupSettings_error)

lemma ExecLimitedChild_success:
  assumes "unmarshal json = Inr la"
    and "ExecLimitedChild k unmarshal cid (json # path # rest) h = (err, h')"
    and "all_ok k h (setup_calls cid la)"
  shows "h' = h @ setup_calls cid la @ [SysRun path rest] @
      map SysRemoveAll (rev (made_dirs k h (limit_calls cid la)))"
    and "err = k (h @ setup_calls cid la) (SysRun path rest)"
proof -
  obtain lim mid where t: "h' = h @ (lim @ mid) @ map SysRemoveAll (rev (made_dirs k h lim))"
    "lim @ mid = setup_calls cid la @ [SysRun path rest]" "lim = limit_calls cid la"
    "err = k (h @ setup_calls cid la) (SysRun path rest)"
    using ExecLimitedChild_trace [OF assms(1,2)] assms(3) by (auto simp flip: append_assoc)
  then show "h' = h @ setup_calls cid la @ [SysRun path rest] @
      map SysRemoveAll (rev (made_dirs k h (limit_calls cid la)))"
    "err = k (h @ setup_calls cid la) (SysRun path rest)"
    unfolding t(2) by simp_all
qed

lemma ExecLimitedChild_setup_error:
  assumes "unmarshal json = Inr la"
    and "ExecLimitedChild k unmarshal cid (json # path # rest) h = (err, h')"
    and "\<not> all_ok k h (setup_calls cid la)"
  shows "child_status err = 1 \<and> (\<forall>p as. SysRun p as \<notin> set (drop (length h) h'))"
proof -
  obtain lim mid where t: "h' = h @ lim @ mid @ map SysRemoveAll (rev (made_dirs k h lim))"
    "prefix lim (limit_calls cid la)" "err \<noteq> None"
    "prefix mid (if RootMount la \<noteq> [] then map fst (pivot_calls (RootMount la)) else [])"
    using ExecLimitedChild_trace [OF assms(1,2)] assms(3) by auto
  have no_run: "SysRun p as \<notin> set (drop (length h) h')" for p as
    using t no_run_in_setup(2) [of p as cid la] no_run_in_pivot [of p as "RootMount la"]
      set_mono_prefix [OF t(2)] set_mono_prefix [OF t(4)] by (auto split: if_splits)
  obtain e1 dirs h1 where al: "apply_limits k cid (requested_limits la) [] h = (e1, dirs, h1)"
    by (cases "apply_limits k cid (requested_limits la) [] h") auto
  let ?pv = "if RootMount la \<noteq> [] then pivotRoot k (RootMount la) h1 else (None, h1)"
  obtain e2 h2 where pv: "?pv = (e2, h2)" by (cases ?pv)
  have "\<exists>msg e. err = Some (Wrapf msg e)"
  proof (cases e1)
    case (Some e)
    with assms(1,2) al apply_limits_error show ?thesis
      by (fastforce simp: ExecLimitedChild_def)
  next
    case None
    show ?thesis
    proof (cases e2)
      case (Some e)
      with pv have "pivotRoot k (RootMount la) h1 = (Some e, h2)" by (auto split: if_splits)
      then obtain msg e' where "e = Wrapf msg e'"
        using exec_all_error unfolding pivotRoot_def by blast
      with assms(1,2) al None pv Some show ?thesis by (auto simp: ExecLimitedChild_def)
    next
      case N2: None
      have "SysRun path rest \<in> set (drop (length h) h')"
      proof -
        have "prefix h h1"
          using apply_limits_trace [OF al] by auto
        moreover have "prefix h1 h2"
          using pv exec_all_trace [of k "pivot_calls (RootMount la)" h1 None h2] N2
          by (auto simp: pivotRoot_def split: if_splits)
        ultimately obtain ds where "h2 = h @ ds" by (auto simp: prefix_def)
        with assms(1,2) al None pv N2 show ?thesis
          by (auto simp: ExecLimitedChild_def run_command_def)
      qed
      with no_run show ?thesis by blast
    qed
  qed
  with no_run show ?thesis by (auto simp: child_status_def)
qed

section \<open>Properties\<close>

text \<open>C13: A limited job survives the way through the second process. If the JSON of its limits is read
  back as it was written (the order of the devices aside), the child that the limited runner starts
  runs exactly the job's command with the job's arguments, after exactly the system calls that its
  configuration and root filesystem ask for; when one of these fails the command is not run and the
  job's exit code is 1. The exit code that the waiting goroutine reports is the command's, modulo
  256: a command ended by a signal (-1, where the unlimited runner reports -1) shows as 255.\<close>

theorem limited_job_runs_its_command:
  assumes "limited_cmd marshal uid gid cfg j = Inr c"
    and "\<And>json. marshal (limit_args cfg j) = Inr json \<Longrightarrow>
      \<exists>m. gomap_get m = gomap_get (DeviceIOMax (limit_args cfg j)) \<and>
        unmarshal json = Inr ((limit_args cfg j)\<lparr>DeviceIOMax := m\<rparr>)"
    and "program_main k unmarshal cid root_cmd (argv_of c) = (status, h)"
  shows "\<exists>m. gomap_get m = gomap_get (DeviceIOMax (ResourceLimits cfg)) \<and>
    (let la = (limit_args cfg j)\<lparr>DeviceIOMax := m\<rparr>;
         setup = setup_calls cid la;
         code = exit_code_of_wait (wait_error status) in
     RootMount la = RootFS j \<and>
     (if all_ok k [] setup
      then (\<exists>clean. h = setup @ [SysRun (Command j) (Args j)] @ map SysRemoveAll clean) \<and>
        (case k setup (SysRun (Command j) (Args j)) of
           None \<Rightarrow> code = 0
         | Some (ExitError n) \<Rightarrow> code = n mod 256
         | Some _ \<Rightarrow> code = 1)
      else code = 1 \<and> (\<forall>p as. SysRun p as \<notin> set h)))"
proof (rule limited_cmd_argv [OF assms(1)])
  fix json
  assume json: "marshal (limit_args cfg j) = Inr json"
    and argv: "argv_of c = ''/proc/self/exe'' # ''child-exec'' # json # Command j # Args j"
  obtain m where m: "gomap_get m = gomap_get (DeviceIOMax (limit_args cfg j))"
    and la: "unmarshal json = Inr ((limit_args cfg j)\<lparr>DeviceIOMax := m\<rparr>)"
    using assms(2) [OF json] by blast
  let ?la = "(limit_args cfg j)\<lparr>DeviceIOMax := m\<rparr>"
  obtain err where e: "ExecLimitedChild k unmarshal cid (json # Command j # Args j) [] = (err, h)"
    and status: "status = child_status err"
    using assms(3) unfolding program_main_def argv Execute_child by (auto split: prod.splits)
  have fields: "DeviceIOMax (limit_args cfg j) = DeviceIOMax (ResourceLimits cfg)" "RootMount ?la = RootFS j"
    by (simp_all add: limit_args_def JobResourceLimits.extend_def jobLimitArgs.fields_def)
  have ok: "(\<exists>clean. h = setup_calls cid ?la @ [SysRun (Command j) (Args j)] @ map SysRemoveAll clean) \<and>
      err = k (setup_calls cid ?la) (SysRun (Command j) (Args j))" if "all_ok k [] (setup_calls cid ?la)"
    using ExecLimitedChild_success [OF la e that] by auto
  have "child_status err = 1 \<and> (\<forall>p as. SysRun p as \<notin> set h)" if "\<not> all_ok k [] (setup_calls cid ?la)"
    using ExecLimitedChild_setup_error [OF la e that] by simp
  with ok m fields status show ?thesis
    by (intro exI [of _ m])
      (auto simp: Let_def child_status_def exit_status_def split: option.split go_error.split)
qed

definition killed_kernel :: kernel where
  "killed_kernel h c = (case c of SysRun p as \<Rightarrow> Some (ExitError (- 1)) | _ \<Rightarrow> None)"

lemma killed_kernel_setup: "\<forall>p as. SysRun p as \<notin> set cs \<Longrightarrow> all_ok killed_kernel h cs"
  by (induction cs arbitrary: h) (auto simp: killed_kernel_def split: syscall.split)

theorem limited_job_runs_its_command_witness:
  "\<exists>c status h. limited_cmd (\<lambda>_. Inr ''{}'') 0 0
      \<lparr>ResourceLimits = \<lparr>CPUMaxPeriod = 0, CPUMaxQuota = 0, MemoryMax = 5, DeviceIOMax = []\<rparr>,
       Isolation = \<lparr>IsoPID = True, IsoNetwork = True, IsoMount = True\<rparr>\<rparr>
      (newJob 0 ''ns'' ''i'' ''sleep'' [''9'']) = Inr c \<and>
    SysRun ''sleep'' [''9''] \<in> set h \<and> status = 255 \<and>
    program_main killed_kernel (\<lambda>s. Inr (jobLimitArgs.make 0 0 5 [] [])) ''u'' (\<lambda>_. (None, []))
      (argv_of c) = (status, h)"
proof -
  let ?cfg = "\<lparr>ResourceLimits = \<lparr>CPUMaxPeriod = 0, CPUMaxQuota = 0, MemoryMax = 5, DeviceIOMax = []\<rparr>,
       Isolation = \<lparr>IsoPID = True, IsoNetwork = True, IsoMount = True\<rparr>\<rparr>"
  let ?j = "newJob 0 ''ns'' ''i'' ''sleep'' [''9'']"
  let ?main = "program_main killed_kernel (\<lambda>s. Inr (jobLimitArgs.make 0 0 5 [] [])) ''u'' (\<lambda>_. (None, []))"
  obtain c where c: "limited_cmd (\<lambda>_. Inr ''{}'') 0 0 ?cfg ?j = Inr c"
    by (simp add: limited_cmd_def)
  obtain status h where e: "?main (argv_of c) = (status, h)" by (cases "?main (argv_of c)")
  have la: "jobLimitArgs.make 0 0 5 [] [] = (limit_args ?cfg ?j)\<lparr>DeviceIOMax := []\<rparr>"
    "DeviceIOMax (limit_args ?cfg ?j) = []"
    by (simp_all add: limit_args_def JobResourceLimits.extend_def jobLimitArgs.fields_def
        jobLimitArgs.make_def newJob_def)
  have ok: "all_ok killed_kernel [] (setup_calls ''u'' la)" for la
    by (rule killed_kernel_setup) (simp add: no_run_in_setup)
  have "\<exists>m. gomap_get m = gomap_get (DeviceIOMax (limit_args ?cfg ?j)) \<and>
      Inr (jobLimitArgs.make 0 0 5 [] []) = (Inr ((limit_args ?cfg ?j)\<lparr>DeviceIOMax := m\<rparr>) :: go_error + jobLimitArgs)"
    unfolding la by auto
  from limited_job_runs_its_command [OF c this e] ok
  have "SysRun ''sleep'' [''9''] \<in> set h \<and> status = 255"
    by (auto simp: Let_def killed_kernel_def newJob_def)
  with c e show ?thesis by blast
qed

end
