(* ===== verification/StreamCall.thy ===== *)
theory StreamCall
  imports Service JobStream
begin

text \<open>
  The output stream as the handler opens it (\<open>StreamJobOutput\<close> of \<open>workergrpc/service.go\<close>
  up to its loop, on top of \<open>getJob\<close>), and the size of what it sends.
\<close>

section \<open>Opening the stream\<close>

text \<open>
  The error \<open>getJob\<close> gave, or the system of theory \<open>JobStream\<close> started on the job found;
  \<open>cs\<close> are the channels of the job's other listeners.
\<close>

definition service_StreamJobOutput ::
  "rpc_ctx \<Rightarrow> StreamJobOutputRequest \<Rightarrow> chans \<Rightarrow> worker \<Rightarrow> ((go_error + stream_sys) \<times> worker) go" where
  "service_StreamJobOutput ctx req cs w =
     go_bind (getJob ctx (stream_JobId req) w) (\<lambda>(r, w'). case r of
         Inl e \<Rightarrow> Ret (Inl e, w')
       | Inr p \<Rightarrow> Ret (Inr (stream_start req (heap w' ! p) cs), w'))"

section \<open>The size of a message\<close>

definition chunk_ok :: "byte list \<Rightarrow> bool" where
  "chunk_ok b \<longleftrightarrow> b \<noteq> [] \<and> length b \<le> 1024"

definition message_ok :: "StreamJobOutputResponse \<Rightarrow> bool" where
  "message_ok m =
     (case resp_Response m of
        None \<Rightarrow> False
      | Some (RespStdout b) \<Rightarrow> chunk_ok b
      | Some (RespStderr b) \<Rightarrow> chunk_ok b
      | Some (RespCompletedExitCode c) \<Rightarrow> True)"

definition pc_ok :: "stream_pc \<Rightarrow> bool" where
  "pc_ok pc = (case pc of StPastSend off b \<Rightarrow> chunk_ok b | StSend off b c \<Rightarrow> chunk_ok b | _ \<Rightarrow> True)"

definition sized_inv :: "StreamJobOutputRequest \<Rightarrow> stream_sys \<Rightarrow> bool" where
  "sized_inv req s \<longleftrightarrow>
     stream_inv req s \<and> (\<forall>e. pc_ok (ss_pc s e)) \<and> (\<forall>m \<in> set (ss_sent s). message_ok m)"

lemma message_ok_simps [simp]:
  "message_ok (chunk_message e past b) \<longleftrightarrow> chunk_ok b" "message_ok (completed_message c)"
  by (simp_all add: message_ok_def chunk_message_def completed_message_def)

lemma local_pc_ok:
  assumes "goroutine_ok fb e j cs past pc rp rl"
    and "stream_local fb e j cs past pc = Some (j', cs', past', pc')"
  shows "pc_ok pc'"
proof (cases pc)
  case (StPast off)
  show ?thesis
  proof (cases "off < past")
    case True
    from StPast assms(1) have p: "past \<le> length (output_of e j)" by (simp add: stream_ok_def)
    let ?n = "if past - off < chunkSize then past - off else chunkSize"
    have "chunk_ok (take ?n (drop off (output_of e j)))"
      using past_read [OF True p refl] by (auto simp: chunk_ok_def chunkSize_def)
    with True StPast assms(2) show ?thesis
      by (auto simp: past_step [OF True p refl] pc_ok_def)
  next
    case False
    with StPast assms(2) show ?thesis by (auto simp: stream_local_def pc_ok_def)
  qed
next
  case (StRead off)
  with assms(1) have o: "off \<le> length (output_of e j)" by (auto simp: stream_ok_def)
  have "length (take chunkSize (drop off (output_of e j))) \<le> 1024" by (simp add: chunkSize_def)
  with StRead assms(2) live_read_step [OF o refl, of fb cs past] show ?thesis
    by (auto simp: pc_ok_def chunk_ok_def split: if_splits)
next
  case StEager
  with assms(2) show ?thesis by (auto simp: eager_step pc_ok_def)
qed (use assms(2) in \<open>auto simp: stream_local_def pc_ok_def split: list.splits\<close>)

lemma offer_ok:
  "pc_ok pc \<Longrightarrow> stream_offer e pc = Some (msg, pc') \<Longrightarrow> message_ok msg \<and> pc_ok pc'"
  by (cases pc) (auto simp: stream_offer_def pc_ok_def)

lemma cancel_ok: "stream_cancel e pc = Some pc' \<Longrightarrow> pc_ok pc'"
  by (cases pc) (auto simp: stream_cancel_def pc_ok_def)

lemma sized_step:
  assumes "sized_inv req s" and "stream_step req s t"
  shows "sized_inv req t"
proof -
  obtain a where a: "stream_exec (stream_FromBeginning req) a s = Some t"
    using assms(2) unfolding stream_step_def by blast
  have inv: "stream_inv req s" and p: "\<And>e. pc_ok (ss_pc s e)" and m: "\<forall>m \<in> set (ss_sent s). message_ok m"
    using assms(1) by (auto simp: sized_inv_def)
  have "stream_inv req t" using inv a by (rule stream_exec_inv)
  moreover have "(\<forall>e. pc_ok (ss_pc t e)) \<and> (\<forall>m \<in> set (ss_sent t). message_ok m)"
  proof (cases a)
    case (AStream e)
    then obtain j cs past pc where l: "stream_local (stream_FromBeginning req) e (ss_job s) (ss_chans s)
        (ss_past s e) (ss_pc s e) = Some (j, cs, past, pc)"
      and t: "t = s\<lparr>ss_job := j, ss_chans := cs, ss_past := (ss_past s)(e := past),
                 ss_pc := (ss_pc s)(e := pc)\<rparr>"
      using a by (auto split: option.splits)
    from local_pc_ok [OF stream_invD(2) [OF inv] l] p m t show ?thesis by simp
  next
    case (ACancel e)
    with a p m cancel_ok show ?thesis by (auto split: option.splits)
  next
    case (ARecv e r)
    with a p m offer_ok [OF p [of e]] show ?thesis by (auto split: option.splits bool.splits)
  qed (use a p m in \<open>auto split: if_splits option.splits prod.splits stream_pc.splits bool.splits\<close>)
  ultimately show ?thesis by (simp add: sized_inv_def)
qed

interpretation sized: invariant_system "stream_init req" "stream_step req" "sized_inv req" for req
proof
  show "sized_inv req s" if "stream_init req s" for s
    using that stream_init_inv [OF that]
    by (auto simp: sized_inv_def stream_init_def stream_start_def pc_ok_def)
qed (rule sized_step)

section \<open>Properties\<close>

text \<open>C25: Every message a stream sends is the exit code or a chunk of one output of at least one and
  at most 1024 bytes: nothing empty is sent and no message grows with the output of the job.\<close>

theorem stream_chunks_bounded:
  assumes "reach (stream_init req) (stream_step req) s" and "m \<in> set (ss_sent s)"
  shows "resp_Response m \<noteq> None \<and>
    (\<forall>b. resp_Response m = Some (RespStdout b) \<or> resp_Response m = Some (RespStderr b) \<longrightarrow>
       0 < length b \<and> length b \<le> 1024) \<and>
    length (payload e m) \<le> 1024"
  using sized.inv_reach [OF assms(1)] assms(2)
  by (auto simp: sized_inv_def message_ok_def chunk_ok_def payload_def GetStdout_def GetStderr_def
      GetResponse_def split: option.splits StreamResponse.splits)

theorem stream_chunks_bounded_witness:
  "\<exists>(s :: stream_sys) m. m \<in> set (ss_sent s) \<and> length (payload False m) \<le> 1024 \<and> payload False m \<noteq> []"
proof -
  obtain t where t: "reach (stream_init stdout_req) (stream_step stdout_req) t"
    "received False (ss_sent t) = take chunkSize [7]"
    using late_read_finish [of "[7]", OF list.distinct(2)] .
  have "take chunkSize [7 :: byte] \<noteq> []" by (simp add: chunkSize_def)
  with t(2) have "received False (ss_sent t) \<noteq> []" by simp
  then obtain m where m: "m \<in> set (ss_sent t)" "payload False m \<noteq> []"
    by (auto simp: received_def)
  from stream_chunks_bounded [OF t(1) m(1), of False] have "length (payload False m) \<le> 1024"
    by (elim conjE)
  with m show ?thesis by blast
qed

text \<open>A stream is only opened on the job that is stored under the namespace of the client's
  certificate and the asked ID, and on nothing else; the system it starts in is one the properties of
  the stream are about, provided the job's other listeners have identities of their own. Otherwise
  the call ends before anything is sent, with the status of the lookup.\<close>

theorem stream_opens_own_job:
  assumes "worker_inv w" and "service_StreamJobOutput ctx req cs w = Ret (r, w')"
    and "\<And>p. p < length (heap w) \<Longrightarrow> {0, 1} \<inter> set (listener_list (heap w ! p)) = {}"
  shows "case r of
      Inr s \<Rightarrow> \<exists>ns p. namespaceFromContext ctx = Ret (Inr ns) \<and>
        lookup_job w ns (stream_JobId req) = Some p \<and> Namespace (ss_job s) = ns \<and>
        ID (ss_job s) = stream_JobId req \<and> ss_job s = heap w ! p \<and> stream_init req s
    | Inl e \<Rightarrow> getJob ctx (stream_JobId req) w = Ret (Inl e, w')"
proof -
  obtain q w1 where q: "getJob ctx (stream_JobId req) w = Ret (q, w1)"
    using assms(2) by (auto simp: service_StreamJobOutput_def go_bind_eq_Ret)
  show ?thesis
  proof (cases q)
    case (Inl e)
    with assms(2) q show ?thesis by (auto simp: service_StreamJobOutput_def)
  next
    case (Inr p)
    obtain ns where g: "namespaceFromContext ctx = Ret (Inr ns)" "lookup_job w ns (stream_JobId req) = Some p"
      "p < length (heap w)" "Namespace (heap w ! p) = ns" "ID (heap w ! p) = stream_JobId req"
      "job_wf (heap w ! p)"
      using getJob_found [OF assms(1) q [unfolded Inr]] by blast
    have r: "r = Inr (stream_start req (heap w ! p) cs)"
      using assms(2) q Inr getJob_same(1) [OF assms(1) q] by (simp add: service_StreamJobOutput_def)
    have "0 \<notin> set (listener_list (heap w ! p))" "1 \<notin> set (listener_list (heap w ! p))"
      using assms(3) [OF g(3)] by auto
    with g(6) have "stream_init req (stream_start req (heap w ! p) cs)"
      unfolding stream_init_def by blast
    moreover have "ss_job (stream_start req (heap w ! p) cs) = heap w ! p" by (simp add: stream_start_def)
    ultimately show ?thesis unfolding r using g by simp
  qed
qed

theorem stream_opens_own_job_witness:
  "\<exists>s w'. service_StreamJobOutput service_ctx stdout_req no_chans service_worker = Ret (Inr s, w') \<and>
     ID (ss_job s) = ''i'' \<and> stream_init stdout_req s"
proof -
  obtain w1 where g: "getJob service_ctx (stream_JobId stdout_req) service_worker = Ret (Inr 0, w1)"
    using getJob_eq [OF service_worker_inv, of service_ctx "''i''"]
    by (simp add: namespaceFromContext_def found_job_def lookup_job_def job_entry_def)
  then obtain s where s: "service_StreamJobOutput service_ctx stdout_req no_chans service_worker = Ret (Inr s, w1)"
    by (simp add: service_StreamJobOutput_def)
  have "{0, 1} \<inter> set (listener_list (heap service_worker ! p)) = {}" if "p < length (heap service_worker)" for p
    using that by (simp add: newJob_def listener_list_def)
  from stream_opens_own_job [OF service_worker_inv s this] s show ?thesis by auto
qed

end
