(* ===== verification/LiveJob.thy ===== *)
theory LiveJob
  imports LimitedRun StreamCall JobProcess
begin

text \<open>
  A job from its command to the client that tails it: the command writes into two pipes and exits,
  the goroutines of \<open>startCmd\<close> (theory \<open>JobProcess\<close>) read the pipes into the job, and a client
  may open the job's output stream (theory \<open>JobStream\<close>) at any moment. The three act on one job
  with one set of channels, in any order.
\<close>

section \<open>State and steps\<close>

text \<open>
  The operating system's side: what is in each pipe and unread, whether all its write ends are
  closed, everything that was ever written into it, and the command's exit status. The job and its
  channels are those of \<open>lv_proc\<close>; the fields for them in \<open>lv_stream\<close> are not looked at.
\<close>

record live =
  lv_proc :: proc
  lv_stream :: "stream_sys option"
  lv_pipe :: "bool \<Rightarrow> byte list"
  lv_closed :: "bool \<Rightarrow> bool"
  lv_wrote :: "bool \<Rightarrow> byte list"
  lv_status :: "int option"

abbreviation live_job :: "live \<Rightarrow> job" where
  "live_job v \<equiv> fst (p_job (lv_proc v))"

definition stream_view :: "proc \<Rightarrow> stream_sys \<Rightarrow> stream_sys" where
  "stream_view p s = s\<lparr>ss_job := fst (p_job p), ss_chans := snd (p_job p)\<rparr>"

text \<open>
  The command writes, closes a pipe (its last writer did) or exits; a pipe reader or the waiting
  goroutine gets what the system answers; another goroutine of the process, or a caller of the job,
  acts; a client opens the stream; the stream moves.
\<close>

datatype live_action =
    LWrite bool "byte list"
  | LClose bool
  | LExit int
  | LRead bool nat
  | LWait
  | LProc proc_action
  | LOpen
  | LStream stream_action

fun proc_internal :: "proc_action \<Rightarrow> bool" where
  "proc_internal (ReadPipe e b err) = False"
| "proc_internal (CmdWait err) = False"
| "proc_internal (Listen ch) = (2 \<le> ch)"
| "proc_internal (Unlisten ch) = (2 \<le> ch)"
| "proc_internal a = True"

definition proc_moves :: "proc_action \<Rightarrow> live \<Rightarrow> live option" where
  "proc_moves a v = map_option (\<lambda>p. v\<lparr>lv_proc := p\<rparr>) (proc_exec a (lv_proc v))"

text \<open>
  Reading an open pipe gives some of its bytes, at most the buffer's size; reading an empty one gives
  end of file once it is closed, and waits until then. Waiting for the command gives its exit status.
  Other errors of these two system calls, which \<open>proc_exec\<close> has, do not happen in this composition.
\<close>

fun live_exec :: "StreamJobOutputRequest \<Rightarrow> live_action \<Rightarrow> live \<Rightarrow> live option" where
  "live_exec req (LWrite e b) v =
     (if lv_closed v e then None
      else Some (v\<lparr>lv_pipe := (lv_pipe v)(e := lv_pipe v e @ b), lv_wrote := (lv_wrote v)(e := lv_wrote v e @ b)\<rparr>))"
| "live_exec req (LClose e) v = Some (v\<lparr>lv_closed := (lv_closed v)(e := True)\<rparr>)"
| "live_exec req (LExit c) v = (if lv_status v = None then Some (v\<lparr>lv_status := Some c\<rparr>) else None)"
| "live_exec req (LRead e n) v =
     (if lv_pipe v e = []
      then if lv_closed v e then proc_moves (ReadPipe e [] (Some EOF)) v else None
      else if 0 < n \<and> n \<le> 1024 \<and> n \<le> length (lv_pipe v e)
      then map_option (\<lambda>v'. v'\<lparr>lv_pipe := (lv_pipe v)(e := drop n (lv_pipe v e))\<rparr>)
             (proc_moves (ReadPipe e (take n (lv_pipe v e)) None) v)
      else None)"
| "live_exec req LWait v =
     (case lv_status v of None \<Rightarrow> None | Some c \<Rightarrow> proc_moves (CmdWait (wait_error c)) v)"
| "live_exec req (LProc a) v = (if proc_internal a then proc_moves a v else None)"
| "live_exec req LOpen v =
     (case lv_stream v of
        None \<Rightarrow> Some (v\<lparr>lv_stream := Some (stream_start req (live_job v) (snd (p_job (lv_proc v))))\<rparr>)
      | Some s \<Rightarrow> None)"
| "live_exec req (LStream a) v =
     (case lv_stream v of
        None \<Rightarrow> None
      | Some s \<Rightarrow>
          if a \<in> range AJob then None
          else map_option (\<lambda>t. v\<lparr>lv_stream := Some t, lv_proc := (lv_proc v)\<lparr>p_job := (ss_job t, ss_chans t)\<rparr>\<rparr>)
                 (stream_exec (stream_FromBeginning req) a (stream_view (lv_proc v) s)))"

declare live_exec.simps [simp del]

fun_cases live_writeE: "live_exec req (LWrite e b) v = Some w"
  and live_closeE: "live_exec req (LClose e) v = Some w"
  and live_exitE: "live_exec req (LExit c) v = Some w"
  and live_readE: "live_exec req (LRead e n) v = Some w"
  and live_waitE: "live_exec req LWait v = Some w"
  and live_procE: "live_exec req (LProc a) v = Some w"
  and live_openE: "live_exec req LOpen v = Some w"
  and live_streamE: "live_exec req (LStream a) v = Some w"

inductive live_step :: "StreamJobOutputRequest \<Rightarrow> live \<Rightarrow> live \<Rightarrow> bool" for req where
  "live_exec req a v = Some w \<Longrightarrow> live_step req v w"

inductive_cases live_stepE: "live_step req v w"

text \<open>A job whose command has just been started, with nobody listening yet.\<close>

definition live_start :: "job \<Rightarrow> live" where
  "live_start j =
     \<lparr>lv_proc = proc_start (j, no_chans), lv_stream = None, lv_pipe = (\<lambda>_. []),
      lv_closed = (\<lambda>_. False), lv_wrote = (\<lambda>_. []), lv_status = None\<rparr>"

definition live_init :: "job \<Rightarrow> live \<Rightarrow> bool" where
  "live_init j v \<longleftrightarrow>
     fresh_job j \<and> stdout j = [] \<and> stderr j = [] \<and> listener_list j = [] \<and> v = live_start j"

section \<open>The invariant\<close>

definition pipe_open :: "bool \<Rightarrow> proc \<Rightarrow> bool" where
  "pipe_open e p = (if e then err_open p else out_open p)"

text \<open>
  What the command wrote is what the job has and what is still in the pipe; a reader stops only at
  the end of a closed pipe; an exit code is the command's status.
\<close>

definition pipes_ok :: "live \<Rightarrow> bool" where
  "pipes_ok v \<longleftrightarrow>
     (\<forall>e. lv_wrote v e = output_of e (live_job v) @ lv_pipe v e) \<and>
     (\<forall>e. \<not> pipe_open e (lv_proc v) \<longrightarrow> lv_closed v e \<and> lv_pipe v e = []) \<and>
     (\<forall>c. exitCode (live_job v) = Some c \<longrightarrow> lv_status v = Some c)"

definition stream_part_ok :: "StreamJobOutputRequest \<Rightarrow> proc \<Rightarrow> stream_sys option \<Rightarrow> bool" where
  "stream_part_ok req p so =
     (case so of
        None \<Rightarrow> 0 \<notin> set (listener_list (fst (p_job p))) \<and> 1 \<notin> set (listener_list (fst (p_job p)))
      | Some s \<Rightarrow> stream_inv req (stream_view p s))"

definition live_inv :: "StreamJobOutputRequest \<Rightarrow> live \<Rightarrow> bool" where
  "live_inv req v \<longleftrightarrow>
     proc_inv (lv_proc v) \<and> pipes_ok v \<and> stream_part_ok req (lv_proc v) (lv_stream v)"

section \<open>Steps of the process\<close>

lemma view_fields [simp]:
  "ss_job (stream_view p s) = fst (p_job p)" "ss_chans (stream_view p s) = snd (p_job p)"
  "ss_pc (stream_view p s) = ss_pc s" "ss_main (stream_view p s) = ss_main s"
  "ss_ctx (stream_view p s) = ss_ctx s" "ss_sent (stream_view p s) = ss_sent s"
  "ss_past (stream_view p s) = ss_past s"
  by (simp_all add: stream_view_def)

lemma view_view [simp]: "p_job p = (ss_job t, ss_chans t) \<Longrightarrow> stream_view p t = t"
  by (simp add: stream_view_def)

definition proc_foreign :: "proc_action \<Rightarrow> bool" where
  "proc_foreign a \<longleftrightarrow> (\<forall>ev. proc_event a = Some ev \<longrightarrow> foreign_event ev)"

lemma proc_foreign_simps [simp]:
  "proc_internal a \<Longrightarrow> proc_foreign a" "proc_foreign (ReadPipe e b err)" "proc_foreign (CmdWait err)"
  by (cases a; simp add: proc_foreign_def proc_event_def)+

text \<open>What a process does to the job is an event of the job, so the stream's invariant survives it.\<close>

lemma stream_part_proc:
  assumes "proc_inv p" and "proc_exec a p = Some q" and "proc_foreign a" and "stream_part_ok req p so"
  shows "stream_part_ok req q so"
proof (cases "proc_event a")
  case None
  with assms(4) proc_exec_job [OF assms(2)] show ?thesis
    by (simp add: stream_part_ok_def stream_view_def split: option.splits)
next
  case (Some ev)
  note job = proc_exec_job [OF assms(2), unfolded Some option.case]
  have ev: "foreign_event ev" "event_allowed (fst (p_job p)) ev"
    using assms Some proc_exec_allowed by (auto simp: proc_foreign_def)
  show ?thesis
  proof (cases so)
    case None
    with assms(4) ev(1) job job_apply_listeners [of "p_job p" ev] show ?thesis
      by (cases ev) (auto simp: stream_part_ok_def)
  next
    case (Some s)
    have "stream_exec fb (AJob ev) (stream_view p s) = Some (stream_view q s)" for fb
      using ev job by (simp add: stream_view_def split: prod.split)
    with assms(4) inv_job Some show ?thesis by (fastforce simp: stream_part_ok_def)
  qed
qed

lemma proc_pipes:
  assumes "proc_exec a p = Some q"
  shows "pipe_open e q =
      (pipe_open e p \<and> (case a of ReadPipe e' b err \<Rightarrow> e' = e \<longrightarrow> err = None | _ \<Rightarrow> True))"
    and "output_of e (fst (p_job q)) =
      output_of e (fst (p_job p)) @ (case a of ReadPipe e' b err \<Rightarrow> if e' = e then b else [] | _ \<Rightarrow> [])"
    and "exitCode (fst (p_job q)) =
      (case a of CmdWait err \<Rightarrow> Some (exit_code_of_wait err) | _ \<Rightarrow> exitCode (fst (p_job p)))"
proof -
  show "pipe_open e q =
      (pipe_open e p \<and> (case a of ReadPipe e' b err \<Rightarrow> e' = e \<longrightarrow> err = None | _ \<Rightarrow> True))"
    using assms by (cases a) (auto simp: pipe_open_def startPipe_turn_def split: if_splits)
  show "output_of e (fst (p_job q)) =
      output_of e (fst (p_job p)) @ (case a of ReadPipe e' b err \<Rightarrow> if e' = e then b else [] | _ \<Rightarrow> [])"
    unfolding proc_exec_job [OF assms]
    by (cases a) (auto simp: proc_event_def output_of_job_apply simp del: job_apply.simps)
  show "exitCode (fst (p_job q)) =
      (case a of CmdWait err \<Rightarrow> Some (exit_code_of_wait err) | _ \<Rightarrow> exitCode (fst (p_job p)))"
    by (rule proc_exec_fields(1) [OF assms])
qed

lemma live_inv_proc:
  assumes "live_inv req v" and "proc_exec a (lv_proc v) = Some p" and "proc_foreign a"
    and "lv_proc w = p" and "lv_stream w = lv_stream v" and "pipes_ok w"
  shows "live_inv req w"
  using assms stream_part_proc [OF _ assms(2,3)] proc_inv_exec [OF _ assms(2)]
  by (simp add: live_inv_def)

lemma read_inv:
  assumes "live_inv req v" and "live_exec req (LRead e n) v = Some w"
  shows "live_inv req w"
proof -
  have pipes: "pipes_ok v" using assms(1) by (simp add: live_inv_def)
  define b where "b = (if lv_pipe v e = [] then [] else take n (lv_pipe v e))"
  define err where "err = (if lv_pipe v e = [] then Some EOF else None)"
  obtain p where p: "proc_exec (ReadPipe e b err) (lv_proc v) = Some p"
    and w: "lv_proc w = p" "lv_stream w = lv_stream v" "lv_closed w = lv_closed v" "lv_wrote w = lv_wrote v"
      "lv_status w = lv_status v" "lv_pipe w = (lv_pipe v)(e := drop (length b) (lv_pipe v e))"
    and closed: "lv_pipe v e = [] \<longrightarrow> lv_closed v e" and b: "b @ drop (length b) (lv_pipe v e) = lv_pipe v e"
    using assms(2)
    by (cases "lv_pipe v e = []")
      (auto simp: proc_moves_def b_def err_def live_exec.simps min_def fun_upd_idem
        simp del: proc_exec.simps split: if_splits)
  note pp = proc_pipes [OF p]
  have "pipes_ok w"
    unfolding pipes_ok_def w pp
    using pipes closed b by (auto simp: pipes_ok_def err_def)
  then show ?thesis by (rule live_inv_proc [OF assms(1) p _ w(1,2), rotated]) simp
qed

lemma wait_inv:
  assumes "live_inv req v" and "live_exec req LWait v = Some w"
  shows "live_inv req w"
proof -
  obtain c p where c: "lv_status v = Some c" and p: "proc_exec (CmdWait (wait_error c)) (lv_proc v) = Some p"
    and w: "w = v\<lparr>lv_proc := p\<rparr>"
    using assms(2) by (auto simp: proc_moves_def live_exec.simps split: option.splits)
  have "pipes_ok w"
    using assms(1) c by (simp add: live_inv_def pipes_ok_def w proc_pipes [OF p])
  then show ?thesis by (rule live_inv_proc [OF assms(1) p, rotated 3]) (simp_all add: w)
qed

lemma proc_inv_live:
  assumes "live_inv req v" and "live_exec req (LProc a) v = Some w"
  shows "live_inv req w"
proof -
  obtain p where a: "proc_internal a" and p: "proc_exec a (lv_proc v) = Some p" and w: "w = v\<lparr>lv_proc := p\<rparr>"
    using assms(2) by (auto simp: proc_moves_def live_exec.simps split: if_splits)
  have "pipes_ok w"
    using assms(1) a by (cases a) (simp_all add: live_inv_def pipes_ok_def w proc_pipes [OF p])
  then show ?thesis by (rule live_inv_proc [OF assms(1) p, rotated 3]) (simp_all add: w a)
qed

section \<open>Steps of the stream\<close>

text \<open>The stream only registers and unregisters its listeners with the job.\<close>

lemma stream_keeps_job:
  assumes "stream_exec fb a s = Some t" and "a \<notin> range AJob"
  shows "ss_job t = ss_job s \<or> (\<exists>l. ss_job t = AddUpdateListener l (ss_job s) \<or>
    ss_job t = RemoveUpdateListener l (ss_job s))"
proof (cases a)
  case (AStream e)
  with assms(1) show ?thesis
    by (auto simp: stream_local_def split: option.splits stream_pc.splits go.splits list.splits if_splits)
qed (use assms in \<open>auto split: if_splits option.splits bool.splits stream_pc.splits\<close>)

lemma listen_control [simp]:
  "stopCtx (AddUpdateListener l j) = stopCtx j" "stopCtx (RemoveUpdateListener l j) = stopCtx j"
  "forceStopCtx (AddUpdateListener l j) = forceStopCtx j"
  "forceStopCtx (RemoveUpdateListener l j) = forceStopCtx j"
  by (simp_all add: AddUpdateListener_def RemoveUpdateListener_def Let_def)

lemma stream_inv_live:
  assumes "live_inv req v" and "live_exec req (LStream a) v = Some w"
  shows "live_inv req w"
proof -
  obtain s t where s: "lv_stream v = Some s" and a: "a \<notin> range AJob"
    and t: "stream_exec (stream_FromBeginning req) a (stream_view (lv_proc v) s) = Some t"
    and w: "w = v\<lparr>lv_stream := Some t, lv_proc := (lv_proc v)\<lparr>p_job := (ss_job t, ss_chans t)\<rparr>\<rparr>"
    using assms(2) by (auto simp: live_exec.simps split: option.splits if_splits)
  have inv: "stream_inv req t"
    using assms(1) s t by (auto simp: live_inv_def stream_part_ok_def intro: stream_exec_inv)
  have same: "output_of e (ss_job t) = output_of e (live_job v)" "exitCode (ss_job t) = exitCode (live_job v)"
    "stopCtx (ss_job t) = stopCtx (live_job v)" "forceStopCtx (ss_job t) = forceStopCtx (live_job v)" for e
    using stream_keeps_job [OF t a] by auto
  have "proc_inv (lv_proc w)" "pipes_ok w"
    using assms(1) stream_invD(1) [OF inv]
    by (simp_all add: live_inv_def proc_inv_def pipes_ok_def pipe_open_def w same)
  with inv show ?thesis by (simp add: live_inv_def stream_part_ok_def w)
qed

section \<open>All steps\<close>

lemma live_init_inv: "live_init j v \<Longrightarrow> live_inv req v"
proof -
  assume i: "live_init j v"
  then have "proc_init (lv_proc v)"
    using proc_init.intros [of "(j, no_chans)"] by (simp add: live_init_def live_start_def)
  then have "proc_inv (lv_proc v)" by (rule procs.inv_init)
  with i show ?thesis
    by (auto simp: live_init_def live_start_def live_inv_def pipes_ok_def stream_part_ok_def
        proc_start_def pipe_open_def output_of_def fresh_job_def)
qed

lemma live_exec_inv:
  assumes "live_inv req v" and "live_exec req a v = Some w"
  shows "live_inv req w"
proof (cases a)
  case (LWrite e b)
  with assms show ?thesis
    by (auto simp: live_inv_def pipes_ok_def elim!: live_writeE split: if_splits)
next
  case (LClose e)
  with assms show ?thesis by (auto simp: live_inv_def pipes_ok_def elim!: live_closeE)
next
  case (LExit c)
  with assms show ?thesis
    by (auto simp: live_inv_def pipes_ok_def elim!: live_exitE split: if_splits)
next
  case LOpen
  then have w: "lv_stream v = None"
    "w = v\<lparr>lv_stream := Some (stream_start req (live_job v) (snd (p_job (lv_proc v))))\<rparr>"
    using assms(2) by (auto elim!: live_openE split: option.splits)
  have "job_wf (live_job v)" using assms(1) by (simp add: live_inv_def proc_inv_def)
  with assms(1) w have "stream_init req (stream_start req (live_job v) (snd (p_job (lv_proc v))))"
    by (auto simp: live_inv_def stream_part_ok_def stream_init_def)
  moreover have "stream_view p (stream_start req (fst (p_job p)) (snd (p_job p))) =
      stream_start req (fst (p_job p)) (snd (p_job p))" for p
    by (simp add: stream_view_def stream_start_def)
  ultimately show ?thesis
    using assms(1) w stream_init_inv by (auto simp: live_inv_def stream_part_ok_def pipes_ok_def)
next
  case (LRead e n)
  with assms read_inv show ?thesis by blast
next
  case LWait
  with assms wait_inv show ?thesis by blast
next
  case (LProc b)
  with assms proc_inv_live show ?thesis by blast
next
  case (LStream b)
  with assms stream_inv_live show ?thesis by blast
qed

interpretation lives: invariant_system "live_init j" "live_step req" "live_inv req" for j req
  by unfold_locales (auto intro: live_init_inv live_exec_inv elim!: live_stepE)

text \<open>The system as it is started for one job, and runs of it.\<close>

lemma live_reach_inv:
  assumes "fresh_job j" "stdout j = []" "stderr j = []" "listener_list j = []"
    and "reach ((=) (live_start j)) (live_step req) v"
  shows "live_inv req v"
proof -
  have "(=) (live_start j) = live_init j"
    using assms(1-4) by (auto simp: live_init_def fun_eq_iff)
  with assms(5) lives.inv_reach show ?thesis by metis
qed

lemma submitted_live_inv:
  assumes "worker_inv w" and "env_uuid env \<noteq> []"
    and "worker_SubmitJob env w ns i command args (map WithRootFS roots) = Ret ((None, Some p), w')"
    and "reach ((=) (live_start (heap w' ! p))) (live_step req) v"
  shows "live_inv req v"
  using submit_effect [OF assms(1-3) refl] submit_root [OF assms(1,3)] live_reach_inv [OF _ _ _ _ assms(4)]
  by blast

lemma live_exit_code:
  assumes "live_inv req v" and "exitCode (live_job v) = Some c"
  shows "lv_status v = Some c \<and> lv_closed v e \<and> lv_pipe v e = [] \<and> lv_wrote v e = output_of e (live_job v)"
proof -
  have "proc_inv (lv_proc v)" "pipes_ok v" using assms(1) by (simp_all add: live_inv_def)
  moreover from this(1) assms(2) have "\<not> pipe_open e (lv_proc v)"
    by (auto simp: proc_inv_def pipe_open_def)
  ultimately show ?thesis using assms(2) by (simp add: pipes_ok_def)
qed

section \<open>Completion\<close>

text \<open>
  The steps that are the server's own: its goroutines read what is in the pipes, wait, and serve
  the stream. The command, the callers and the client's context do nothing.
\<close>

definition live_own :: "live_action set" where
  "live_own = {LRead e n | e n. True} \<union> {LWait, LProc StdoutClosed, LProc StderrClosed} \<union>
     LStream ` ({AFinish None} \<union> range AStream \<union> range AErr \<union> range (\<lambda>e. ARecv e None))"

definition live_server_step :: "StreamJobOutputRequest \<Rightarrow> live \<Rightarrow> live \<Rightarrow> bool" where
  "live_server_step req v w \<longleftrightarrow> (\<exists>a \<in> live_own. live_exec req a v = Some w)"

lemma live_own_step: "live_server_step req v w \<Longrightarrow> live_step req v w"
  by (auto simp: live_server_step_def intro: live_step.intros)

lemma live_own_steps: "(live_server_step req)\<^sup>*\<^sup>* v w \<Longrightarrow> (live_step req)\<^sup>*\<^sup>* v w"
  by (induction rule: rtranclp_induct) (auto intro: rtranclp.rtrancl_into_rtrancl live_own_step)

text \<open>What these steps leave alone.\<close>

definition same_system :: "live \<Rightarrow> live \<Rightarrow> bool" where
  "same_system v w \<longleftrightarrow> lv_closed w = lv_closed v \<and> lv_wrote w = lv_wrote v \<and> lv_status w = lv_status v"

lemma same_system_trans: "same_system u v \<Longrightarrow> same_system v w \<Longrightarrow> same_system u w"
  by (simp add: same_system_def)

text \<open>A closed pipe is read to its end, in turns of at most one buffer.\<close>

lemma read_turn:
  assumes "pipe_open e (lv_proc v)" and "lv_closed v e"
  shows "\<exists>n w. live_exec req (LRead e n) v = Some w \<and> same_system v w \<and> lv_stream w = lv_stream v \<and>
    waiter (lv_proc w) = waiter (lv_proc v) \<and>
    (\<forall>e'. e' \<noteq> e \<longrightarrow> pipe_open e' (lv_proc w) = pipe_open e' (lv_proc v)) \<and>
    (\<not> pipe_open e (lv_proc w) \<or> length (lv_pipe w e) < length (lv_pipe v e))"
proof -
  define n where "n = min 1024 (length (lv_pipe v e))"
  show ?thesis
    using assms
    by (intro exI [of _ n], cases "lv_pipe v e = []"; cases e)
      (auto simp: live_exec.simps proc_moves_def pipe_open_def same_system_def n_def startPipe_turn_def min_def)
qed

lemma read_out:
  assumes "lv_closed v e"
  shows "\<exists>w. (live_server_step req)\<^sup>*\<^sup>* v w \<and> same_system v w \<and> lv_stream w = lv_stream v \<and>
    waiter (lv_proc w) = waiter (lv_proc v) \<and> \<not> pipe_open e (lv_proc w) \<and>
    (\<forall>e'. e' \<noteq> e \<longrightarrow> pipe_open e' (lv_proc w) = pipe_open e' (lv_proc v))"
  using assms
proof (induction "length (lv_pipe v e)" arbitrary: v rule: less_induct)
  case less
  show ?case
  proof (cases "pipe_open e (lv_proc v)")
    case False
    then show ?thesis by (intro exI [of _ v]) (simp add: same_system_def)
  next
    case True
    from read_turn [OF this less.prems, of req] obtain n u where u: "live_exec req (LRead e n) v = Some u"
      "same_system v u" "lv_stream u = lv_stream v" "waiter (lv_proc u) = waiter (lv_proc v)"
      "\<forall>e'. e' \<noteq> e \<longrightarrow> pipe_open e' (lv_proc u) = pipe_open e' (lv_proc v)"
      "\<not> pipe_open e (lv_proc u) \<or> length (lv_pipe u e) < length (lv_pipe v e)"
      by blast
    have step: "live_server_step req v u"
      using u(1) by (auto simp: live_server_step_def live_own_def)
    show ?thesis
    proof (cases "pipe_open e (lv_proc u)")
      case False
      with u step show ?thesis by (intro exI [of _ u]) auto
    next
      case True
      with u(6) have "length (lv_pipe u e) < length (lv_pipe v e)" by simp
      moreover have "lv_closed u e" using u(2) less.prems by (simp add: same_system_def)
      ultimately obtain w where "(live_server_step req)\<^sup>*\<^sup>* u w" "same_system u w" "lv_stream w = lv_stream u"
        "waiter (lv_proc w) = waiter (lv_proc u)" "\<not> pipe_open e (lv_proc w)"
        "\<forall>e'. e' \<noteq> e \<longrightarrow> pipe_open e' (lv_proc w) = pipe_open e' (lv_proc u)"
        using less.hyps by blast
      with u step same_system_trans show ?thesis
        by (intro exI [of _ w]) (auto intro: converse_rtranclp_into_rtranclp)
    qed
  qed
qed

text \<open>Then the waiting goroutine passes its three waits, if the command has exited.\<close>

definition wait_result :: "StreamJobOutputRequest \<Rightarrow> live \<Rightarrow> bool" where
  "wait_result req v \<longleftrightarrow>
     (\<exists>w. (live_server_step req)\<^sup>*\<^sup>* v w \<and> same_system v w \<and> lv_stream w = lv_stream v \<and>
        exitCode (live_job w) \<noteq> None)"

lemma wait_result_step:
  assumes "live_exec req a v = Some u" and "a \<in> live_own" and "same_system v u"
    and "lv_stream u = lv_stream v" and "wait_result req u"
  shows "wait_result req v"
proof -
  from assms(5) obtain w where w: "(live_server_step req)\<^sup>*\<^sup>* u w" "same_system u w"
    "lv_stream w = lv_stream u" "exitCode (live_job w) \<noteq> None"
    unfolding wait_result_def by blast
  have "live_server_step req v u" using assms(1,2) by (auto simp: live_server_step_def)
  with w assms(3,4) same_system_trans show ?thesis
    unfolding wait_result_def
    by (intro exI [of _ w]) (auto intro: converse_rtranclp_into_rtranclp)
qed

lemma wait_out:
  assumes "live_inv req v" and "\<not> pipe_open False (lv_proc v)" and "\<not> pipe_open True (lv_proc v)"
    and "lv_status v = Some c"
  shows "wait_result req v"
proof -
  let ?at = "\<lambda>pc. v\<lparr>lv_proc := (lv_proc v)\<lparr>waiter := pc\<rparr>\<rparr>"
  let ?fin = "v\<lparr>lv_proc := (lv_proc v)\<lparr>p_job := markDone c (p_job (lv_proc v)), waiter := WaiterDone\<rparr>\<rparr>"
  have "wait_result req ?fin"
    unfolding wait_result_def by (intro exI [of _ ?fin]) (simp add: same_system_def)
  then have 3: "wait_result req (?at AwaitCmd)"
    by (rule wait_result_step [rotated 4, where a = LWait])
      (use assms(4) in \<open>simp_all add: live_exec.simps proc_moves_def live_own_def same_system_def\<close>)
  have 2: "wait_result req (?at AwaitStderr)"
    by (rule wait_result_step [OF _ _ _ _ 3, of "LProc StderrClosed"])
      (use assms(3) in \<open>simp_all add: live_exec.simps proc_moves_def pipe_open_def live_own_def same_system_def\<close>)
  have 1: "wait_result req (?at AwaitStdout)"
    by (rule wait_result_step [OF _ _ _ _ 2, of "LProc StdoutClosed"])
      (use assms(2) in \<open>simp_all add: live_exec.simps proc_moves_def pipe_open_def live_own_def same_system_def\<close>)
  have v: "v = ?at (waiter (lv_proc v))" by simp
  show ?thesis
  proof (cases "waiter (lv_proc v)")
    case WaiterDone
    with assms(1) have "exitCode (live_job v) \<noteq> None" by (simp add: live_inv_def proc_inv_def)
    then show ?thesis by (auto simp: wait_result_def same_system_def)
  qed (use 1 2 3 v in metis)+
qed

text \<open>The stream's own steps are steps of the whole.\<close>

lemma stream_lift:
  assumes "(server_step req)\<^sup>*\<^sup>* (stream_view (lv_proc v) s) t" and "lv_stream v = Some s"
  shows "\<exists>w s'. (live_server_step req)\<^sup>*\<^sup>* v w \<and> same_system v w \<and> lv_stream w = Some s' \<and>
    stream_view (lv_proc w) s' = t"
  using assms(1)
proof (induction rule: rtranclp_induct)
  case base
  show ?case using assms(2) by (intro exI [of _ v] exI [of _ s]) (simp add: same_system_def)
next
  case (step t u)
  then obtain w s' where w: "(live_server_step req)\<^sup>*\<^sup>* v w" "same_system v w" "lv_stream w = Some s'"
    "stream_view (lv_proc w) s' = t" by blast
  let ?w = "w\<lparr>lv_stream := Some u, lv_proc := (lv_proc w)\<lparr>p_job := (ss_job u, ss_chans u)\<rparr>\<rparr>"
  from step.hyps(2) obtain a where
    a: "a \<in> {AFinish None} \<union> range AStream \<union> range AErr \<union> range (\<lambda>e. ARecv e None)"
    and u: "stream_exec (stream_FromBeginning req) a t = Some u"
    unfolding server_step_def by blast
  from a have "a \<notin> range AJob" by auto
  with u w(3,4) have "live_exec req (LStream a) w = Some ?w" by (simp add: live_exec.simps)
  moreover from a have "LStream a \<in> live_own" unfolding live_own_def by blast
  ultimately have "live_server_step req w ?w" unfolding live_server_step_def by blast
  with w show ?case
    by (intro exI [of _ ?w] exI [of _ u]) (auto simp: same_system_def)
qed

lemma live_inv_own: "live_inv req v \<Longrightarrow> (live_server_step req)\<^sup>*\<^sup>* v w \<Longrightarrow> live_inv req w"
  using live_own_steps lives.inv_steps by blast

text \<open>All of it: a command that has exited and let go of its pipes is served to the end.\<close>

lemma live_completes:
  assumes "live_inv req v" and "lv_status v = Some c" and "\<And>e. lv_closed v e"
    and "lv_stream v = Some s" and "ss_ctx s = None" and "selecting s \<or> ss_main s = MFinal"
  shows "\<exists>w s'. (live_server_step req)\<^sup>*\<^sup>* v w \<and> same_system v w \<and> lv_stream w = Some s' \<and>
    ss_main s' = MReturned None"
proof -
  from read_out [OF assms(3) [of False], of req] obtain v1 where v1: "(live_server_step req)\<^sup>*\<^sup>* v v1"
    "same_system v v1" "lv_stream v1 = Some s" "\<not> pipe_open False (lv_proc v1)"
    using assms(4) by auto
  with assms(3) have "lv_closed v1 True" by (simp add: same_system_def)
  from read_out [OF this, of req] v1 obtain v2 where v2: "(live_server_step req)\<^sup>*\<^sup>* v1 v2" "same_system v1 v2"
    "lv_stream v2 = Some s" "\<not> pipe_open False (lv_proc v2)" "\<not> pipe_open True (lv_proc v2)"
    by auto
  have i2: "live_inv req v2" using assms(1) v1(1) v2(1) live_inv_own by blast
  have "lv_status v2 = Some c" using assms(2) v1(2) v2(2) by (simp add: same_system_def)
  from wait_out [OF i2 v2(4,5) this] v2(3) obtain v3 where v3: "(live_server_step req)\<^sup>*\<^sup>* v2 v3"
    "same_system v2 v3" "lv_stream v3 = Some s" "exitCode (live_job v3) \<noteq> None"
    unfolding wait_result_def by auto
  have "live_inv req v3" using i2 v3(1) live_inv_own by blast
  with v3(3) have "stream_inv req (stream_view (lv_proc v3) s)"
    by (simp add: live_inv_def stream_part_ok_def)
  from server_completes [OF this] assms(5,6) v3(4) obtain t where
    t: "(server_step req)\<^sup>*\<^sup>* (stream_view (lv_proc v3) s) t" "ss_main t = MReturned None"
    by (auto simp: selecting_def)
  from stream_lift [OF t(1) v3(3)] obtain w s' where w: "(live_server_step req)\<^sup>*\<^sup>* v3 w" "same_system v3 w"
    "lv_stream w = Some s'" "stream_view (lv_proc w) s' = t" by blast
  have "(live_server_step req)\<^sup>*\<^sup>* v w"
    using v1(1) v2(1) v3(1) w(1) by (meson rtranclp_trans)
  moreover have "same_system v w"
    using v1(2) v2(2) v3(2) w(2) by (blast intro: same_system_trans)
  moreover have "ss_main s' = MReturned None" using t(2) w(4) view_fields(4) by metis
  ultimately show ?thesis using w(3) by blast
qed

section \<open>What the client sees\<close>

text \<open>A stream that ended well has sent what the command wrote, and the status it exited with.\<close>

lemma live_ended:
  assumes "live_inv req v" and "lv_stream v = Some s" and "ss_main s = MReturned None"
  shows "\<exists>ms c. ss_sent s = ms @ [completed_message c] \<and> no_completion ms \<and>
    lv_status v = Some c \<and>
    (wants_stream req e \<longrightarrow> length (lv_wrote v e) \<le> ss_past s e + chunkSize \<longrightarrow>
       received e (ss_sent s) = asked_output (stream_FromBeginning req) (ss_past s e) (lv_wrote v e)) \<and>
    prefix (received e (ss_sent s)) (asked_output (stream_FromBeginning req) (ss_past s e) (lv_wrote v e)) \<and>
    (\<not> wants_stream req e \<longrightarrow> received e (ss_sent s) = [])"
proof -
  let ?s = "stream_view (lv_proc v) s"
  have inv: "stream_inv req ?s"
    using assms(1,2) by (simp add: live_inv_def stream_part_ok_def)
  from stream_ended [OF inv, of e] assms(3) obtain ms c where
    ms: "ss_sent s = ms @ [completed_message c]" "no_completion ms" "exitCode (live_job v) = Some c"
    and whole: "wants_stream req e \<longrightarrow> length (output_of e (live_job v)) \<le> ss_past s e + chunkSize \<longrightarrow>
       received e (ss_sent s) = asked_output (stream_FromBeginning req) (ss_past s e) (output_of e (live_job v))"
    by auto
  from live_exit_code [OF assms(1) ms(3), of e] have out: "output_of e (live_job v) = lv_wrote v e"
    "lv_status v = Some c" by simp_all
  from stream_sent_prefix [OF inv, of e] have
    "prefix (received e (ss_sent s)) (asked_output (stream_FromBeginning req) (ss_past s e) (lv_wrote v e))"
    "\<not> wants_stream req e \<longrightarrow> received e (ss_sent s) = []"
    by (simp_all add: out)
  with ms(1,2) out(2) whole [unfolded out(1)] show ?thesis by blast
qed

lemma completed_code:
  "- (2 ^ 31) \<le> c \<Longrightarrow> c < 2 ^ 31 \<Longrightarrow>
   sint (GetCompletedExitCode (Some (completed_message c))) = c"
  by (simp add: GetCompletedExitCode_def GetResponse_def completed_message_def
      sint_sbintrunc' signed_take_bit_int_eq_self)

lemma tail_loop_ended:
  assumes "no_completion ms" and "sent = ms @ [completed_message c]"
    and "tail_request noPast onlyStderr both i = Inr req"
  obtains out where "tailCmd (Inr conn) (\<lambda>_ _. Inr (map Inr sent)) noPast onlyStderr both False False i =
      (Some None, out)"
    "out \<in> shuffles (received False sent) (received True sent)"
proof -
  obtain out where "tail_loop (map Inr sent) [] = (out, Some None)"
    "out \<in> shuffles (received False sent) (received True sent)"
    using tail_loop_completed [OF assms(1), of c "[]"] assms(2) by auto
  with assms(3) that show thesis by (simp add: tailCmd_def tail_select_def)
qed

text \<open>Runs, and one of them: the command writes a byte and exits, and a client opens the stream.\<close>

abbreviation live_run :: "StreamJobOutputRequest \<Rightarrow> live_action list \<Rightarrow> live \<Rightarrow> live option" where
  "live_run req \<equiv> run_actions (live_exec req)"

interpretation live_actions: action_system "live_exec req" "live_step req" for req
  by unfold_locales (auto intro: live_step.intros elim: live_stepE)

text \<open>
  How much the job had of an output when the stream's goroutine for it was about to take its first
  step, in a run of the whole system.
\<close>

definition live_opened :: "StreamJobOutputRequest \<Rightarrow> bool \<Rightarrow> live_action list \<Rightarrow> live \<Rightarrow> nat" where
  "live_opened req e as v0 =
     length (output_of e (live_job (before_first (live_exec req) (LStream (AStream e)) as v0)))"

text \<open>Only the stream's own steps change where its goroutines are and what they keep.\<close>

lemma live_exec_stream:
  assumes "live_exec req a v = Some w"
  shows "lv_stream w = lv_stream v \<or>
    a = LOpen \<and> (\<exists>j cs. lv_stream v = None \<and> lv_stream w = Some (stream_start req j cs)) \<or>
    (\<exists>b s t. a = LStream b \<and> lv_stream v = Some s \<and> lv_stream w = Some t \<and>
       stream_exec (stream_FromBeginning req) b (stream_view (lv_proc v) s) = Some t)"
proof (cases a)
  case LOpen
  with assms show ?thesis by (fastforce simp: live_exec.simps split: option.splits)
qed (use assms in \<open>auto simp: live_exec.simps proc_moves_def split: if_splits option.splits\<close>)

lemma live_opened_past:
  assumes "live_run req as (live_start j) = Some v" and "lv_stream v = Some s"
  shows "unopened (ss_pc s e) \<or> ss_past s e = live_opened req e as (live_start j)"
proof -
  let ?early = "\<lambda>v. \<forall>s. lv_stream v = Some s \<longrightarrow> unopened (ss_pc s e)"
  let ?late = "\<lambda>n v. \<exists>s. lv_stream v = Some s \<and> \<not> unopened (ss_pc s e) \<and> ss_past s e = n"
  have "?early v \<or> ?late (live_opened req e as (live_start j)) v"
    unfolding live_opened_def
  proof (rule first_action_settles [where f = "\<lambda>u. length (output_of e (live_job u))", OF assms(1)])
    show "?early (live_start j)" by (simp add: live_start_def)
  next
    fix a u w
    assume early: "?early u" and x: "live_exec req a u = Some w" "a \<noteq> LStream (AStream e)"
    from live_exec_stream [OF x(1)] show "?early w"
    proof (elim disjE conjE exE)
      fix b s t
      assume b: "a = LStream b" "lv_stream u = Some s" "lv_stream w = Some t"
        "stream_exec (stream_FromBeginning req) b (stream_view (lv_proc u) s) = Some t"
      from unopened_step(1) [OF b(4), of e] b(1-3) early x(2) show "?early w" by simp
    qed (use early in \<open>auto simp: stream_start_def unopened_def\<close>)
  next
    fix u w
    assume early: "?early u" and x: "live_exec req (LStream (AStream e)) u = Some w"
    obtain s t where t: "lv_stream u = Some s" "lv_stream w = Some t"
      "stream_exec (stream_FromBeginning req) (AStream e) (stream_view (lv_proc u) s) = Some t"
      using x by (auto simp: live_exec.simps simp del: stream_exec.simps split: option.splits if_splits)
    from opening_step [OF t(3)] early t(1,2) show "?late (length (output_of e (live_job u))) w" by simp
  next
    fix a n u w
    assume late: "?late n u" and x: "live_exec req a u = Some w"
    from live_exec_stream [OF x] show "?late n w"
    proof (elim disjE conjE exE)
      fix b s t
      assume b: "a = LStream b" "lv_stream u = Some s" "lv_stream w = Some t"
        "stream_exec (stream_FromBeginning req) b (stream_view (lv_proc u) s) = Some t"
      from opened_stays [OF b(4), of e] b(2,3) late show "?late n w" by auto
    qed (use late in auto)
  qed
  with assms(2) show ?thesis by auto
qed

abbreviation short_run :: "live_action list" where
  "short_run \<equiv> [LWrite False [7], LExit 3, LClose False, LClose True, LOpen]"

lemma short_run_result:
  obtains v s where "live_run stdout_req short_run (live_start j) = Some v"
    "reach ((=) (live_start j)) (live_step stdout_req) v" "lv_status v = Some 3" "\<And>e. lv_closed v e"
    "lv_wrote v = (\<lambda>e. if e then [] else [7])" "lv_stream v = Some s" "ss_ctx s = None" "selecting s"
    "live_job v = j"
proof -
  have "\<exists>v s. live_run stdout_req short_run (live_start j) = Some v \<and> lv_status v = Some 3 \<and>
      (\<forall>e. lv_closed v e) \<and> lv_wrote v = (\<lambda>e. if e then [] else [7]) \<and> lv_stream v = Some s \<and>
      ss_ctx s = None \<and> selecting s \<and> live_job v = j"
    by (auto simp: live_exec.simps live_start_def stream_start_def selecting_def fun_eq_iff proc_start_def)
  then show thesis
    using that live_actions.run_reach [of stdout_req short_run "live_start j" _ "(=) (live_start j)"]
      reach.reach_init [of "(=) (live_start j)", OF refl]
    by blast
qed

lemma sample_fresh:
  "fresh_job (newJob t ns i c as)" "stdout (newJob t ns i c as) = []" "stderr (newJob t ns i c as) = []"
  "listener_list (newJob t ns i c as) = []"
  by (simp_all add: fresh_job_def newJob_wf) (simp_all add: newJob_def listener_list_def)

section \<open>Properties\<close>

text \<open>C5: Nothing a command writes is lost on the way into its job, whatever the interleaving of the
  command, the readers, the waiting goroutine, other callers and a stream: what it has written to an
  output is what the job has of it followed by what is still in the pipe. When the job has an exit
  code, the command has exited with that status, both pipes have been read to their end, and the job
  has all that was written.\<close>

theorem nothing_written_is_lost:
  assumes "fresh_job j" and "stdout j = []" and "stderr j = []" and "listener_list j = []"
    and "reach ((=) (live_start j)) (live_step req) v"
  shows "lv_wrote v e = output_of e (live_job v) @ lv_pipe v e \<and>
    (\<forall>c. exitCode (live_job v) = Some c \<longrightarrow>
       lv_status v = Some c \<and> lv_closed v e \<and> lv_wrote v e = output_of e (live_job v))"
proof -
  have inv: "live_inv req v" using assms by (rule live_reach_inv)
  with live_exit_code [OF inv] show ?thesis by (auto simp: live_inv_def pipes_ok_def)
qed

theorem nothing_written_is_lost_witness:
  "\<exists>v. live_run stdout_req short_run (live_start (newJob 0 [] ''i'' ''c'' [])) = Some v \<and>
     stdout (live_job v) = [] \<and> lv_wrote v False = [7] \<and> lv_pipe v False = [7]"
proof -
  let ?j = "newJob 0 [] ''i'' ''c'' []"
  obtain v where v: "live_run stdout_req short_run (live_start ?j) = Some v"
    "reach ((=) (live_start ?j)) (live_step stdout_req) v" "lv_wrote v = (\<lambda>e. if e then [] else [7])"
    "live_job v = ?j"
    using short_run_result [of ?j] by metis
  from nothing_written_is_lost [OF sample_fresh v(2), of False] v show ?thesis
    by (intro exI [of _ v]) (simp add: output_of_def sample_fresh)
qed

text \<open>C4: From a submission to the client that tails the job: once \<open>SubmitJob\<close> has stored a job, the
  command, the goroutines of the job and the stream a client opens may interleave in any way. Let \<open>n e\<close>
  be how much the job had of an output when, in that run, the stream's goroutine for it was about to
  take its first step. When the stream ends well, the tail command ends without an error, the message
  before the end carries the status the command exited with, and what is printed is, for one output, a
  prefix of what the command wrote to it (of all of it, or with \<open>--no-past\<close> of what follows its first
  \<open>n\<close> bytes), and not shorter if at most one chunk came after them; for both outputs it is an
  interleaving of two such prefixes.\<close>

theorem submitted_job_is_tailed:
  assumes "worker_inv w" and "env_uuid env \<noteq> []"
    and "worker_SubmitJob env w ns i command args (map WithRootFS roots) = Ret ((None, Some p), w')"
    and "tail_request noPast onlyStderr both i' = Inr req"
    and "live_run req as (live_start (heap w' ! p)) = Some v"
    and "\<And>e. n e = live_opened req e as (live_start (heap w' ! p))"
    and "lv_stream v = Some s" and "ss_main s = MReturned None"
  shows "\<exists>c out x. lv_status v = Some c \<and> last (ss_sent s) = completed_message c \<and>
    (- (2 ^ 31) \<le> c \<and> c < 2 ^ 31 \<longrightarrow> sint (GetCompletedExitCode (Some (last (ss_sent s)))) = c) \<and>
    tailCmd (Inr conn) (\<lambda>_ _. Inr (map Inr (ss_sent s))) noPast onlyStderr both False False i' = (Some None, out) \<and>
    (if both then out \<in> shuffles (x False) (x True) else out = x onlyStderr) \<and>
    (\<forall>e. both \<or> e = onlyStderr \<longrightarrow>
       prefix (x e) (asked_output (\<not> noPast) (n e) (lv_wrote v e)) \<and>
       (length (lv_wrote v e) \<le> n e + chunkSize \<longrightarrow> x e = asked_output (\<not> noPast) (n e) (lv_wrote v e)))"
proof -
  have "reach ((=) (live_start (heap w' ! p))) (live_step req) v"
    using live_actions.run_reach [OF assms(5)] by (simp add: reach_init)
  then have inv: "live_inv req v" by (rule submitted_live_inv [OF assms(1-3)])
  then have sinv: "stream_inv req (stream_view (lv_proc v) s)"
    using assms(7) by (simp add: live_inv_def stream_part_ok_def)
  have opened: "unopened (ss_pc s e) \<or> ss_past s e = n e" for e
    using live_opened_past [OF assms(5,7), of e] by (simp add: assms(6))
  note rq = tail_request_wants [OF assms(4)]
  note ended = live_ended [OF inv assms(7,8), unfolded rq]
  obtain ms c where ms: "ss_sent s = ms @ [completed_message c]" "no_completion ms" "lv_status v = Some c"
    using ended by blast
  have past: "ss_past s e = n e" if "both \<or> e = onlyStderr" for e
    using sent_from_opening(4) [OF sinv, of e "n e"] opened [of e] that assms(8) by (simp add: rq)
  have sent: "prefix (received e (ss_sent s)) (asked_output (\<not> noPast) (n e) (lv_wrote v e)) \<and>
      (length (lv_wrote v e) \<le> n e + chunkSize \<longrightarrow>
         received e (ss_sent s) = asked_output (\<not> noPast) (n e) (lv_wrote v e))"
    if "both \<or> e = onlyStderr" for e
    using ended [of e] that unfolding past [OF that] by blast
  have none: "\<not> both \<and> e \<noteq> onlyStderr \<longrightarrow> received e (ss_sent s) = []" for e
    using ended [of e] by blast
  obtain out where out: "tailCmd (Inr conn) (\<lambda>_ _. Inr (map Inr (ss_sent s))) noPast onlyStderr both False
      False i' = (Some None, out)"
    "out \<in> shuffles (received False (ss_sent s)) (received True (ss_sent s))"
    using tail_loop_ended [OF ms(2,1) assms(4)] .
  have one: "out = received onlyStderr (ss_sent s)" if "\<not> both"
    using out(2) none [of "\<not> onlyStderr"] that by (cases onlyStderr) auto
  show ?thesis
    using ms out one sent completed_code [of c]
    by (intro exI [of _ c] exI [of _ out] exI [of _ "\<lambda>e. received e (ss_sent s)"]) auto
qed

theorem submitted_job_is_tailed_witness:
  "\<exists>(v :: live) s. lv_stream v = Some s \<and> lv_status v = Some 3 \<and>
     last (ss_sent s) = completed_message 3 \<and>
     tailCmd (Inr ()) (\<lambda>_ _. Inr (map Inr (ss_sent s))) False False False False False ''i'' = (Some None, [7])"
proof -
  obtain w' where w': "worker_SubmitJob sample_env sample_worker ''ns'' [] ''echo'' [''hi'']
      (map WithRootFS []) = Ret ((None, Some 0), w')"
    by (simp add: worker_SubmitJob_def submit_body_def submit_reserve_def submit_make_def
        submit_commit_def runner_start_def execRunner_start_def startCmd_def job_entry_def
        newJob_def mutex_defs Let_def)
  have u: "env_uuid sample_env \<noteq> []" by simp
  have r: "tail_request False False False ''i'' = Inr stdout_req" by (simp add: tail_request_def)
  obtain v s where v: "reach ((=) (live_start (heap w' ! 0))) (live_step stdout_req) v" "lv_status v = Some 3"
    "\<And>e. lv_closed v e" "lv_wrote v = (\<lambda>e. if e then [] else [7])" "lv_stream v = Some s" "ss_ctx s = None"
    "selecting s" and v0: "live_run stdout_req short_run (live_start (heap w' ! 0)) = Some v"
    using short_run_result by metis
  have "live_inv stdout_req v" by (rule submitted_live_inv [OF sample_worker_inv u w' v(1)])
  from live_completes [OF this v(2,3,5,6)] v(7) obtain w s' where
    w: "(live_server_step stdout_req)\<^sup>*\<^sup>* v w" "same_system v w" "lv_stream w = Some s'" "ss_main s' = MReturned None"
    by blast
  have "(live_step stdout_req)\<^sup>*\<^sup>* (live_start (heap w' ! 0)) w"
    using live_own_steps [OF w(1)] live_actions.run_steps [OF v0] by (meson rtranclp_trans)
  then obtain as where as: "live_run stdout_req as (live_start (heap w' ! 0)) = Some w"
    using live_actions.steps_run by blast
  from submitted_job_is_tailed [OF sample_worker_inv u w' r as refl w(3,4), of "()"] w(2) v(2,4)
  show ?thesis
    by (intro exI [of _ w] exI [of _ s']) (auto simp: same_system_def asked_output_def chunkSize_def w(3))
qed

text \<open>C10: A job whose command has exited and let go of its pipes, with a client tailing it, is always
  served to the end: from every reachable state the goroutines of the server can, by their own steps
  alone, read what is left in the pipes, set the exit code and end the stream well; nothing more has
  to happen to the job, to the command or at the client.\<close>

theorem finished_job_is_served:
  assumes "fresh_job j" and "stdout j = []" and "stderr j = []" and "listener_list j = []"
    and "reach ((=) (live_start j)) (live_step req) v"
    and "lv_status v = Some c" and "lv_closed v False" and "lv_closed v True"
    and "lv_stream v = Some s" and "ss_ctx s = None" and "selecting s \<or> ss_main s = MFinal"
  shows "\<exists>w s'. (live_server_step req)\<^sup>*\<^sup>* v w \<and> lv_stream w = Some s' \<and> ss_main s' = MReturned None \<and>
    lv_status w = Some c \<and> lv_wrote w = lv_wrote v"
proof -
  have inv: "live_inv req v" using assms(1-5) by (rule live_reach_inv)
  have "lv_closed v e" for e using assms(7,8) by (cases e) simp_all
  from live_completes [OF inv assms(6) this assms(9-11)] assms(6) show ?thesis
    by (auto simp: same_system_def)
qed

theorem finished_job_is_served_witness:
  "\<exists>v w s'. (live_server_step stdout_req)\<^sup>*\<^sup>* v w \<and> lv_pipe v False = [7] \<and> lv_stream w = Some s' \<and>
     ss_main s' = MReturned None \<and> lv_status w = Some 3"
proof -
  let ?j = "newJob 0 [] ''i'' ''c'' []"
  obtain v s where v: "reach ((=) (live_start ?j)) (live_step stdout_req) v" "lv_status v = Some 3"
    "\<And>e. lv_closed v e" "lv_stream v = Some s" "ss_ctx s = None" "selecting s"
    "lv_wrote v = (\<lambda>e. if e then [] else [7])" "live_job v = ?j"
    using short_run_result [of ?j] by metis
  have "lv_pipe v False = [7]"
    using live_reach_inv [OF sample_fresh v(1)] v(7,8)
    by (auto simp: live_inv_def pipes_ok_def output_of_def sample_fresh dest: spec [of _ False])
  with finished_job_is_served [OF sample_fresh v(1,2) v(3) v(3) v(4,5)] v(6) show ?thesis
    by blast
qed

end
