(* ===== verification/DirectExec.thy ===== *)
theory DirectExec
  imports Service
begin

text \<open>
  \<open>cmd/exec.go\<close>: running one command directly. The job is read over time as in theory
  \<open>JobReads\<close>; the events that may reach the select (an update, a signal) are a list, one for
  each time the code waits, and the run is \<open>DWaiting\<close> when the list is used up. A write to the
  terminal succeeds or fails by the function \<open>wr\<close> of the access it follows.
\<close>

section \<open>drainOutput\<close>

text \<open>The source reads stdout for stderr and stderr for stdout.\<close>

definition drain_reader :: "bool \<Rightarrow> (nat \<Rightarrow> job) \<Rightarrow> reader" where
  "drain_reader is_err h = (\<lambda>t. if is_err then ReadStdout (h t) else ReadStderr (h t))"

type_synonym drained = "nat \<times> int \<times> go_error option \<times> byte list"

partial_function (option) drain_loop ::
  "reader \<Rightarrow> (nat \<Rightarrow> go_error option) \<Rightarrow> nat \<Rightarrow> byte list \<Rightarrow> int \<Rightarrow> byte list \<Rightarrow> drained go option" where
  "drain_loop fn wr t buf nextOffset out =
     (case fn t buf nextOffset of
        Panic \<Rightarrow> Some Panic
      | Block \<Rightarrow> Some Block
      | Ret (n, tot, code, err, buf') \<Rightarrow>
          if n = 0 \<or> err \<noteq> None then Some (Ret (Suc t, nextOffset, err, out))
          else (case wr t of
              Some e \<Rightarrow> Some (Ret (Suc t, nextOffset, Some e, out))
            | None \<Rightarrow> drain_loop fn wr (Suc t) buf' (nextOffset + int n) (out @ take n buf')))"

text \<open>The result: the next access, the next offset, the error and what was written.\<close>

definition drainOutput ::
  "(nat \<Rightarrow> job) \<Rightarrow> (nat \<Rightarrow> go_error option) \<Rightarrow> bool \<Rightarrow> int \<Rightarrow> nat \<Rightarrow> drained go option" where
  "drainOutput h wr is_err startOffset t =
     drain_loop (drain_reader is_err h) wr t (replicate 1024 0) startOffset []"

section \<open>runDirectExec\<close>

record terminal =
  term_stdout :: "byte list"
  term_stderr :: "byte list"

text \<open>
  How the command ends: with \<open>os.Exit\<close> on a code, of which the system then keeps the low eight bits
  (\<open>exit_status\<close> of theory \<open>LimitedRun\<close>); with an error for cobra; or not within the given list.
\<close>

datatype direct_result = DExit int | DError go_error | DWaiting

text \<open>
  A context made by \<open>context.WithTimeout\<close> is done as soon as its parent is.
\<close>

definition child_ctx :: "go_error option \<Rightarrow> go_error option \<Rightarrow> go_error option" where
  "child_ctx parent own = (case parent of Some e \<Rightarrow> Some e | None \<Rightarrow> own)"

text \<open>
  The signal branch on a job: a graceful stop whose context ends with \<open>ctx_err\<close>, and if that
  fails a forced one, whose context is made from the first one. \<open>es1\<close> and \<open>es2\<close> are what
  happens to the job before each select, \<open>own\<close> the second context's own time-out.
\<close>

definition direct_signal ::
  "go_error option \<Rightarrow> bool \<Rightarrow> job_event list \<Rightarrow> go_error option \<Rightarrow> bool \<Rightarrow> job_event list \<Rightarrow> job \<Rightarrow>
     direct_result go" where
  "direct_signal ctx_err prefer1 es1 own prefer2 es2 j =
     (let j1 = job_after (Stop_request False j) es1 in
      go_bind (Stop_wait ctx_err prefer1 j1) (\<lambda>(code, err).
        if err = None then Ret (DExit code)
        else
          let j2 = job_after (Stop_request True j1) es2 in
          go_bind (Stop_wait (child_ctx ctx_err own) prefer2 j2) (\<lambda>(code, err).
            if err = None then Ret (DExit code)
            else Ret (DError (Errorf ''failed shutting down job'')))))"

datatype wake =
    WakeUpdate
  | WakeSignal "go_error option" bool "job_event list" "go_error option" bool "job_event list"

text \<open>One turn of the loop, up to the select: the exit code is looked at before draining.\<close>

definition direct_turn ::
  "(nat \<Rightarrow> job) \<Rightarrow> (nat \<Rightarrow> go_error option) \<Rightarrow> nat \<Rightarrow> int \<Rightarrow> int \<Rightarrow> terminal \<Rightarrow>
     ((direct_result + nat \<times> int \<times> int) \<times> terminal) go option" where
  "direct_turn h wr t stdoutOffset stderrOffset tm =
     (let code = ExitCode (h t) in
      run_bind (drainOutput h wr False stdoutOffset (Suc t)) (\<lambda>(t1, so, err, out).
        let tm1 = tm\<lparr>term_stdout := term_stdout tm @ out\<rparr> in
        case err of Some e \<Rightarrow> Some (Ret (Inl (DError e), tm1)) | None \<Rightarrow>
        run_bind (drainOutput h wr True stderrOffset t1) (\<lambda>(t2, se, err, out).
          let tm2 = tm1\<lparr>term_stderr := term_stderr tm1 @ out\<rparr> in
          case err of Some e \<Rightarrow> Some (Ret (Inl (DError e), tm2)) | None \<Rightarrow>
          (case code of
             Some c \<Rightarrow> Some (Ret (Inl (DExit c), tm2))
           | None \<Rightarrow> Some (Ret (Inr (t2, so, se), tm2))))))"

fun direct_loop ::
  "(nat \<Rightarrow> job) \<Rightarrow> (nat \<Rightarrow> go_error option) \<Rightarrow> wake list \<Rightarrow> nat \<Rightarrow> int \<Rightarrow> int \<Rightarrow> terminal \<Rightarrow>
     (direct_result \<times> terminal) go option" where
  "direct_loop h wr wakes t so se tm =
     run_bind (direct_turn h wr t so se tm) (\<lambda>(r, tm').
       case r of
         Inl d \<Rightarrow> Some (Ret (d, tm'))
       | Inr (t', so', se') \<Rightarrow>
           (case wakes of
              [] \<Rightarrow> Some (Ret (DWaiting, tm'))
            | WakeUpdate # ws \<Rightarrow> direct_loop h wr ws t' so' se' tm'
            | WakeSignal ctx_err p1 es1 own p2 es2 # ws \<Rightarrow>
                run_bind (Some (direct_signal ctx_err p1 es1 own p2 es2 (h t')))
                  (\<lambda>d. Some (Ret (d, tm')))))"

declare direct_loop.simps [simp del]

text \<open>The listener channel is \<open>ch\<close>; the job then goes on with the events \<open>evs\<close>.\<close>

definition runDirectExec ::
  "env \<Rightarrow> go_error + 64 word \<Rightarrow> JobLimitConfig option \<Rightarrow> string \<Rightarrow> string list \<Rightarrow> (job \<Rightarrow> job) list \<Rightarrow>
     nat \<Rightarrow> (nat \<Rightarrow> job_event list) \<Rightarrow> (nat \<Rightarrow> go_error option) \<Rightarrow> wake list \<Rightarrow>
     (direct_result \<times> terminal) go option" where
  "runDirectExec env stat limits command args opts ch evs wr wakes =
     (let blank = \<lparr>term_stdout = [], term_stderr = []\<rparr> in
      case worker_New stat limits of
        (Inl e, _) \<Rightarrow> Some (Ret (DError (Wrapf ''starting worker'' e), blank))
      | (Inr w, _) \<Rightarrow>
          run_bind (Some (worker_SubmitJob env w [] [] command args opts)) (\<lambda>((err, p), w').
            case err of
              Some e \<Rightarrow> Some (Ret (DError (Wrapf ''submitting job'' e), blank))
            | None \<Rightarrow> (case p of
                None \<Rightarrow> Some Panic
              | Some q \<Rightarrow>
                  direct_loop (job_at (AddUpdateListener ch (heap w' ! q)) evs) wr wakes 0 0 0 blank)))"

text \<open>The command: limits unless they are turned off, a root filesystem if one is given.\<close>

definition directExecCmd ::
  "env \<Rightarrow> go_error + 64 word \<Rightarrow> bool \<Rightarrow> string \<Rightarrow> string list \<Rightarrow>
     nat \<Rightarrow> (nat \<Rightarrow> job_event list) \<Rightarrow> (nat \<Rightarrow> go_error option) \<Rightarrow> wake list \<Rightarrow>
     (direct_result \<times> terminal) go option" where
  "directExecCmd env stat withoutLimits root args ch evs wr wakes =
     (let config = (if withoutLimits then None else StandardConfig);
          opts = (if root \<noteq> [] then map WithRootFS [root] else map WithRootFS []) in
      case args of
        [] \<Rightarrow> Some (Ret (DError (Errorf ''at least one argument required''),
                \<lparr>term_stdout = [], term_stderr = []\<rparr>))
      | command # rest \<Rightarrow> runDirectExec env stat config command rest opts ch evs wr wakes)"

section \<open>What a drain writes\<close>

text \<open>For any reader of the contract: the stream from the offset on, up to where it stops.\<close>

definition drain_result :: "(nat \<Rightarrow> byte list) \<Rightarrow> nat \<Rightarrow> nat \<Rightarrow> byte list \<Rightarrow> drained go \<Rightarrow> bool" where
  "drain_result content t off out r \<longleftrightarrow>
     (\<exists>t' off' err new. r = Ret (Suc t', int off', err, out @ new) \<and> t \<le> t' \<and>
        take off (content t) @ new = take off' (content t') \<and> off' \<le> length (content t') \<and>
        (err = None \<longrightarrow> off' = length (content t')))"

context output_reader
begin

definition drain_post :: "reader \<Rightarrow> (nat \<Rightarrow> go_error option) \<Rightarrow> nat \<Rightarrow> byte list \<Rightarrow> int \<Rightarrow> byte list \<Rightarrow>
    drained go \<Rightarrow> bool" where
  "drain_post g wr t b z out r \<longleftrightarrow>
     (\<forall>off. g = fn \<longrightarrow> z = int off \<longrightarrow> off \<le> length (content t) \<longrightarrow> b \<noteq> [] \<longrightarrow>
        drain_result content t off out r)"

lemma drain_post_step:
  assumes "\<And>g wr t b z out y. loop g wr t b z out = Some y \<Longrightarrow> drain_post g wr t b z out y"
    and "(case g t b z of
        Panic \<Rightarrow> Some Panic
      | Block \<Rightarrow> Some Block
      | Ret (n, tot, code, err, buf') \<Rightarrow>
          if n = 0 \<or> err \<noteq> None then Some (Ret (Suc t, z, err, out))
          else (case wr t of
              Some e \<Rightarrow> Some (Ret (Suc t, z, Some e, out))
            | None \<Rightarrow> loop g wr (Suc t) buf' (z + int n) (out @ take n buf'))) = Some y"
  shows "drain_post g wr t b z out y"
  unfolding drain_post_def
proof (intro allI impI)
  fix off
  assume g: "g = fn" "z = int off" and o: "off \<le> length (content t)" "b \<noteq> []"
  define c where c: "c = take (length b) (drop off (content t))"
  note ch = chunk_cases [OF o c]
  obtain tot code where r: "g t b z = Ret (length c, tot, code, None, c @ drop (length c) b)"
    using read_step [OF o c] g by auto
  have stop: "drain_result content t off out (Ret (Suc t, int off, err, out @ []))"
    if "err = None \<Longrightarrow> off = length (content t)" for err
    unfolding drain_result_def using that o(1) by (intro exI [of _ t] exI) auto
  show "drain_result content t off out y"
  proof (cases "c = [] \<or> wr t \<noteq> None")
    case True
    with assms(2) g r ch(1) stop [of None] stop [of "wr t"] show ?thesis
      by (auto split: option.splits if_splits)
  next
    case False
    then have c0: "0 < length c" and w: "wr t = None" by auto
    have l: "off + length c \<le> length (content (Suc t))"
      using ch(2) content_le [of t] by linarith
    have "loop g wr (Suc t) (c @ drop (length c) b) (z + int (length c)) (out @ c) = Some y"
      using assms(2) r c0 w by simp
    then have "drain_post g wr (Suc t) (c @ drop (length c) b) (z + int (length c)) (out @ c) y"
      by (rule assms(1))
    then have "drain_result content (Suc t) (off + length c) (out @ c) y"
      unfolding drain_post_def using g l c0 by auto
    then obtain t' off' err new where n: "y = Ret (Suc t', int off', err, (out @ c) @ new)" "Suc t \<le> t'"
      "take (off + length c) (content (Suc t)) @ new = take off' (content t')"
      "off' \<le> length (content t')" "err = None \<longrightarrow> off' = length (content t')"
      unfolding drain_result_def by blast
    with next_prefix [OF o c] show ?thesis
      unfolding drain_result_def
      by (intro exI [of _ t'] exI [of _ off'] exI [of _ err] exI [of _ "c @ new"])
        (auto simp flip: append_assoc)
  qed
qed

lemma drain_step:
  assumes "off \<le> length (content t)" and "b \<noteq> []" and "c = take (length b) (drop off (content t))"
  shows "drain_loop fn wr t b (int off) out =
    (if off = length (content t) then Some (Ret (Suc t, int off, None, out))
     else case wr t of
         Some e \<Rightarrow> Some (Ret (Suc t, int off, Some e, out))
       | None \<Rightarrow> drain_loop fn wr (Suc t) (c @ drop (length c) b) (int (off + length c)) (out @ c))"
proof -
  obtain tot code where "fn t b (int off) = Ret (length c, tot, code, None, c @ drop (length c) b)"
    using read_step [OF assms] .
  then show ?thesis
    using chunk_cases(1) [OF assms] by (subst drain_loop.simps) (simp split: option.split)
qed

text \<open>A short stream that does not change, on a terminal that takes everything.\<close>

lemma drain_whole:
  assumes "content t = xs" and "content (Suc t) = xs" and "xs \<noteq> []" and "length xs \<le> length b"
  shows "drain_loop fn (\<lambda>_. None) t b 0 out = Some (Ret (Suc (Suc t), int (length xs), None, out @ xs))"
proof -
  have b: "b \<noteq> []" using assms(3,4) by auto
  have c: "xs = take (length b) (drop 0 (content t))" using assms(1,4) by simp
  have 1: "drain_loop fn (\<lambda>_. None) t b (int 0) out =
      drain_loop fn (\<lambda>_. None) (Suc t) (xs @ drop (length xs) b) (int (length xs)) (out @ xs)"
    using drain_step [OF _ b c, of "\<lambda>_. None" out] assms(1,3) by simp
  have 2: "drain_loop fn (\<lambda>_. None) (Suc t) (xs @ drop (length xs) b) (int (length xs)) (out @ xs) =
      Some (Ret (Suc (Suc t), int (length xs), None, out @ xs))"
    by (subst drain_step [OF _ _ refl]) (simp_all add: assms(2,3))
  show ?thesis using 1 2 by simp
qed

lemma drain_nothing:
  "content t = [] \<Longrightarrow> b \<noteq> [] \<Longrightarrow> drain_loop fn wr t b 0 out = Some (Ret (Suc t, 0, None, out))"
  using drain_step [of 0 t b "[]"] by simp

lemma drain_partial: "drain_loop g wr t b z out = Some r \<Longrightarrow> drain_post g wr t b z out r"
  by (rule drain_loop.raw_induct [where P = drain_post]) (rule drain_post_step)

end

lemma drain_reader_eq: "drain_reader is_err h = (\<lambda>t. read_fn (\<not> is_err) (h t))"
  by (simp add: drain_reader_def read_fn_def fun_eq_iff)

lemma drainOutput_result:
  assumes "drainOutput (job_at j evs) wr is_err (int off) t = Some r"
    and "off \<le> length (output_of (\<not> is_err) (job_at j evs t))"
  shows "drain_result (\<lambda>t. output_of (\<not> is_err) (job_at j evs t)) t off [] r"
  using job_reader.drain_partial [where is_err = "\<not> is_err" and j = j and evs = evs,
      OF assms(1) [unfolded drainOutput_def drain_reader_eq]] assms(2)
  by (simp add: job_reader.drain_post_def)

section \<open>The loop\<close>

text \<open>
  Between turns, what is on the terminal is what was read so far: of the job's stderr on stdout
  and of its stdout on stderr, as \<open>drainOutput\<close> has it.
\<close>

definition shown :: "(nat \<Rightarrow> job) \<Rightarrow> nat \<Rightarrow> nat \<Rightarrow> nat \<Rightarrow> terminal \<Rightarrow> bool" where
  "shown h t so se tm \<longleftrightarrow>
     so \<le> length (stderr (h t)) \<and> term_stdout tm = take so (stderr (h t)) \<and>
     se \<le> length (stdout (h t)) \<and> term_stderr tm = take se (stdout (h t))"

lemma job_at_take:
  assumes "s \<le> t" and "n \<le> length (output_of is_err (job_at j evs s))"
  shows "take n (output_of is_err (job_at j evs t)) = take n (output_of is_err (job_at j evs s))"
    and "n \<le> length (output_of is_err (job_at j evs t))"
  using job_at_output [OF assms(1), of is_err j evs] assms(2)
  by (auto intro: prefix_take_same dest: prefix_length_le)

text \<open>One drain, for a stream of which \<open>off\<close> bytes were shown at an earlier access.\<close>

lemma drain_shows:
  assumes "drainOutput (job_at j evs) wr is_err (int off) t = Some r" and "s \<le> t"
    and "off \<le> length (output_of (\<not> is_err) (job_at j evs s))"
    and "prior = take off (output_of (\<not> is_err) (job_at j evs s))"
  shows "\<exists>t' off' err new. r = Ret (Suc t', int off', err, new) \<and> t \<le> t' \<and>
    (\<forall>u \<ge> t'. off' \<le> length (output_of (\<not> is_err) (job_at j evs u)) \<and>
       prior @ new = take off' (output_of (\<not> is_err) (job_at j evs u))) \<and>
    (err = None \<longrightarrow> prior @ new = output_of (\<not> is_err) (job_at j evs t'))"
proof -
  note pre = job_at_take [OF assms(2,3)]
  obtain t' off' err new where r: "r = Ret (Suc t', int off', err, new)" "t \<le> t'"
    "prior @ new = take off' (output_of (\<not> is_err) (job_at j evs t'))"
    "off' \<le> length (output_of (\<not> is_err) (job_at j evs t'))"
    "err = None \<longrightarrow> off' = length (output_of (\<not> is_err) (job_at j evs t'))"
    using drainOutput_result [OF assms(1) pre(2)] unfolding drain_result_def pre(1) assms(4) by auto
  have "off' \<le> length (output_of (\<not> is_err) (job_at j evs u))"
    "prior @ new = take off' (output_of (\<not> is_err) (job_at j evs u))" if "t' \<le> u" for u
    using job_at_take [OF that r(4)] by (simp_all only: r(3))
  moreover have "err = None \<longrightarrow> prior @ new = output_of (\<not> is_err) (job_at j evs t')"
    using r(3,5) by auto
  ultimately show ?thesis using r(1,2) by blast
qed

lemma direct_turn_shown:
  assumes "direct_turn (job_at j evs) wr t (int so) (int se) tm = Some (Ret (r, tm'))"
    and "shown (job_at j evs) t so se tm"
  obtains t' so' se' where "t \<le> t'" "shown (job_at j evs) t' so' se' tm'"
    "(\<exists>d. r = Inl d) \<or> r = Inr (t', int so', int se')"
    "\<And>c. r = Inl (DExit c) \<Longrightarrow> exitCode (job_at j evs t) = Some c \<and>
       (\<exists>u v. t \<le> u \<and> t \<le> v \<and> term_stdout tm' = stderr (job_at j evs u) \<and>
              term_stderr tm' = stdout (job_at j evs v))"
proof -
  let ?h = "job_at j evs"
  have pre: "so \<le> length (output_of True (?h t))" "term_stdout tm = take so (output_of True (?h t))"
    "se \<le> length (output_of False (?h t))" "term_stderr tm = take se (output_of False (?h t))"
    using assms(2) by (simp_all add: shown_def output_of_def)
  from assms(1) obtain r1 where d1: "drainOutput ?h wr False (int so) (Suc t) = Some r1"
    by (cases "drainOutput ?h wr False (int so) (Suc t)") (auto simp: direct_turn_def Let_def)
  obtain t1 so' e1 new1 where 1: "r1 = Ret (Suc t1, int so', e1, new1)" "Suc t \<le> t1"
    "\<And>u. t1 \<le> u \<Longrightarrow> so' \<le> length (output_of True (?h u)) \<and>
       term_stdout tm @ new1 = take so' (output_of True (?h u))"
    "e1 = None \<Longrightarrow> term_stdout tm @ new1 = output_of True (?h t1)"
    using drain_shows [OF d1 le_SucI [OF order_refl], of "term_stdout tm", unfolded not_False_eq_True,
        OF pre(1,2)] by blast
  show thesis
  proof (cases e1)
    case (Some e)
    with assms(1) d1 1(1) have "r = Inl (DError e)" "tm' = tm\<lparr>term_stdout := term_stdout tm @ new1\<rparr>"
      by (auto simp: direct_turn_def Let_def)
    with 1(2) 1(3) [OF order_refl] pre(4) job_at_take [OF _ pre(3), of t1] show thesis
      by (intro that [of t1 so' se]) (simp_all add: shown_def output_of_def)
  next
    case None
    with assms(1) d1 1(1) obtain r2 where d2: "drainOutput ?h wr True (int se) (Suc t1) = Some r2"
      by (cases "drainOutput ?h wr True (int se) (Suc t1)") (auto simp: direct_turn_def Let_def)
    obtain t2 se' e2 new2 where 2: "r2 = Ret (Suc t2, int se', e2, new2)" "Suc t1 \<le> t2"
      "\<And>u. t2 \<le> u \<Longrightarrow> se' \<le> length (output_of False (?h u)) \<and>
         term_stderr tm @ new2 = take se' (output_of False (?h u))"
      "e2 = None \<Longrightarrow> term_stderr tm @ new2 = output_of False (?h t2)"
      using drain_shows [OF d2, of t "term_stderr tm", unfolded not_True_eq_False, OF _ pre(3,4)] 1(2)
      by (meson Suc_leD le_SucI)
    let ?tm = "tm\<lparr>term_stdout := term_stdout tm @ new1, term_stderr := term_stderr tm @ new2\<rparr>"
    have tm': "tm' = ?tm" and res: "r = (case e2 of Some e \<Rightarrow> Inl (DError e)
        | None \<Rightarrow> (case exitCode (?h t) of Some c \<Rightarrow> Inl (DExit c) | None \<Rightarrow> Inr (Suc t2, int so', int se')))"
      using assms(1) d1 d2 1(1) 2(1) None
      by (auto simp: direct_turn_def Let_def ExitCode_def split: option.splits)
    show thesis
    proof (rule that [of "Suc t2" so' se'])
      show "t \<le> Suc t2" using 1(2) 2(2) by simp
      show "shown ?h (Suc t2) so' se' tm'"
        using 1(3) [of "Suc t2"] 2(3) [of "Suc t2"] 2(2) by (simp add: tm' shown_def output_of_def)
      show "(\<exists>d. r = Inl d) \<or> r = Inr (Suc t2, int so', int se')"
        by (simp add: res split: option.splits)
    next
      fix c assume "r = Inl (DExit c)"
      then have "e2 = None" "exitCode (?h t) = Some c" by (simp_all add: res split: option.splits)
      moreover have "t \<le> t1" "t \<le> t2" using 1(2) 2(2) by simp_all
      ultimately show "exitCode (?h t) = Some c \<and> (\<exists>u v. t \<le> u \<and> t \<le> v \<and>
          term_stdout tm' = stderr (?h u) \<and> term_stderr tm' = stdout (?h v))"
        using 1(4) [OF None] 2(4) unfolding tm' by (auto simp: output_of_def)
    qed
  qed
qed

lemma direct_loop_exit:
  assumes "direct_loop (job_at j evs) wr wakes t (int so) (int se) tm = Some (Ret (DExit c, tm'))"
    and "shown (job_at j evs) t so se tm" and "\<forall>a \<in> set wakes. a = WakeUpdate"
  shows "\<exists>s u v. exitCode (job_at j evs s) = Some c \<and> s \<le> u \<and> s \<le> v \<and>
    term_stdout tm' = stderr (job_at j evs u) \<and> term_stderr tm' = stdout (job_at j evs v)"
  using assms
proof (induction wakes arbitrary: t so se tm)
  case Nil
  from Nil(1) obtain r tm1 where t: "direct_turn (job_at j evs) wr t (int so) (int se) tm = Some (Ret (r, tm1))"
    by (auto simp: direct_loop.simps run_bind_eq_Ret)
  show ?case
  proof (rule direct_turn_shown [OF t Nil(2)])
    fix t' so' se'
    assume "(\<exists>d. r = Inl d) \<or> r = Inr (t', int so', int se')"
      and ex: "\<And>c. r = Inl (DExit c) \<Longrightarrow> exitCode (job_at j evs t) = Some c \<and>
       (\<exists>u v. t \<le> u \<and> t \<le> v \<and> term_stdout tm1 = stderr (job_at j evs u) \<and>
              term_stderr tm1 = stdout (job_at j evs v))"
    with Nil(1) t have "r = Inl (DExit c)" "tm' = tm1" by (auto simp: direct_loop.simps)
    with ex show ?case by blast
  qed
next
  case (Cons a ws)
  then have a: "a = WakeUpdate" by simp
  from Cons.prems(1) obtain r tm1 where t: "direct_turn (job_at j evs) wr t (int so) (int se) tm = Some (Ret (r, tm1))"
    by (auto simp: direct_loop.simps [of _ _ "a # ws"] run_bind_eq_Ret)
  show ?case
  proof (rule direct_turn_shown [OF t Cons.prems(2)])
    fix t' so' se'
    assume sh: "shown (job_at j evs) t' so' se' tm1" and r: "(\<exists>d. r = Inl d) \<or> r = Inr (t', int so', int se')"
      and ex: "\<And>c. r = Inl (DExit c) \<Longrightarrow> exitCode (job_at j evs t) = Some c \<and>
       (\<exists>u v. t \<le> u \<and> t \<le> v \<and> term_stdout tm1 = stderr (job_at j evs u) \<and>
              term_stderr tm1 = stdout (job_at j evs v))"
    from r show ?case
    proof
      assume "\<exists>d. r = Inl d"
      with Cons.prems(1) t have "r = Inl (DExit c)" "tm' = tm1"
        by (auto simp: direct_loop.simps [of _ _ "a # ws"])
      with ex show ?case by blast
    next
      assume "r = Inr (t', int so', int se')"
      with Cons.prems(1) t have "direct_loop (job_at j evs) wr ws t' (int so') (int se') tm1 =
          Some (Ret (DExit c, tm'))"
        unfolding a by (simp add: direct_loop.simps [of _ _ "WakeUpdate # ws"])
      from Cons.IH [OF this sh] Cons.prems(3) show ?case by simp
    qed
  qed
qed

text \<open>The job that a run reads: the one it submits to a worker of its own, with the listener.\<close>

definition direct_job ::
  "env \<Rightarrow> go_error + 64 word \<Rightarrow> JobLimitConfig option \<Rightarrow> string \<Rightarrow> string list \<Rightarrow> (job \<Rightarrow> job) list \<Rightarrow>
     nat \<Rightarrow> job option" where
  "direct_job env stat limits command args opts ch =
     (case worker_New stat limits of
        (Inr w, _) \<Rightarrow>
          (case worker_SubmitJob env w [] [] command args opts of
             Ret ((None, Some q), w') \<Rightarrow> Some (AddUpdateListener ch (heap w' ! q))
           | _ \<Rightarrow> None)
      | _ \<Rightarrow> None)"

lemma runDirectExec_job:
  assumes "runDirectExec env stat limits command args (map WithRootFS roots) ch evs wr wakes =
      Some (Ret (DExit c, tm))" and "env_uuid env \<noteq> []"
  obtains j where "direct_job env stat limits command args (map WithRootFS roots) ch = Some j"
    "Command j = command" "Args j = args" "stdout j = []" "stderr j = []"
    "direct_loop (job_at j evs) wr wakes 0 0 0 \<lparr>term_stdout = [], term_stderr = []\<rparr> =
       Some (Ret (DExit c, tm))"
proof -
  obtain r left where n: "worker_New stat limits = (r, left)" by (cases "worker_New stat limits")
  with assms(1) obtain w where w: "r = Inr w" by (cases r) (auto simp: runDirectExec_def)
  have inv: "worker_inv w" using New_inv n w by simp
  from assms(1) n w obtain err p w' where
    s: "worker_SubmitJob env w [] [] command args (map WithRootFS roots) = Ret ((err, p), w')"
    by (auto simp: runDirectExec_def Let_def run_bind_eq_Ret)
  from assms(1) n w s obtain q where q: "err = None" "p = Some q"
    by (cases err; cases p) (auto simp: runDirectExec_def Let_def)
  have e: "Command (heap w' ! q) = command \<and> Args (heap w' ! q) = args \<and>
      stdout (heap w' ! q) = [] \<and> stderr (heap w' ! q) = []"
    using submit_effect [OF inv assms(2) s [unfolded q] refl] by blast
  show thesis
  proof (rule that [of "AddUpdateListener ch (heap w' ! q)"])
    show "direct_loop (job_at (AddUpdateListener ch (heap w' ! q)) evs) wr wakes 0 0 0
        \<lparr>term_stdout = [], term_stderr = []\<rparr> = Some (Ret (DExit c, tm))"
      using assms(1) n w s q by (simp add: runDirectExec_def Let_def)
    show "direct_job env stat limits command args (map WithRootFS roots) ch = Some (AddUpdateListener ch (heap w' ! q))"
      using n w s q by (simp add: direct_job_def)
  qed (use e in \<open>simp_all add: AddUpdateListener_def Let_def\<close>)
qed

section \<open>Properties\<close>

text \<open>C36: When a directly run command ends on its own, it calls \<open>os.Exit\<close> with the exit code of the job it
  submitted, after everything that job wrote has been shown, but on the wrong streams: all of its stderr
  on stdout and all of its stdout on stderr. The job is the one the command's own worker made of the
  given command, arguments and root, whose life goes on by the events \<open>evs\<close> as a job's life does
  (\<open>timeline_ok\<close>).\<close>

theorem direct_exec_swaps_streams:
  assumes "directExecCmd env stat withoutLimits root (command # args) ch evs wr wakes = Some (Ret (DExit c, tm))"
    and "env_uuid env \<noteq> []" and "\<forall>a \<in> set wakes. a = WakeUpdate"
    and "the_job = direct_job env stat (if withoutLimits then None else StandardConfig) command args
      (map WithRootFS (if root \<noteq> [] then [root] else [])) ch"
    and "\<And>j. the_job = Some j \<Longrightarrow> timeline_ok j evs"
  shows "\<exists>j s. the_job = Some j \<and> Command j = command \<and> Args j = args \<and>
    exitCode (job_at j evs s) = Some c \<and>
    (\<forall>u \<ge> s. term_stdout tm = stderr (job_at j evs u) \<and> term_stderr tm = stdout (job_at j evs u))"
proof -
  define roots where "roots = (if root \<noteq> [] then [root] else [])"
  have "directExecCmd env stat withoutLimits root (command # args) ch evs wr wakes =
      runDirectExec env stat (if withoutLimits then None else StandardConfig) command args
        (map WithRootFS roots) ch evs wr wakes"
    by (simp add: directExecCmd_def roots_def)
  with assms(1) have "runDirectExec env stat (if withoutLimits then None else StandardConfig) command args
      (map WithRootFS roots) ch evs wr wakes = Some (Ret (DExit c, tm))" by simp
  then show ?thesis
  proof (rule runDirectExec_job [OF _ assms(2)])
    fix j
    assume dj: "direct_job env stat (if withoutLimits then None else StandardConfig) command args
        (map WithRootFS roots) ch = Some j"
      and j: "Command j = command" "Args j = args" "stdout j = []" "stderr j = []"
      and l: "direct_loop (job_at j evs) wr wakes 0 0 0 \<lparr>term_stdout = [], term_stderr = []\<rparr> =
        Some (Ret (DExit c, tm))"
    have "shown (job_at j evs) 0 0 0 \<lparr>term_stdout = [], term_stderr = []\<rparr>"
      by (simp add: shown_def)
    from direct_loop_exit [of j evs wr wakes 0 0 0 _ c tm, OF _ this assms(3)] l
    obtain s u v where e: "exitCode (job_at j evs s) = Some c" "s \<le> u" "s \<le> v"
      "term_stdout tm = stderr (job_at j evs u)" "term_stderr tm = stdout (job_at j evs v)" by auto
    from assms(4) dj have the_job: "the_job = Some j" by (simp only: roots_def)
    have same: "stdout (job_at j evs x) = stdout (job_at j evs s) \<and>
        stderr (job_at j evs x) = stderr (job_at j evs s)" if "s \<le> x" for x
      using job_at_extends [OF assms(5) [OF the_job] that] e(1) by (simp add: job_extends_def)
    have "term_stdout tm = stderr (job_at j evs x) \<and> term_stderr tm = stdout (job_at j evs x)"
      if "s \<le> x" for x
      unfolding e(4,5) using same [OF e(2)] same [OF e(3)] same [OF that] by simp
    with the_job e(1) j(1,2) show ?thesis by blast
  qed
qed

theorem direct_exec_swaps_streams_witness:
  "\<exists>tm. directExecCmd sample_env (Inr 0) True [] [''c''] 0
      (\<lambda>t. if t = 0 then [EvOutput False [7], EvDone 3] else []) (\<lambda>_. None) [] = Some (Ret (DExit 3, tm)) \<and>
    term_stderr tm = [7] \<and> term_stdout tm = []"
proof -
  let ?evs = "\<lambda>t. if t = (0::nat) then [EvOutput False [7], EvDone 3] else []"
  obtain w' q where s: "worker_SubmitJob sample_env sample_worker [] [] ''c'' [] (map WithRootFS []) =
      Ret ((None, Some q), w')"
    by (simp add: worker_SubmitJob_def submit_body_def submit_reserve_def submit_make_def
        submit_commit_def runner_start_def execRunner_start_def startCmd_def job_entry_def
        newJob_def mutex_defs Let_def)
  have u: "env_uuid sample_env \<noteq> []" by simp
  have e: "stdout (heap w' ! q) = [] \<and> stderr (heap w' ! q) = []"
    using submit_effect [OF sample_worker_inv u s refl] by blast
  let ?j = "AddUpdateListener 0 (heap w' ! q)"
  have j: "stdout ?j = []" "stderr ?j = []" using e by (simp_all add: AddUpdateListener_def Let_def)
  have at: "stdout (job_at ?j ?evs t) = [7] \<and> stderr (job_at ?j ?evs t) = [] \<and> exitCode (job_at ?j ?evs t) = Some 3" for t
  proof (induction t)
    case 0
    show ?case using j by (simp add: job_after_def updateOutput_def markDone_def)
  next
    case (Suc t)
    have "job_at ?j ?evs (Suc t) = job_at ?j ?evs t" by (simp add: job_after_def)
    with Suc show ?case by simp
  qed
  have d1: "drainOutput (job_at ?j ?evs) (\<lambda>_. None) False 0 (Suc 0) = Some (Ret (2, 0, None, []))"
    unfolding drainOutput_def drain_reader_eq
    by (subst job_reader.drain_nothing) (simp_all del: job_at.simps add: output_of_def at)
  have d2: "drainOutput (job_at ?j ?evs) (\<lambda>_. None) True 0 2 = Some (Ret (4, 1, None, [7]))"
    unfolding drainOutput_def drain_reader_eq
    by (subst job_reader.drain_whole [of _ _ _ _ "[7]"]) (simp_all del: job_at.simps add: output_of_def at)
  have "directExecCmd sample_env (Inr 0) True [] [''c''] 0 ?evs (\<lambda>_. None) [] =
      Some (Ret (DExit 3, \<lparr>term_stdout = [], term_stderr = [7]\<rparr>))"
    using s d1 d2 at [of 0]
    by (simp add: directExecCmd_def runDirectExec_def worker_New_def direct_loop.simps direct_turn_def
        ExitCode_def Let_def)
  moreover have dj: "direct_job sample_env (Inr 0) (if True then None else StandardConfig) ''c'' []
      (map WithRootFS (if [] \<noteq> ([] :: string) then [[]] else [])) 0 = Some ?j"
    using s by (simp add: direct_job_def worker_New_def)
  moreover have life: "timeline_ok ?j ?evs"
    using e submit_effect [OF sample_worker_inv u s refl]
    by (auto simp: timeline_ok_def AddUpdateListener_def Let_def fresh_job_def updateOutput_def)
  ultimately show ?thesis
    using direct_exec_swaps_streams [where withoutLimits = True and root = "[]" and evs = ?evs and
        wr = "\<lambda>_. None" and wakes = "[]" and c = 3, OF _ u _ dj [symmetric]] at by auto
qed

text \<open>C37: After a signal, when the graceful stop fails, the forced one is given no time at all: its
  context is made from the one that has just ended. Unless the job happens to be done by the time
  the code looks, the command gives up at once, where a context of its own would have waited.\<close>

theorem forced_stop_gets_no_time:
  assumes "Stop_wait ctx_err prefer1 (job_after (Stop_request False j) es1) = Ret (code, Some e)"
    and "\<not> doneCtx (job_after (Stop_request True (job_after (Stop_request False j) es1)) es2)"
  shows "direct_signal ctx_err prefer1 es1 None prefer2 es2 j =
      Ret (DError (Errorf ''failed shutting down job'')) \<and>
    Stop_wait None prefer2 (job_after (Stop_request True (job_after (Stop_request False j) es1)) es2) = Block"
proof -
  obtain e' where "ctx_err = Some e'"
    using assms(1) by (auto simp: Stop_wait_def split: option.splits if_splits)
  with assms show ?thesis
    by (simp add: direct_signal_def child_ctx_def Let_def Stop_wait_def [of "Some e'" prefer2] Stop_wait_def [of None])
qed

theorem forced_stop_gets_no_time_witness:
  "direct_signal (Some CtxDeadlineExceeded) True [] None True [] (newJob 0 [] ''i'' ''c'' []) =
     Ret (DError (Errorf ''failed shutting down job''))"
  using forced_stop_gets_no_time [of "Some CtxDeadlineExceeded" True "newJob 0 [] ''i'' ''c'' []" "[]" 0
      CtxDeadlineExceeded "[]" True]
  by (simp add: Stop_wait_def job_after_def Stop_request_def newJob_def)

end
