(* ===== verification/Cli.thy ===== *)
theory Cli
  imports Commands DirectExec
begin

text \<open>
  The command line: what the functions of \<open>cmd/\<close> register with the \<open>cobra\<close> library, each command
  with its rule for positional arguments and its flags, the variables the flags are bound to, and what
  \<open>RunE\<close> takes of them. \<open>cobra\<close> and \<open>pflag\<close> are not part of the repository; what is relied on is
  documented: registering a flag stores its default through the pointer given, every occurrence of
  the flag stores its value, and \<open>RunE\<close> is called only with arguments that the rule accepts.
\<close>

section \<open>Commands and flags\<close>

datatype args_rule = NoArgs | ExactArgs nat | MinimumNArgs nat

record command =
  cmd_Use :: string
  cmd_Short :: string
  cmd_Args :: "args_rule option"
  cmd_SilenceUsage :: bool
  cmd_RunE :: bool

text \<open>A command without a rule says nothing of its arguments.\<close>

fun args_accepted :: "args_rule option \<Rightarrow> string list \<Rightarrow> bool" where
  "args_accepted (Some NoArgs) args = (args = [])"
| "args_accepted (Some (ExactArgs n)) args = (length args = n)"
| "args_accepted (Some (MinimumNArgs n)) args = (n \<le> length args)"
| "args_accepted None args = True"

text \<open>The name of a command is the first word of its usage line.\<close>

definition cmd_name :: "command \<Rightarrow> string" where
  "cmd_name c = takeWhile (\<lambda>ch. ch \<noteq> CHR '' '') (cmd_Use c)"

datatype flag_val = FlagString string | FlagBool bool | FlagInt int

text \<open>A flag with the variable it is bound to, as the function that stores into it.\<close>

datatype 'v flag =
    StringVar "string \<Rightarrow> 'v \<Rightarrow> 'v" (flag_name: string) string (flag_usage: string)
  | BoolVar "bool \<Rightarrow> 'v \<Rightarrow> 'v" (flag_name: string) bool (flag_usage: string)
  | IntVar "int \<Rightarrow> 'v \<Rightarrow> 'v" (flag_name: string) int (flag_usage: string)

fun flag_default :: "'v flag \<Rightarrow> flag_val" where
  "flag_default (StringVar st n d u) = FlagString d"
| "flag_default (BoolVar st n d u) = FlagBool d"
| "flag_default (IntVar st n d u) = FlagInt d"

fun flag_kind :: "'v flag \<Rightarrow> flag_val \<Rightarrow> bool" where
  "flag_kind (StringVar st n d u) (FlagString s) = True"
| "flag_kind (BoolVar st n d u) (FlagBool b) = True"
| "flag_kind (IntVar st n d u) (FlagInt i) = True"
| "flag_kind _ _ = False"

text \<open>A store through the pointer of a flag; a value of another kind cannot be stored.\<close>

fun flag_store :: "'v flag \<Rightarrow> flag_val \<Rightarrow> 'v \<Rightarrow> 'v" where
  "flag_store (StringVar st n d u) (FlagString s) v = st s v"
| "flag_store (BoolVar st n d u) (FlagBool b) v = st b v"
| "flag_store (IntVar st n d u) (FlagInt i) v = st i v"
| "flag_store _ _ v = v"

definition store_named :: "'v flag list \<Rightarrow> string \<times> flag_val \<Rightarrow> 'v \<Rightarrow> 'v" where
  "store_named flags a v =
     (case find (\<lambda>f. flag_name f = fst a) flags of None \<Rightarrow> v | Some f \<Rightarrow> flag_store f (snd a) v)"

definition flag_defaults :: "'v flag list \<Rightarrow> (string \<times> flag_val) list" where
  "flag_defaults flags = map (\<lambda>f. (flag_name f, flag_default f)) flags"

text \<open>The variables after the registrations and the occurrences \<open>as\<close>, in the order of the command line.\<close>

definition bind_flags :: "'v flag list \<Rightarrow> (string \<times> flag_val) list \<Rightarrow> 'v \<Rightarrow> 'v" where
  "bind_flags flags as v = fold (store_named flags) (flag_defaults flags @ as) v"

text \<open>Every occurrence is of a registered flag, with a value of its kind.\<close>

definition occurrences_ok :: "'v flag list \<Rightarrow> (string \<times> flag_val) list \<Rightarrow> bool" where
  "occurrences_ok flags as \<longleftrightarrow> (\<forall>(n, x) \<in> set as. \<exists>f \<in> set flags. flag_name f = n \<and> flag_kind f x)"

text \<open>The value a flag should have: that of its last occurrence, or the default.\<close>

definition value_of :: "string \<Rightarrow> flag_val \<Rightarrow> (string \<times> flag_val) list \<Rightarrow> flag_val" where
  "value_of n d as = (case map_of (rev as) n of None \<Rightarrow> d | Some x \<Rightarrow> x)"

lemma value_of_simps [simp]:
  "value_of n d [] = d"
  "value_of n d (a # as) = value_of n (if n = fst a then snd a else d) as"
  by (auto simp: value_of_def map_add_def split: option.splits)

lemma value_of_append: "value_of n d (as @ bs) = value_of n (value_of n d as) bs"
  by (induction as arbitrary: d) simp_all

lemma map_named:
  assumes "map fst xs = map h ys" and "\<And>y d. y \<in> set ys \<Longrightarrow> F (h y) d = G y"
  shows "map (\<lambda>(n, d). (n, F n d)) xs = map (\<lambda>y. (h y, G y)) ys"
  using assms
proof (induction ys arbitrary: xs)
  case (Cons y ys)
  then obtain x xs' where "xs = x # xs'" "fst x = h y" "map fst xs' = map h ys" by (cases xs) auto
  with Cons show ?case by (auto simp: split_def)
qed simp

section \<open>Flags bound to variables of their own\<close>

text \<open>
  \<open>vals\<close> lists the variables of a command by the names of their flags. The law is that a store
  through a flag changes the variable of that name and no other: two flags never share a variable,
  and none is bound to the variable of another.
\<close>

definition replaced :: "string \<Rightarrow> flag_val \<Rightarrow> (string \<times> flag_val) list \<Rightarrow> (string \<times> flag_val) list" where
  "replaced n x vs = map (\<lambda>(m, y). (m, if m = n then x else y)) vs"

lemma replaced_simps [simp]:
  "replaced n x [] = []"
  "replaced n x ((m, y) # vs) = (m, if m = n then x else y) # replaced n x vs"
  "replaced n x (vs @ ws) = replaced n x vs @ replaced n x ws"
  by (simp_all add: replaced_def)

definition bound_alone :: "('v \<Rightarrow> (string \<times> flag_val) list) \<Rightarrow> 'v flag \<Rightarrow> bool" where
  "bound_alone vals f \<longleftrightarrow>
     (\<forall>x v. flag_kind f x \<longrightarrow> vals (flag_store f x v) = replaced (flag_name f) x (vals v))"

lemma all_flag_vals: "(\<forall>x. P x) \<longleftrightarrow> (\<forall>s. P (FlagString s)) \<and> (\<forall>b. P (FlagBool b)) \<and> (\<forall>i. P (FlagInt i))"
  by (metis flag_val.exhaust)

lemma bound_alone_simps [simp]:
  "bound_alone vals (StringVar st n d u) \<longleftrightarrow> (\<forall>s v. vals (st s v) = replaced n (FlagString s) (vals v))"
  "bound_alone vals (BoolVar bt n e u) \<longleftrightarrow> (\<forall>b v. vals (bt b v) = replaced n (FlagBool b) (vals v))"
  "bound_alone vals (IntVar it n k u) \<longleftrightarrow> (\<forall>i v. vals (it i v) = replaced n (FlagInt i) (vals v))"
  by (simp_all add: bound_alone_def all_flag_vals)

text \<open>The wiring of a command: what its flags mean for its variables.\<close>

definition flags_wired :: "'v flag list \<Rightarrow> ('v \<Rightarrow> (string \<times> flag_val) list) \<Rightarrow> bool" where
  "flags_wired flags vals \<longleftrightarrow> distinct (map flag_name flags) \<and>
     (\<forall>as v. occurrences_ok flags as \<longrightarrow>
        vals (bind_flags flags as v) = map (\<lambda>f. (flag_name f, value_of (flag_name f) (flag_default f) as)) flags)"

locale flag_set =
  fixes flags :: "'v flag list"
    and vals :: "'v \<Rightarrow> (string \<times> flag_val) list"
  assumes names_distinct: "distinct (map flag_name flags)"
    and vals_names: "map fst (vals v) = map flag_name flags"
    and all_alone: "list_all (bound_alone vals) flags"
begin

lemma vals_store:
  "f \<in> set flags \<Longrightarrow> flag_kind f x \<Longrightarrow> vals (flag_store f x v) = replaced (flag_name f) x (vals v)"
  using all_alone by (simp add: list_all_iff bound_alone_def)

lemma find_flag: "f \<in> set flags \<Longrightarrow> find (\<lambda>g. flag_name g = flag_name f) flags = Some f"
  using names_distinct
  by (induction flags) (auto simp: image_iff)

lemma vals_stores:
  "occurrences_ok flags as \<Longrightarrow>
   vals (fold (store_named flags) as v) = map (\<lambda>(n, y). (n, value_of n y as)) (vals v)"
proof (induction as arbitrary: v)
  case (Cons a as)
  then obtain f where f: "f \<in> set flags" "fst a = flag_name f" "flag_kind f (snd a)"
    by (auto simp: occurrences_ok_def)
  then have "store_named flags a v = flag_store f (snd a) v"
    by (simp add: store_named_def find_flag)
  moreover have "occurrences_ok flags as" using Cons.prems by (simp add: occurrences_ok_def)
  ultimately show ?case
    using Cons.IH f by (simp add: vals_store replaced_def comp_def split_def)
qed simp

lemma defaults_ok: "occurrences_ok flags (flag_defaults flags)"
proof -
  have "flag_kind f (flag_default f)" for f :: "'v flag" by (cases f) simp_all
  then show ?thesis by (auto simp: occurrences_ok_def flag_defaults_def)
qed

lemma value_of_default:
  assumes "f \<in> set flags"
  shows "value_of (flag_name f) d (flag_defaults flags) = flag_default f"
proof -
  have "distinct (map fst (rev (flag_defaults flags)))"
    using names_distinct by (simp add: flag_defaults_def comp_def rev_map [symmetric])
  moreover have "(flag_name f, flag_default f) \<in> set (rev (flag_defaults flags))"
    using assms by (auto simp: flag_defaults_def)
  ultimately have "map_of (rev (flag_defaults flags)) (flag_name f) = Some (flag_default f)"
    by (rule map_of_is_SomeI)
  then show ?thesis by (simp add: value_of_def)
qed

lemma bound_values:
  assumes "occurrences_ok flags as"
  shows "vals (bind_flags flags as v) =
    map (\<lambda>f. (flag_name f, value_of (flag_name f) (flag_default f) as)) flags"
proof -
  have "occurrences_ok flags (flag_defaults flags @ as)"
    using assms defaults_ok by (auto simp: occurrences_ok_def)
  from vals_stores [OF this, of v] show ?thesis
    unfolding bind_flags_def
    by (simp only:) (rule map_named [OF vals_names], simp add: value_of_append value_of_default)
qed

lemma wired: "flags_wired flags vals"
  using names_distinct bound_values by (simp add: flags_wired_def)

end

section \<open>The commands of a client\<close>

text \<open>The flags every client command has; \<open>emb\<close> updates the command's \<open>clientFlags\<close>.\<close>

definition applyFlags :: "((clientFlags \<Rightarrow> clientFlags) \<Rightarrow> 'v \<Rightarrow> 'v) \<Rightarrow> 'v flag list" where
  "applyFlags emb =
     [StringVar (\<lambda>s. emb (\<lambda>c. c\<lparr>address := s\<rparr>)) ''address'' []
        ''Required address the server is listening on'',
      StringVar (\<lambda>s. emb (\<lambda>c. c\<lparr>serverCACert := s\<rparr>)) ''server-ca-cert'' []
        ''Required CA certificate file to verify server certificates'',
      StringVar (\<lambda>s. emb (\<lambda>c. c\<lparr>clientCert := s\<rparr>)) ''client-cert'' []
        ''Required client certificate file to send for auth'',
      StringVar (\<lambda>s. emb (\<lambda>c. c\<lparr>clientKey := s\<rparr>)) ''client-key'' []
        ''Required client key file to send for auth'']"

definition client_vals :: "clientFlags \<Rightarrow> (string \<times> flag_val) list" where
  "client_vals c =
     [(''address'', FlagString (address c)), (''server-ca-cert'', FlagString (serverCACert c)),
      (''client-cert'', FlagString (clientCert c)), (''client-key'', FlagString (clientKey c))]"

record get_vars =
  getv_client :: clientFlags
  getv_req :: GetJobRequest

definition get_command :: command where
  "get_command =
     \<lparr>cmd_Use = ''get JOB_ID'', cmd_Short = ''Get job by its ID'', cmd_Args = Some (ExactArgs 1),
      cmd_SilenceUsage = True, cmd_RunE = True\<rparr>"

definition get_flags :: "get_vars flag list" where
  "get_flags = applyFlags getv_client_update @
     [BoolVar (\<lambda>b v. v\<lparr>getv_req := (getv_req v)\<lparr>get_IncludeStdout := b\<rparr>\<rparr>) ''stdout'' False
        ''Dump stdout as trimmed string'',
      BoolVar (\<lambda>b v. v\<lparr>getv_req := (getv_req v)\<lparr>get_IncludeStderr := b\<rparr>\<rparr>) ''stderr'' False
        ''Dump stderr as trimmed string'']"

definition get_vals :: "get_vars \<Rightarrow> (string \<times> flag_val) list" where
  "get_vals v = client_vals (getv_client v) @
     [(''stdout'', FlagBool (get_IncludeStdout (getv_req v))),
      (''stderr'', FlagBool (get_IncludeStderr (getv_req v)))]"

record stop_vars =
  stopv_client :: clientFlags
  stopv_req :: StopJobRequest

definition stop_command :: command where
  "stop_command =
     \<lparr>cmd_Use = ''stop JOB_ID'', cmd_Short = ''Stop job by its ID'', cmd_Args = Some (ExactArgs 1),
      cmd_SilenceUsage = True, cmd_RunE = True\<rparr>"

definition stop_flags :: "stop_vars flag list" where
  "stop_flags = applyFlags stopv_client_update @
     [BoolVar (\<lambda>b v. v\<lparr>stopv_req := (stopv_req v)\<lparr>stop_Force := b\<rparr>\<rparr>) ''force'' False
        ''Send SIGKILL instead of SIGTERM'']"

definition stop_vals :: "stop_vars \<Rightarrow> (string \<times> flag_val) list" where
  "stop_vals v = client_vals (stopv_client v) @ [(''force'', FlagBool (stop_Force (stopv_req v)))]"

text \<open>The two fields of the job in the request of \<open>submit\<close> that flags are bound to.\<close>

record submit_vars =
  subv_client :: clientFlags
  subv_Id :: string
  subv_RootFs :: string

definition submit_command :: command where
  "submit_command =
     \<lparr>cmd_Use = ''submit COMMAND [ARGS...]'', cmd_Short = ''Submit a command'',
      cmd_Args = Some (MinimumNArgs 1), cmd_SilenceUsage = True, cmd_RunE = True\<rparr>"

definition submit_flags :: "submit_vars flag list" where
  "submit_flags = applyFlags subv_client_update @
     [StringVar (\<lambda>s v. v\<lparr>subv_Id := s\<rparr>) ''id'' [] ''Set the job ID, otherwise it is generated'',
      StringVar (\<lambda>s v. v\<lparr>subv_RootFs := s\<rparr>) ''root-fs'' [] ''Root filesystem to limit to'']"

definition submit_vals :: "submit_vars \<Rightarrow> (string \<times> flag_val) list" where
  "submit_vals v = client_vals (subv_client v) @
     [(''id'', FlagString (subv_Id v)), (''root-fs'', FlagString (subv_RootFs v))]"

record tail_vars =
  tailv_client :: clientFlags
  tailv_noPast :: bool
  tailv_stderr :: bool
  tailv_stdoutAndStderr :: bool

definition tail_command :: command where
  "tail_command =
     \<lparr>cmd_Use = ''tail JOB_ID'', cmd_Short = ''Tail job output'', cmd_Args = Some (ExactArgs 1),
      cmd_SilenceUsage = True, cmd_RunE = True\<rparr>"

definition tail_flags :: "tail_vars flag list" where
  "tail_flags = applyFlags tailv_client_update @
     [BoolVar (\<lambda>b v. v\<lparr>tailv_noPast := b\<rparr>) ''no-past'' False
        ''Do not include past output, only live output'',
      BoolVar (\<lambda>b v. v\<lparr>tailv_stderr := b\<rparr>) ''stderr'' False
        ''Only stderr output instead of default stdout'',
      BoolVar (\<lambda>b v. v\<lparr>tailv_stdoutAndStderr := b\<rparr>) ''stdout-and-stderr'' False
        ''Both stdout and stderr output (in undefined order)'']"

definition tail_vals :: "tail_vars \<Rightarrow> (string \<times> flag_val) list" where
  "tail_vals v = client_vals (tailv_client v) @
     [(''no-past'', FlagBool (tailv_noPast v)), (''stderr'', FlagBool (tailv_stderr v)),
      (''stdout-and-stderr'', FlagBool (tailv_stdoutAndStderr v))]"

section \<open>The other commands\<close>

definition serve_command :: command where
  "serve_command =
     \<lparr>cmd_Use = ''serve'', cmd_Short = ''Start gRPC server'', cmd_Args = Some NoArgs,
      cmd_SilenceUsage = True, cmd_RunE = True\<rparr>"

definition serve_cmd_flags :: "serve_flags flag list" where
  "serve_cmd_flags =
     [StringVar (\<lambda>s v. v\<lparr>serve_address := s\<rparr>) ''address'' ''127.0.0.1:'' ''Address to listen on'',
      StringVar (\<lambda>s v. v\<lparr>serve_clientCACert := s\<rparr>) ''client-ca-cert'' []
        ''Required CA certificate file to verify client certificates'',
      StringVar (\<lambda>s v. v\<lparr>serve_serverCert := s\<rparr>) ''server-cert'' []
        ''Required server certificate file to present to clients'',
      StringVar (\<lambda>s v. v\<lparr>serve_serverKey := s\<rparr>) ''server-key'' []
        ''Required server key file for server auth'',
      BoolVar (\<lambda>b v. v\<lparr>serve_withoutLimits := b\<rparr>) ''without-limits'' False
        ''Run without any resource limits'']"

definition serve_vals :: "serve_flags \<Rightarrow> (string \<times> flag_val) list" where
  "serve_vals v =
     [(''address'', FlagString (serve_address v)), (''client-ca-cert'', FlagString (serve_clientCACert v)),
      (''server-cert'', FlagString (serve_serverCert v)), (''server-key'', FlagString (serve_serverKey v)),
      (''without-limits'', FlagBool (serve_withoutLimits v))]"

definition childExec_command :: command where
  "childExec_command =
     \<lparr>cmd_Use = ''child-exec'', cmd_Short = ''Internal command for applying limits to child executable'',
      cmd_Args = None, cmd_SilenceUsage = False, cmd_RunE = False\<rparr>"

record direct_vars =
  dirv_withoutLimits :: bool
  dirv_root :: string

definition directExec_command :: command where
  "directExec_command =
     \<lparr>cmd_Use = ''direct-exec -- COMMAND [ARGS...]'',
      cmd_Short = ''Internal command for applying limits to child executable'',
      cmd_Args = Some (MinimumNArgs 1), cmd_SilenceUsage = True, cmd_RunE = True\<rparr>"

definition directExec_flags :: "direct_vars flag list" where
  "directExec_flags =
     [BoolVar (\<lambda>b v. v\<lparr>dirv_withoutLimits := b\<rparr>) ''without-limits'' False
        ''Run without any resource limits'',
      StringVar (\<lambda>s v. v\<lparr>dirv_root := s\<rparr>) ''root'' [] ''Change the root'']"

definition directExec_vals :: "direct_vars \<Rightarrow> (string \<times> flag_val) list" where
  "directExec_vals v =
     [(''without-limits'', FlagBool (dirv_withoutLimits v)), (''root'', FlagString (dirv_root v))]"

record genCert_vars =
  genv_signerCert :: string
  genv_signerKey :: string
  genv_config :: GenerateCertificateConfig

definition genCert_command :: command where
  "genCert_command =
     \<lparr>cmd_Use = ''gen-cert FILENAME_SANS_EXT'',
      cmd_Short = ''Generate auth or CA certificate for server or client'', cmd_Args = Some (ExactArgs 1),
      cmd_SilenceUsage = True, cmd_RunE = True\<rparr>"

definition genCert_flags :: "genCert_vars flag list" where
  "genCert_flags =
     [StringVar (\<lambda>s v. v\<lparr>genv_signerCert := s\<rparr>) ''signer-cert'' [] ''Certification file to sign with'',
      StringVar (\<lambda>s v. v\<lparr>genv_signerKey := s\<rparr>) ''signer-key'' [] ''Key file to sign with'',
      BoolVar (\<lambda>b v. v\<lparr>genv_config := (genv_config v)\<lparr>CA := b\<rparr>\<rparr>) ''is-ca'' False
        ''Make a signer/CA certificate'',
      StringVar (\<lambda>s v. v\<lparr>genv_config := (genv_config v)\<lparr>OU := s\<rparr>\<rparr>) ''ou'' []
        ''Set the OU which is used as the job namespace'',
      StringVar (\<lambda>s v. v\<lparr>genv_config := (genv_config v)\<lparr>ServerHost := s\<rparr>\<rparr>) ''server-host'' []
        ''Make a server auth certificate with this IP or DNS name'']"

definition genCert_vals :: "genCert_vars \<Rightarrow> (string \<times> flag_val) list" where
  "genCert_vals v =
     [(''signer-cert'', FlagString (genv_signerCert v)), (''signer-key'', FlagString (genv_signerKey v)),
      (''is-ca'', FlagBool (CA (genv_config v))), (''ou'', FlagString (OU (genv_config v))),
      (''server-host'', FlagString (ServerHost (genv_config v)))]"

record diag_vars =
  diagv_allocMem :: int
  diagv_writeDisk :: bool

definition diag_command :: command where
  "diag_command =
     \<lparr>cmd_Use = ''diag'', cmd_Short = ''Internal utility to perform diagnostics and dump result'',
      cmd_Args = Some NoArgs, cmd_SilenceUsage = True, cmd_RunE = True\<rparr>"

definition diag_flags :: "diag_vars flag list" where
  "diag_flags =
     [IntVar (\<lambda>i v. v\<lparr>diagv_allocMem := i\<rparr>) ''alloc-mem'' 0 ''Amount of bytes to attempt to allocate'',
      BoolVar (\<lambda>b v. v\<lparr>diagv_writeDisk := b\<rparr>) ''write-disk'' False ''Test disk write speed'']"

definition diag_vals :: "diag_vars \<Rightarrow> (string \<times> flag_val) list" where
  "diag_vals v =
     [(''alloc-mem'', FlagInt (diagv_allocMem v)), (''write-disk'', FlagBool (diagv_writeDisk v))]"

text \<open>The command tree: the root and the commands added to it, in their order.\<close>

definition rootCmd :: "command \<times> command list" where
  "rootCmd =
     (\<lparr>cmd_Use = ''teleworker'', cmd_Short = ''Worker for running jobs'', cmd_Args = None,
       cmd_SilenceUsage = False, cmd_RunE = False\<rparr>,
      [childExec_command, diag_command, directExec_command, genCert_command, get_command,
       serve_command, stop_command, submit_command, tail_command])"

section \<open>No two flags share a variable\<close>

lemmas flag_wiring_defs = applyFlags_def client_vals_def get_flags_def get_vals_def stop_flags_def
  stop_vals_def submit_flags_def submit_vals_def tail_flags_def tail_vals_def serve_cmd_flags_def
  serve_vals_def directExec_flags_def directExec_vals_def genCert_flags_def genCert_vals_def
  diag_flags_def diag_vals_def

interpretation getf: flag_set get_flags get_vals
  by unfold_locales (simp_all add: flag_wiring_defs)

interpretation stopf: flag_set stop_flags stop_vals
  by unfold_locales (simp_all add: flag_wiring_defs)

interpretation submitf: flag_set submit_flags submit_vals
  by unfold_locales (simp_all add: flag_wiring_defs)

interpretation tailf: flag_set tail_flags tail_vals
  by unfold_locales (simp_all add: flag_wiring_defs)

interpretation servef: flag_set serve_cmd_flags serve_vals
  by unfold_locales (simp_all add: flag_wiring_defs)

interpretation directf: flag_set directExec_flags directExec_vals
  by unfold_locales (simp_all add: flag_wiring_defs)

interpretation genf: flag_set genCert_flags genCert_vals
  by unfold_locales (simp_all add: flag_wiring_defs)

interpretation diagf: flag_set diag_flags diag_vals
  by unfold_locales (simp_all add: flag_wiring_defs)

section \<open>What RunE takes of the arguments\<close>

text \<open>
  \<open>args[0]\<close> in a client command: with no argument the program panics there, if it has got as far,
  that is if dialling succeeded. \<open>fail\<close> is returning the error of dialling.
\<close>

definition client_arg :: "(go_error \<Rightarrow> 'r go) \<Rightarrow> go_error + 'conn \<Rightarrow> string list \<Rightarrow> (string \<Rightarrow> 'r go) \<Rightarrow> 'r go" where
  "client_arg fail dialed args run =
     (case args of
        arg # _ \<Rightarrow> run arg
      | [] \<Rightarrow> (case dialed of Inl e \<Rightarrow> fail e | Inr conn \<Rightarrow> Panic))"

definition get_RunE where
  "get_RunE c fs dial call fmt v args =
     (let dialed = dialClient c fs dial (getv_client v) in
      client_arg (\<lambda>e. Ret (Some e, [])) dialed args
        (getCmd dialed call fmt (get_IncludeStdout (getv_req v)) (get_IncludeStderr (getv_req v))))"

definition stop_RunE where
  "stop_RunE c fs dial outcome fmt v args =
     (let dialed = dialClient c fs dial (stopv_client v) in
      client_arg (\<lambda>e. Ret (Some e, [])) dialed args
        (\<lambda>arg. Ret (stopCmd dialed outcome fmt (stop_Force (stopv_req v)) arg)))"

definition submit_RunE where
  "submit_RunE c fs dial call fmt v args =
     submitCmd (dialClient c fs dial (subv_client v)) call fmt (subv_Id v) (subv_RootFs v) args"

definition tail_RunE where
  "tail_RunE c fs dial open_stream v signal prefer_signal args =
     (let dialed = dialClient c fs dial (tailv_client v) in
      client_arg (\<lambda>e. Ret (Some (Some e), [])) dialed args
        (\<lambda>arg. Ret (tailCmd dialed open_stream (tailv_noPast v) (tailv_stderr v) (tailv_stdoutAndStderr v)
           signal prefer_signal arg)))"

text \<open>\<open>gen-cert\<close> looks at its argument once the certificate has been made.\<close>

definition genCert_RunE where
  "genCert_RunE c gen_key now serial umask outcome v args st =
     (case args of
        arg # _ \<Rightarrow> Ret (genCertCmd c gen_key now serial umask outcome (genv_signerCert v) (genv_signerKey v)
          (genv_config v) arg st)
      | [] \<Rightarrow>
          (case read_signer (read_store st) (genv_signerCert v) (genv_signerKey v) (genv_config v) of
             Inl e \<Rightarrow> Ret (Some e, st)
           | Inr config \<Rightarrow> (case GenerateCertificate c gen_key now serial config of
               Inl e \<Rightarrow> Ret (Some e, st)
             | Inr pems \<Rightarrow> Panic)))"

definition directExec_RunE where
  "directExec_RunE env stat v args ch evs wr wakes =
     directExecCmd env stat (dirv_withoutLimits v) (dirv_root v) args ch evs wr wakes"

lemma client_arg_one [simp]: "length args = 1 \<Longrightarrow> client_arg fail dialed args run = run (hd args)"
  by (cases args) (simp_all add: client_arg_def)

lemma submit_values:
  assumes "occurrences_ok submit_flags as"
    and "value_of ''id'' (FlagString []) as = FlagString i"
    and "value_of ''root-fs'' (FlagString []) as = FlagString root"
  shows "subv_Id (bind_flags submit_flags as v) = i" "subv_RootFs (bind_flags submit_flags as v) = root"
  using submitf.bound_values [OF assms(1), of v] assms(2,3)
  by (simp_all add: submit_vals_def submit_flags_def client_vals_def applyFlags_def)

abbreviation no_submit_vars :: submit_vars where
  "no_submit_vars \<equiv>
     \<lparr>subv_client = \<lparr>address = [], serverCACert = [], clientCert = [], clientKey = []\<rparr>,
      subv_Id = [], subv_RootFs = []\<rparr>"

section \<open>Properties\<close>

text \<open>C28: Every flag of every command is bound to a variable of its own and of its type: after any
  command line whose flags are registered ones with values of their kind, each variable holds the value
  of the last occurrence of its flag, or the default, and no flag writes the variable of another. No
  command registers a name twice, which the flag library answers with a panic.\<close>

theorem flags_bind_their_variables:
  "flags_wired get_flags get_vals \<and> flags_wired stop_flags stop_vals \<and>
   flags_wired submit_flags submit_vals \<and> flags_wired tail_flags tail_vals \<and>
   flags_wired serve_cmd_flags serve_vals \<and> flags_wired directExec_flags directExec_vals \<and>
   flags_wired genCert_flags genCert_vals \<and> flags_wired diag_flags diag_vals"
  using getf.wired stopf.wired submitf.wired tailf.wired servef.wired directf.wired genf.wired diagf.wired
  by blast

text \<open>C27: No two commands of the tree share a name, and the rule each has for its arguments protects what
  its \<open>RunE\<close> does with them: get, stop, tail and gen-cert accept exactly one argument, the one they
  index; submit and direct-exec accept any but none, so there is a command to run; serve and diag accept
  none. On accepted arguments neither of those that index them panics there, and direct-exec never
  reports that the command is missing. Without the rule they would: with no argument and a server
  that answers the dial, get, stop and tail panic.\<close>

theorem argument_rules_protect_commands:
  "distinct (map cmd_name (snd rootCmd)) \<and>
   (args_accepted (cmd_Args get_command) args \<longrightarrow>
      get_RunE c fs dial get_call fmt gv args =
        getCmd (dialClient c fs dial (getv_client gv)) get_call fmt (get_IncludeStdout (getv_req gv))
          (get_IncludeStderr (getv_req gv)) (hd args)) \<and>
   (args_accepted (cmd_Args stop_command) args \<longrightarrow> stop_RunE c fs dial stop_call fmt sv args =
      Ret (stopCmd (dialClient c fs dial (stopv_client sv)) stop_call fmt (stop_Force (stopv_req sv)) (hd args))) \<and>
   (args_accepted (cmd_Args tail_command) args \<longrightarrow> tail_RunE c fs dial open_stream tv sig pref args =
      Ret (tailCmd (dialClient c fs dial (tailv_client tv)) open_stream (tailv_noPast tv) (tailv_stderr tv)
        (tailv_stdoutAndStderr tv) sig pref (hd args))) \<and>
   (args_accepted (cmd_Args genCert_command) args \<longrightarrow>
      genCert_RunE c gen_key now serial umask outcome nv args st \<noteq> Panic) \<and>
   (args_accepted (cmd_Args directExec_command) args \<longrightarrow> directExec_RunE env stat dv args ch evs wr wakes =
      runDirectExec env stat (if dirv_withoutLimits dv then None else StandardConfig) (hd args) (tl args)
        (map WithRootFS (if dirv_root dv = [] then [] else [dirv_root dv])) ch evs wr wakes) \<and>
   (dialClient c fs dial (getv_client gv) = Inr conn \<longrightarrow> get_RunE c fs dial get_call fmt gv [] = Panic) \<and>
   (dialClient c fs dial (stopv_client sv) = Inr conn \<longrightarrow> stop_RunE c fs dial stop_call fmt sv [] = Panic) \<and>
   (dialClient c fs dial (tailv_client tv) = Inr conn \<longrightarrow> tail_RunE c fs dial open_stream tv sig pref [] = Panic) \<and>
   (args_accepted (cmd_Args get_command) args \<longleftrightarrow> length args = 1) \<and>
   (args_accepted (cmd_Args stop_command) args \<longleftrightarrow> length args = 1) \<and>
   (args_accepted (cmd_Args tail_command) args \<longleftrightarrow> length args = 1) \<and>
   (args_accepted (cmd_Args genCert_command) args \<longleftrightarrow> length args = 1) \<and>
   (args_accepted (cmd_Args submit_command) args \<longleftrightarrow> args \<noteq> []) \<and>
   (args_accepted (cmd_Args directExec_command) args \<longleftrightarrow> args \<noteq> []) \<and>
   (args_accepted (cmd_Args serve_command) args \<longleftrightarrow> args = []) \<and>
   (args_accepted (cmd_Args diag_command) args \<longleftrightarrow> args = [])"
proof -
  have "distinct (map cmd_name (snd rootCmd))"
    by (simp add: rootCmd_def cmd_name_def childExec_command_def diag_command_def directExec_command_def
        genCert_command_def get_command_def serve_command_def stop_command_def submit_command_def
        tail_command_def)
  moreover have "args_accepted (Some (ExactArgs 1)) args \<longrightarrow>
      genCert_RunE c gen_key now serial umask outcome nv args st \<noteq> Panic"
    by (cases args) (simp_all add: genCert_RunE_def)
  moreover have "args_accepted (Some (MinimumNArgs 1)) args \<longrightarrow> directExec_RunE env stat dv args ch evs wr wakes =
      runDirectExec env stat (if dirv_withoutLimits dv then None else StandardConfig) (hd args) (tl args)
        (map WithRootFS (if dirv_root dv = [] then [] else [dirv_root dv])) ch evs wr wakes"
    by (cases args) (simp_all add: directExec_RunE_def directExecCmd_def Let_def)
  ultimately show ?thesis
    by (simp add: get_command_def stop_command_def tail_command_def genCert_command_def submit_command_def
        serve_command_def diag_command_def Suc_le_eq directExec_command_def get_RunE_def stop_RunE_def tail_RunE_def client_arg_def [of _ _ "[]"] Let_def)
qed

theorem argument_rules_protect_commands_witness:
  "args_accepted (cmd_Args stop_command) [''i''] \<and>
   stop_RunE sample_crypto (\<lambda>_. Inr [9]) (\<lambda>a cfg. Inr a) (\<lambda>conn req. StopSignal) (\<lambda>j. [])
     \<lparr>stopv_client = \<lparr>address = ''a'', serverCACert = ''c'', clientCert = ''d'', clientKey = ''k''\<rparr>,
      stopv_req = \<lparr>stop_JobId = [], stop_Force = True\<rparr>\<rparr> [''i''] =
     Ret (Some (Errorf ''signal received, cancelling stop''), [])"
proof -
  let ?v = "\<lparr>stopv_client = \<lparr>address = ''a'', serverCACert = ''c'', clientCert = ''d'', clientKey = ''k''\<rparr>,
      stopv_req = \<lparr>stop_JobId = [], stop_Force = True\<rparr>\<rparr>"
  have a: "args_accepted (cmd_Args stop_command) [''i'']" by (simp add: stop_command_def)
  note * = argument_rules_protect_commands [of "[''i'']", THEN conjunct2, THEN conjunct2, THEN conjunct1, THEN mp, OF a]
  show ?thesis
    using a unfolding *
    by (simp add: stopCmd_def dialClient_def read_file_def MTLSClientCredentials_def sample_crypto_def Let_def)
qed

text \<open>C26: A job submitted from the command line, with any flags in any order: on arguments that the
  command accepts, the request passes the server's validation, so it is never answered
  InvalidArgument, and when it is accepted the answer shows the command and its arguments as they were
  typed, the root filesystem of the last \<open>--root-fs\<close>, and the ID of the last \<open>--id\<close>, or a
  generated one; the job is stored under that ID in the namespace of the client's certificate.\<close>

theorem submit_command_line:
  assumes "worker_inv w" and "env_uuid env \<noteq> []" and "namespaceFromContext ctx = Ret (Inr ns)"
    and "args_accepted (cmd_Args submit_command) args" and "occurrences_ok submit_flags as"
    and "value_of ''id'' (FlagString []) as = FlagString i"
    and "value_of ''root-fs'' (FlagString []) as = FlagString root"
    and "v = bind_flags submit_flags as v0" and "dialClient c fs dial (subv_client v) = Inr conn"
    and "service_SubmitJob ts_new env evs ctx (submit_job_request (subv_Id v) (subv_RootFs v) args) w =
      Some (Ret (r, w'))"
  shows "case r of
      Inr pb \<Rightarrow> pb_Command pb = args \<and> pb_RootFs pb = root \<and>
        pb_Id pb = (if i = [] then env_uuid env else i) \<and>
        (\<exists>p. lookup_job w' ns (pb_Id pb) = Some p \<and> Command (heap w' ! p) # Args (heap w' ! p) = args) \<and>
        submit_RunE c fs dial (\<lambda>_ _. r) fmt v args = (None, fmt pb @ [10])
    | Inl e \<Rightarrow> (\<forall>m. e \<noteq> Status InvalidArgument m) \<and>
        submit_RunE c fs dial (\<lambda>_ _. r) fmt v args = (Some (Wrapf ''submitting job'' e), [])"
proof -
  have args: "args \<noteq> []" using assms(4) by (auto simp: submit_command_def)
  have v: "subv_Id v = i" "subv_RootFs v = root"
    using submit_values [OF assms(5-7), of v0] assms(8) by simp_all
  note * = submitted_command_comes_back [OF assms(1,2) args assms(10) [unfolded v] assms(3), of fmt]
  have run: "submit_RunE c fs dial (\<lambda>_ _. r) fmt v args =
      submitCmd (Inr w :: go_error + worker) (\<lambda>_ _. r) fmt i root args"
    by (simp add: submit_RunE_def submitCmd_def assms(9) v)
  show ?thesis using * unfolding run .
qed

theorem submit_command_line_witness:
  "\<exists>pb. submit_RunE sample_crypto (\<lambda>_. Inr [9]) (\<lambda>a cfg. Inr a) (\<lambda>_ _. Inr (pb :: int pb_Job)) (\<lambda>j. [1])
     (bind_flags submit_flags [(''id'', FlagString ''x''), (''address'', FlagString ''a''),
        (''server-ca-cert'', FlagString ''c''), (''client-cert'', FlagString ''d''),
        (''id'', FlagString ''j''), (''client-key'', FlagString ''k'')] no_submit_vars) [''ls'', ''-l''] = (None, [1, 10]) \<and>
     pb_Id pb = ''j'' \<and> pb_Command pb = [''ls'', ''-l'']"
proof -
  let ?as = "[(''id'', FlagString ''x''), (''address'', FlagString ''a''),
        (''server-ca-cert'', FlagString ''c''), (''client-cert'', FlagString ''d''),
        (''id'', FlagString ''j''), (''client-key'', FlagString ''k'')]"
  let ?v = "bind_flags submit_flags ?as no_submit_vars"
  have ok: "occurrences_ok submit_flags ?as"
    by (simp add: occurrences_ok_def submit_flags_def applyFlags_def)
  have vals: "value_of ''id'' (FlagString []) ?as = FlagString ''j''"
    "value_of ''root-fs'' (FlagString []) ?as = FlagString []" by simp_all
  have "subv_client ?v = \<lparr>address = ''a'', serverCACert = ''c'', clientCert = ''d'', clientKey = ''k''\<rparr>"
    using submitf.bound_values [OF ok, of no_submit_vars]
    by (simp add: submit_vals_def submit_flags_def client_vals_def applyFlags_def)
  then have dial: "dialClient sample_crypto (\<lambda>_. Inr [9]) (\<lambda>a cfg. Inr a) (subv_client ?v) = Inr ''a''"
    by (simp add: dialClient_def read_file_def MTLSClientCredentials_def sample_crypto_def Let_def)
  obtain pb w' where s: "service_SubmitJob id sample_env (\<lambda>_. []) service_ctx
      (submit_job_request ''j'' [] [''ls'', ''-l'']) service_worker = Some (Ret (Inr pb, w'))"
    using sample_submission by blast
  have ns: "namespaceFromContext service_ctx = Ret (Inr ''ns'')"
    by (simp add: namespaceFromContext_def)
  have args: "args_accepted (cmd_Args submit_command) [''ls'', ''-l'']" by (simp add: submit_command_def)
  have u: "env_uuid sample_env \<noteq> []" by simp
  have s': "service_SubmitJob id sample_env (\<lambda>_. []) service_ctx
      (submit_job_request (subv_Id ?v) (subv_RootFs ?v) [''ls'', ''-l'']) service_worker = Some (Ret (Inr pb, w'))"
    unfolding submit_values [OF ok vals] by (rule s)
  note * = submit_command_line [OF service_worker_inv u ns args ok vals refl dial s', of "\<lambda>j. [1]",
      unfolded sum.case]
  then have "pb_Command pb = [''ls'', ''-l'']" "pb_Id pb = ''j''" by (blast, simp)
  with * show ?thesis by (intro exI [of _ pb]) simp
qed

end
