(* ===== verification/Messages.thy ===== *)
theory Messages
  imports Proto
begin

text \<open>
  The rest of what \<open>workergrpc/worker.pb.go\<close> says of the messages: the three responses, \<open>Reset\<close>,
  the accessors, which a nil pointer answers like a fresh message (locale \<open>nil_safe\<close>), the message
  of a dynamic type that \<open>interface{}\<close> holds in the stubs, and the table of types that the file
  registers for the fields and methods.
\<close>

section \<open>Responses\<close>

record 'ts GetJobResponse =
  getresp_Job :: "'ts pb_Job option"

record 'ts SubmitJobResponse =
  submitresp_Job :: "'ts pb_Job option"

record 'ts StopJobResponse =
  stopresp_Job :: "'ts pb_Job option"

section \<open>Reset\<close>

text \<open>\<open>Reset\<close> stores the composite literal without fields, which is also what \<open>new\<close> gives.\<close>

definition Job_zero :: "'ts pb_Job" where
  "Job_zero = \<lparr>pb_Id = [], pb_Command = [], pb_RootFs = [], pb_CreatedAt = None, pb_Pid = 0,
     pb_Stdout = [], pb_Stderr = [], pb_ExitCode = None\<rparr>"

definition GetJobRequest_zero :: GetJobRequest where
  "GetJobRequest_zero = \<lparr>get_JobId = [], get_IncludeStdout = False, get_IncludeStderr = False\<rparr>"

definition GetJobResponse_zero :: "'ts GetJobResponse" where
  "GetJobResponse_zero = \<lparr>getresp_Job = None\<rparr>"

definition SubmitJobRequest_zero :: "'ts SubmitJobRequest" where
  "SubmitJobRequest_zero = \<lparr>submit_Job = None\<rparr>"

definition SubmitJobResponse_zero :: "'ts SubmitJobResponse" where
  "SubmitJobResponse_zero = \<lparr>submitresp_Job = None\<rparr>"

definition StopJobRequest_zero :: StopJobRequest where
  "StopJobRequest_zero = \<lparr>stop_JobId = [], stop_Force = False\<rparr>"

definition StopJobResponse_zero :: "'ts StopJobResponse" where
  "StopJobResponse_zero = \<lparr>stopresp_Job = None\<rparr>"

definition StreamJobOutputRequest_zero :: StreamJobOutputRequest where
  "StreamJobOutputRequest_zero = \<lparr>stream_JobId = [], stream_Limit = None, stream_FromBeginning = False\<rparr>"

definition StreamJobOutputResponse_zero :: StreamJobOutputResponse where
  "StreamJobOutputResponse_zero = \<lparr>resp_Response = None, resp_Past = False\<rparr>"

lemmas zero_defs = Job_zero_def GetJobRequest_zero_def GetJobResponse_zero_def SubmitJobRequest_zero_def
  SubmitJobResponse_zero_def StopJobRequest_zero_def StopJobResponse_zero_def
  StreamJobOutputRequest_zero_def StreamJobOutputResponse_zero_def

section \<open>Accessors\<close>

definition Job_GetId :: "'ts pb_Job option \<Rightarrow> string" where
  "Job_GetId x = (case x of Some m \<Rightarrow> pb_Id m | None \<Rightarrow> [])"

definition Job_GetCommand :: "'ts pb_Job option \<Rightarrow> string list" where
  "Job_GetCommand x = (case x of Some m \<Rightarrow> pb_Command m | None \<Rightarrow> [])"

definition Job_GetRootFs :: "'ts pb_Job option \<Rightarrow> string" where
  "Job_GetRootFs x = (case x of Some m \<Rightarrow> pb_RootFs m | None \<Rightarrow> [])"

definition Job_GetCreatedAt :: "'ts pb_Job option \<Rightarrow> 'ts option" where
  "Job_GetCreatedAt x = (case x of Some m \<Rightarrow> pb_CreatedAt m | None \<Rightarrow> None)"

definition Job_GetPid :: "'ts pb_Job option \<Rightarrow> 64 word" where
  "Job_GetPid x = (case x of Some m \<Rightarrow> pb_Pid m | None \<Rightarrow> 0)"

definition Job_GetStdout :: "'ts pb_Job option \<Rightarrow> byte list" where
  "Job_GetStdout x = (case x of Some m \<Rightarrow> pb_Stdout m | None \<Rightarrow> [])"

definition Job_GetStderr :: "'ts pb_Job option \<Rightarrow> byte list" where
  "Job_GetStderr x = (case x of Some m \<Rightarrow> pb_Stderr m | None \<Rightarrow> [])"

definition Job_GetExitCode :: "'ts pb_Job option \<Rightarrow> 32 word option" where
  "Job_GetExitCode x = (case x of Some m \<Rightarrow> pb_ExitCode m | None \<Rightarrow> None)"

definition GetJobRequest_GetJobId :: "GetJobRequest option \<Rightarrow> string" where
  "GetJobRequest_GetJobId x = (case x of Some m \<Rightarrow> get_JobId m | None \<Rightarrow> [])"

definition GetJobRequest_GetIncludeStdout :: "GetJobRequest option \<Rightarrow> bool" where
  "GetJobRequest_GetIncludeStdout x = (case x of Some m \<Rightarrow> get_IncludeStdout m | None \<Rightarrow> False)"

definition GetJobRequest_GetIncludeStderr :: "GetJobRequest option \<Rightarrow> bool" where
  "GetJobRequest_GetIncludeStderr x = (case x of Some m \<Rightarrow> get_IncludeStderr m | None \<Rightarrow> False)"

definition GetJobResponse_GetJob :: "'ts GetJobResponse option \<Rightarrow> 'ts pb_Job option" where
  "GetJobResponse_GetJob x = (case x of Some m \<Rightarrow> getresp_Job m | None \<Rightarrow> None)"

definition SubmitJobRequest_GetJob :: "'ts SubmitJobRequest option \<Rightarrow> 'ts pb_Job option" where
  "SubmitJobRequest_GetJob x = (case x of Some m \<Rightarrow> submit_Job m | None \<Rightarrow> None)"

definition SubmitJobResponse_GetJob :: "'ts SubmitJobResponse option \<Rightarrow> 'ts pb_Job option" where
  "SubmitJobResponse_GetJob x = (case x of Some m \<Rightarrow> submitresp_Job m | None \<Rightarrow> None)"

definition StopJobRequest_GetJobId :: "StopJobRequest option \<Rightarrow> string" where
  "StopJobRequest_GetJobId x = (case x of Some m \<Rightarrow> stop_JobId m | None \<Rightarrow> [])"

definition StopJobRequest_GetForce :: "StopJobRequest option \<Rightarrow> bool" where
  "StopJobRequest_GetForce x = (case x of Some m \<Rightarrow> stop_Force m | None \<Rightarrow> False)"

definition StopJobResponse_GetJob :: "'ts StopJobResponse option \<Rightarrow> 'ts pb_Job option" where
  "StopJobResponse_GetJob x = (case x of Some m \<Rightarrow> stopresp_Job m | None \<Rightarrow> None)"

definition Stream_GetJobId :: "StreamJobOutputRequest option \<Rightarrow> string" where
  "Stream_GetJobId x = (case x of Some m \<Rightarrow> stream_JobId m | None \<Rightarrow> [])"

definition GetFromBeginning :: "StreamJobOutputRequest option \<Rightarrow> bool" where
  "GetFromBeginning x = (case x of Some m \<Rightarrow> stream_FromBeginning m | None \<Rightarrow> False)"

definition GetPast :: "StreamJobOutputResponse option \<Rightarrow> bool" where
  "GetPast x = (case x of Some m \<Rightarrow> resp_Past m | None \<Rightarrow> False)"

lemmas getter_defs = Job_GetId_def Job_GetCommand_def Job_GetRootFs_def Job_GetCreatedAt_def Job_GetPid_def
  Job_GetStdout_def Job_GetStderr_def Job_GetExitCode_def GetJobRequest_GetJobId_def
  GetJobRequest_GetIncludeStdout_def GetJobRequest_GetIncludeStderr_def GetJobResponse_GetJob_def
  SubmitJobRequest_GetJob_def SubmitJobResponse_GetJob_def StopJobRequest_GetJobId_def
  StopJobRequest_GetForce_def StopJobResponse_GetJob_def Stream_GetJobId_def GetStreamLimit_def
  GetOnlyStdout_def GetOnlyStderr_def GetFromBeginning_def GetResponse_def GetStdout_def GetStderr_def
  GetCompletedExitCode_def GetPast_def

text \<open>
  The contract of an accessor: on a message it reads the field, on a nil pointer what \<open>Reset\<close>
  stores there. So a caller need not tell nil from a fresh message.
\<close>

locale nil_safe =
  fixes zero :: 'm
    and get :: "'m option \<Rightarrow> 'v"
    and field :: "'m \<Rightarrow> 'v"
  assumes get_present: "get (Some m) = field m"
    and get_nil: "get None = field zero"
begin

lemma get_fresh: "get (Some zero) = get None"
  by (simp add: get_present get_nil)

lemma get_field: "get x = field (case x of None \<Rightarrow> zero | Some m \<Rightarrow> m)"
  by (cases x) (simp_all add: get_present get_nil)

end

interpretation job_id: nil_safe Job_zero Job_GetId pb_Id
  by unfold_locales (simp_all add: getter_defs zero_defs)
interpretation job_command: nil_safe Job_zero Job_GetCommand pb_Command
  by unfold_locales (simp_all add: getter_defs zero_defs)
interpretation job_root: nil_safe Job_zero Job_GetRootFs pb_RootFs
  by unfold_locales (simp_all add: getter_defs zero_defs)
interpretation job_created: nil_safe Job_zero Job_GetCreatedAt pb_CreatedAt
  by unfold_locales (simp_all add: getter_defs zero_defs)
interpretation job_pid: nil_safe Job_zero Job_GetPid pb_Pid
  by unfold_locales (simp_all add: getter_defs zero_defs)
interpretation job_stdout: nil_safe Job_zero Job_GetStdout pb_Stdout
  by unfold_locales (simp_all add: getter_defs zero_defs)
interpretation job_stderr: nil_safe Job_zero Job_GetStderr pb_Stderr
  by unfold_locales (simp_all add: getter_defs zero_defs)
interpretation job_exit: nil_safe Job_zero Job_GetExitCode pb_ExitCode
  by unfold_locales (simp_all add: getter_defs zero_defs)
interpretation get_req_id: nil_safe GetJobRequest_zero GetJobRequest_GetJobId get_JobId
  by unfold_locales (simp_all add: getter_defs zero_defs)
interpretation get_req_out: nil_safe GetJobRequest_zero GetJobRequest_GetIncludeStdout get_IncludeStdout
  by unfold_locales (simp_all add: getter_defs zero_defs)
interpretation get_req_err: nil_safe GetJobRequest_zero GetJobRequest_GetIncludeStderr get_IncludeStderr
  by unfold_locales (simp_all add: getter_defs zero_defs)
interpretation get_resp: nil_safe GetJobResponse_zero GetJobResponse_GetJob getresp_Job
  by unfold_locales (simp_all add: getter_defs zero_defs)
interpretation submit_req: nil_safe SubmitJobRequest_zero SubmitJobRequest_GetJob submit_Job
  by unfold_locales (simp_all add: getter_defs zero_defs)
interpretation submit_resp: nil_safe SubmitJobResponse_zero SubmitJobResponse_GetJob submitresp_Job
  by unfold_locales (simp_all add: getter_defs zero_defs)
interpretation stop_req_id: nil_safe StopJobRequest_zero StopJobRequest_GetJobId stop_JobId
  by unfold_locales (simp_all add: getter_defs zero_defs)
interpretation stop_req_force: nil_safe StopJobRequest_zero StopJobRequest_GetForce stop_Force
  by unfold_locales (simp_all add: getter_defs zero_defs)
interpretation stop_resp: nil_safe StopJobResponse_zero StopJobResponse_GetJob stopresp_Job
  by unfold_locales (simp_all add: getter_defs zero_defs)
interpretation stream_id: nil_safe StreamJobOutputRequest_zero Stream_GetJobId stream_JobId
  by unfold_locales (simp_all add: getter_defs zero_defs)
interpretation stream_limit: nil_safe StreamJobOutputRequest_zero GetStreamLimit stream_Limit
  by unfold_locales (simp_all add: getter_defs zero_defs)
interpretation only_stdout: nil_safe StreamJobOutputRequest_zero GetOnlyStdout
    "\<lambda>m. stream_Limit m = Some (OnlyStdout True)"
  by unfold_locales (auto simp: getter_defs zero_defs split: option.splits StreamLimit.splits)
interpretation only_stderr: nil_safe StreamJobOutputRequest_zero GetOnlyStderr
    "\<lambda>m. stream_Limit m = Some (OnlyStderr True)"
  by unfold_locales (auto simp: getter_defs zero_defs split: option.splits StreamLimit.splits)
interpretation stream_from: nil_safe StreamJobOutputRequest_zero GetFromBeginning stream_FromBeginning
  by unfold_locales (simp_all add: getter_defs zero_defs)
interpretation stream_resp: nil_safe StreamJobOutputResponse_zero GetResponse resp_Response
  by unfold_locales (simp_all add: getter_defs zero_defs)
interpretation stream_past: nil_safe StreamJobOutputResponse_zero GetPast resp_Past
  by unfold_locales (simp_all add: getter_defs zero_defs)

end
