(* ===== verification/Stubs.thy ===== *)
theory Stubs
  imports Messages StreamCall
begin

text \<open>
  \<open>workergrpc/worker_grpc.pb.go\<close>, the generated stubs, and the server object of
  \<open>workergrpc/service.go\<close> that they dispatch to. The gRPC library is a parameter: a connection is
  the functions of \<open>grpc.ClientConnInterface\<close> and \<open>grpc.ClientStream\<close>, a server stream what
  \<open>RecvMsg\<close> gives first. A call is a function of the state \<open>'w\<close> of the server.
\<close>

section \<open>Messages of a dynamic type\<close>

text \<open>What an \<open>interface{}\<close> holds: a message of one of the types of the service.\<close>

datatype 'ts message =
    MGetJobRequest GetJobRequest
  | MGetJobResponse "'ts GetJobResponse"
  | MSubmitJobRequest "'ts SubmitJobRequest"
  | MSubmitJobResponse "'ts SubmitJobResponse"
  | MStopJobRequest StopJobRequest
  | MStopJobResponse "'ts StopJobResponse"
  | MStreamJobOutputRequest StreamJobOutputRequest
  | MStreamJobOutputResponse StreamJobOutputResponse

definition message_type :: "'ts message \<Rightarrow> string" where
  "message_type m = (case m of
     MGetJobRequest _ \<Rightarrow> ''GetJobRequest'' | MGetJobResponse _ \<Rightarrow> ''GetJobResponse''
   | MSubmitJobRequest _ \<Rightarrow> ''SubmitJobRequest'' | MSubmitJobResponse _ \<Rightarrow> ''SubmitJobResponse''
   | MStopJobRequest _ \<Rightarrow> ''StopJobRequest'' | MStopJobResponse _ \<Rightarrow> ''StopJobResponse''
   | MStreamJobOutputRequest _ \<Rightarrow> ''StreamJobOutputRequest''
   | MStreamJobOutputResponse _ \<Rightarrow> ''StreamJobOutputResponse'')"

text \<open>Type assertions, \<open>m.(*T)\<close>: \<open>None\<close> where Go panics.\<close>

definition as_GetJobRequest :: "'ts message \<Rightarrow> GetJobRequest option" where
  "as_GetJobRequest m = (case m of MGetJobRequest r \<Rightarrow> Some r | _ \<Rightarrow> None)"

definition as_SubmitJobRequest :: "'ts message \<Rightarrow> 'ts SubmitJobRequest option" where
  "as_SubmitJobRequest m = (case m of MSubmitJobRequest r \<Rightarrow> Some r | _ \<Rightarrow> None)"

definition as_StopJobRequest :: "'ts message \<Rightarrow> StopJobRequest option" where
  "as_StopJobRequest m = (case m of MStopJobRequest r \<Rightarrow> Some r | _ \<Rightarrow> None)"

definition as_StreamJobOutputRequest :: "'ts message \<Rightarrow> StreamJobOutputRequest option" where
  "as_StreamJobOutputRequest m = (case m of MStreamJobOutputRequest r \<Rightarrow> Some r | _ \<Rightarrow> None)"

definition as_GetJobResponse :: "'ts message \<Rightarrow> 'ts GetJobResponse option" where
  "as_GetJobResponse m = (case m of MGetJobResponse r \<Rightarrow> Some r | _ \<Rightarrow> None)"

definition as_SubmitJobResponse :: "'ts message \<Rightarrow> 'ts SubmitJobResponse option" where
  "as_SubmitJobResponse m = (case m of MSubmitJobResponse r \<Rightarrow> Some r | _ \<Rightarrow> None)"

definition as_StopJobResponse :: "'ts message \<Rightarrow> 'ts StopJobResponse option" where
  "as_StopJobResponse m = (case m of MStopJobResponse r \<Rightarrow> Some r | _ \<Rightarrow> None)"

definition as_StreamJobOutputResponse :: "'ts message \<Rightarrow> StreamJobOutputResponse option" where
  "as_StreamJobOutputResponse m = (case m of MStreamJobOutputResponse r \<Rightarrow> Some r | _ \<Rightarrow> None)"

named_theorems message_defs "types and assertions of dynamic messages"

lemmas [message_defs] = message_type_def as_GetJobRequest_def as_SubmitJobRequest_def as_StopJobRequest_def
  as_StreamJobOutputRequest_def as_GetJobResponse_def as_SubmitJobResponse_def as_StopJobResponse_def
  as_StreamJobOutputResponse_def

section \<open>Calls\<close>

type_synonym ('a, 'w) call = "'w \<Rightarrow> ((go_error + 'a) \<times> 'w) go option"

definition fails :: "go_error \<Rightarrow> ('a, 'w) call" where
  "fails e w = Some (Ret (Inl e, w))"

text \<open>The call on a value that may be of the wrong type.\<close>

definition asserted :: "'m option \<Rightarrow> ('m \<Rightarrow> ('a, 'w) call) \<Rightarrow> ('a, 'w) call" where
  "asserted m f w = (case m of None \<Rightarrow> Some Panic | Some r \<Rightarrow> f r w)"

text \<open>The result of a call as another type; an error stays one.\<close>

definition returned :: "('a \<Rightarrow> 'b) \<Rightarrow> ('a, 'w) call \<Rightarrow> ('b, 'w) call" where
  "returned f m w = run_bind (m w) (\<lambda>(r, w'). Some (Ret (map_sum id f r, w')))"

lemma returned_simps [simp]:
  "m w = None \<Longrightarrow> returned f m w = None"
  "m w = Some Panic \<Longrightarrow> returned f m w = Some Panic"
  "m w = Some Block \<Longrightarrow> returned f m w = Some Block"
  "m w = Some (Ret (Inl e, w')) \<Longrightarrow> returned f m w = Some (Ret (Inl e, w'))"
  "m w = Some (Ret (Inr x, w')) \<Longrightarrow> returned f m w = Some (Ret (Inr (f x), w'))"
  by (simp_all add: returned_def)

section \<open>The server\<close>

text \<open>
  A server stream: its context, and the result of the first \<open>RecvMsg\<close> on a message to fill. A
  stream call that opens well goes on as the system of theory \<open>JobStream\<close>. The marker method
  \<open>mustEmbedUnimplementedJobServiceServer\<close> does nothing and is left out.
\<close>

record 'ts server_stream =
  strm_Context :: rpc_ctx
  strm_RecvMsg :: "'ts message \<Rightarrow> go_error + 'ts message"

record ('ts, 'w) JobServiceServer =
  srv_GetJob :: "rpc_ctx \<Rightarrow> GetJobRequest \<Rightarrow> ('ts GetJobResponse, 'w) call"
  srv_SubmitJob :: "rpc_ctx \<Rightarrow> 'ts SubmitJobRequest \<Rightarrow> ('ts SubmitJobResponse, 'w) call"
  srv_StopJob :: "rpc_ctx \<Rightarrow> StopJobRequest \<Rightarrow> ('ts StopJobResponse, 'w) call"
  srv_StreamJobOutput :: "StreamJobOutputRequest \<Rightarrow> 'ts server_stream \<Rightarrow> (stream_sys, 'w) call"

definition UnimplementedJobServiceServer :: "('ts, 'w) JobServiceServer" where
  "UnimplementedJobServiceServer =
     \<lparr>srv_GetJob = \<lambda>ctx req. fails (Status Unimplemented ''method GetJob not implemented''),
      srv_SubmitJob = \<lambda>ctx req. fails (Status Unimplemented ''method SubmitJob not implemented''),
      srv_StopJob = \<lambda>ctx req. fails (Status Unimplemented ''method StopJob not implemented''),
      srv_StreamJobOutput =
        \<lambda>req strm. fails (Status Unimplemented ''method StreamJobOutput not implemented'')\<rparr>"

text \<open>
  What the handlers meet while they run: the timestamp constructor, the environment of a
  submission, what happens to a job at each access, what happens to it during a stop and how that
  wait ends, and the channels of a job's other listeners.
\<close>

record 'ts surroundings =
  su_ts_new :: "int \<Rightarrow> 'ts"
  su_env :: env
  su_evs :: "nat \<Rightarrow> job_event list"
  su_before_check :: "job_event list"
  su_before_stop :: "job_event list"
  su_before_select :: "job_event list"
  su_stop_err :: "go_error option"
  su_prefer_ctx :: bool
  su_chans :: chans

text \<open>
  \<open>NewJobServiceServer\<close>: \<open>jobService\<close> embeds the unimplemented server and overrides its four
  methods; its worker is the state of the calls.
\<close>

definition NewJobServiceServer :: "'ts surroundings \<Rightarrow> ('ts, worker) JobServiceServer" where
  "NewJobServiceServer su =
     UnimplementedJobServiceServer\<lparr>
       srv_GetJob := \<lambda>ctx req. returned (\<lambda>pb. \<lparr>getresp_Job = Some pb\<rparr>)
         (service_GetJob (su_ts_new su) (su_evs su) ctx req),
       srv_SubmitJob := \<lambda>ctx req. returned (\<lambda>pb. \<lparr>submitresp_Job = Some pb\<rparr>)
         (service_SubmitJob (su_ts_new su) (su_env su) (su_evs su) ctx req),
       srv_StopJob := \<lambda>ctx req. returned (\<lambda>pb. \<lparr>stopresp_Job = Some pb\<rparr>)
         (service_StopJob (su_ts_new su) (su_before_check su) (su_before_stop su) (su_before_select su)
            (su_evs su) (su_stop_err su) (su_prefer_ctx su) ctx req),
       srv_StreamJobOutput := \<lambda>req strm w.
         Some (service_StreamJobOutput (strm_Context strm) req (su_chans su) w)\<rparr>"

section \<open>Handlers\<close>

text \<open>
  A decoder fills the message it is given. An interceptor gets the request, the information
  about the call and a handler to go on with.
\<close>

type_synonym 'ts decoder = "'ts message \<Rightarrow> go_error + 'ts message"

record ('ts, 'w) UnaryServerInfo =
  info_Server :: "('ts, 'w) JobServiceServer"
  info_FullMethod :: string

type_synonym ('ts, 'w) unary_handler = "rpc_ctx \<Rightarrow> 'ts message \<Rightarrow> ('ts message, 'w) call"

type_synonym ('ts, 'w) interceptor =
  "rpc_ctx \<Rightarrow> 'ts message \<Rightarrow> ('ts, 'w) UnaryServerInfo \<Rightarrow> ('ts, 'w) unary_handler \<Rightarrow>
     ('ts message, 'w) call"

type_synonym ('ts, 'w) method_handler =
  "('ts, 'w) JobServiceServer \<Rightarrow> rpc_ctx \<Rightarrow> 'ts decoder \<Rightarrow> ('ts, 'w) interceptor option \<Rightarrow>
     ('ts message, 'w) call"

definition JobService_GetJob_Handler :: "('ts, 'w) method_handler" where
  "JobService_GetJob_Handler srv ctx dec interceptor =
     (case dec (MGetJobRequest GetJobRequest_zero) of
        Inl e \<Rightarrow> fails e
      | Inr m \<Rightarrow>
          let run = (\<lambda>ctx req. asserted (as_GetJobRequest req) (\<lambda>r. returned MGetJobResponse (srv_GetJob srv ctx r))) in
          case interceptor of
            None \<Rightarrow> run ctx m
          | Some ic \<Rightarrow> ic ctx m
              \<lparr>info_Server = srv, info_FullMethod = ''/teleworker.worker.JobService/GetJob''\<rparr> run)"

definition JobService_SubmitJob_Handler :: "('ts, 'w) method_handler" where
  "JobService_SubmitJob_Handler srv ctx dec interceptor =
     (case dec (MSubmitJobRequest SubmitJobRequest_zero) of
        Inl e \<Rightarrow> fails e
      | Inr m \<Rightarrow>
          let run = (\<lambda>ctx req. asserted (as_SubmitJobRequest req) (\<lambda>r. returned MSubmitJobResponse (srv_SubmitJob srv ctx r))) in
          case interceptor of
            None \<Rightarrow> run ctx m
          | Some ic \<Rightarrow> ic ctx m
              \<lparr>info_Server = srv, info_FullMethod = ''/teleworker.worker.JobService/SubmitJob''\<rparr> run)"

definition JobService_StopJob_Handler :: "('ts, 'w) method_handler" where
  "JobService_StopJob_Handler srv ctx dec interceptor =
     (case dec (MStopJobRequest StopJobRequest_zero) of
        Inl e \<Rightarrow> fails e
      | Inr m \<Rightarrow>
          let run = (\<lambda>ctx req. asserted (as_StopJobRequest req) (\<lambda>r. returned MStopJobResponse (srv_StopJob srv ctx r))) in
          case interceptor of
            None \<Rightarrow> run ctx m
          | Some ic \<Rightarrow> ic ctx m
              \<lparr>info_Server = srv, info_FullMethod = ''/teleworker.worker.JobService/StopJob''\<rparr> run)"

definition JobService_StreamJobOutput_Handler ::
  "('ts, 'w) JobServiceServer \<Rightarrow> 'ts server_stream \<Rightarrow> (stream_sys, 'w) call" where
  "JobService_StreamJobOutput_Handler srv strm =
     (case strm_RecvMsg strm (MStreamJobOutputRequest StreamJobOutputRequest_zero) of
        Inl e \<Rightarrow> fails e
      | Inr m \<Rightarrow> asserted (as_StreamJobOutputRequest m) (\<lambda>r. srv_StreamJobOutput srv r strm))"

text \<open>\<open>Send\<close> of the server's end of the stream: what it passes to \<open>SendMsg\<close>.\<close>

definition server_Send :: "StreamJobOutputResponse \<Rightarrow> 'ts message" where
  "server_Send m = MStreamJobOutputResponse m"

section \<open>The service descriptor\<close>

text \<open>The handler type, which only fixes the Go interface of the server, is the HOL type here.\<close>

record ('ts, 'w) MethodDesc =
  MethodName :: string
  md_Handler :: "('ts, 'w) method_handler"

record ('ts, 'w) StreamDesc =
  StreamName :: string
  sd_Handler :: "('ts, 'w) JobServiceServer \<Rightarrow> 'ts server_stream \<Rightarrow> (stream_sys, 'w) call"
  ServerStreams :: bool
  ClientStreams :: bool

record ('ts, 'w) ServiceDesc =
  ServiceName :: string
  Methods :: "('ts, 'w) MethodDesc list"
  Streams :: "('ts, 'w) StreamDesc list"
  Metadata :: string

definition JobService_ServiceDesc :: "('ts, 'w) ServiceDesc" where
  "JobService_ServiceDesc =
     \<lparr>ServiceName = ''teleworker.worker.JobService'',
      Methods =
        [\<lparr>MethodName = ''GetJob'', md_Handler = JobService_GetJob_Handler\<rparr>,
         \<lparr>MethodName = ''SubmitJob'', md_Handler = JobService_SubmitJob_Handler\<rparr>,
         \<lparr>MethodName = ''StopJob'', md_Handler = JobService_StopJob_Handler\<rparr>],
      Streams =
        [\<lparr>StreamName = ''StreamJobOutput'', sd_Handler = JobService_StreamJobOutput_Handler,
          ServerStreams = True, ClientStreams = False\<rparr>],
      Metadata = ''workergrpc/worker.proto''\<rparr>"

definition RegisterJobServiceServer ::
  "(('ts, 'w) ServiceDesc \<Rightarrow> ('ts, 'w) JobServiceServer \<Rightarrow> 'r) \<Rightarrow> ('ts, 'w) JobServiceServer \<Rightarrow> 'r" where
  "RegisterJobServiceServer RegisterService srv = RegisterService JobService_ServiceDesc srv"

section \<open>The client\<close>

text \<open>
  A connection. \<open>Invoke\<close> gets the method, the request and the message to fill; an error comes
  without a message. Of a stream, each operation returns the stream as it is afterwards.
\<close>

record ('ts, 'w, 'st) ClientConn =
  cc_Invoke :: "string \<Rightarrow> 'ts message \<Rightarrow> 'ts message \<Rightarrow> ('ts message, 'w) call"
  cc_NewStream :: "('ts, 'w) StreamDesc \<Rightarrow> string \<Rightarrow> go_error + 'st"
  cc_SendMsg :: "'st \<Rightarrow> 'ts message \<Rightarrow> go_error option \<times> 'st"
  cc_CloseSend :: "'st \<Rightarrow> go_error option \<times> 'st"
  cc_RecvMsg :: "'st \<Rightarrow> 'ts message \<Rightarrow> (go_error + 'ts message) \<times> 'st"

definition invoked ::
  "('ts, 'w, 'st) ClientConn \<Rightarrow> string \<Rightarrow> 'ts message \<Rightarrow> 'ts message \<Rightarrow> ('ts message \<Rightarrow> 'a option) \<Rightarrow> ('a, 'w) call" where
  "invoked cc method args reply as_reply w =
     run_bind (cc_Invoke cc method args reply w) (\<lambda>(r, w'). case r of
         Inl e \<Rightarrow> Some (Ret (Inl e, w'))
       | Inr m \<Rightarrow> (case as_reply m of None \<Rightarrow> Some Panic | Some out \<Rightarrow> Some (Ret (Inr out, w'))))"

definition client_GetJob :: "('ts, 'w, 'st) ClientConn \<Rightarrow> GetJobRequest \<Rightarrow> ('ts GetJobResponse, 'w) call" where
  "client_GetJob cc req = invoked cc ''/teleworker.worker.JobService/GetJob''
     (MGetJobRequest req) (MGetJobResponse GetJobResponse_zero) as_GetJobResponse"

definition client_SubmitJob ::
  "('ts, 'w, 'st) ClientConn \<Rightarrow> 'ts SubmitJobRequest \<Rightarrow> ('ts SubmitJobResponse, 'w) call" where
  "client_SubmitJob cc req = invoked cc ''/teleworker.worker.JobService/SubmitJob''
     (MSubmitJobRequest req) (MSubmitJobResponse SubmitJobResponse_zero) as_SubmitJobResponse"

definition client_StopJob :: "('ts, 'w, 'st) ClientConn \<Rightarrow> StopJobRequest \<Rightarrow> ('ts StopJobResponse, 'w) call" where
  "client_StopJob cc req = invoked cc ''/teleworker.worker.JobService/StopJob''
     (MStopJobRequest req) (MStopJobResponse StopJobResponse_zero) as_StopJobResponse"

text \<open>Opening a stream: the descriptor's first stream, whose absence would be an index out of range.\<close>

definition client_StreamJobOutput ::
  "('ts, 'w, 'st) ClientConn \<Rightarrow> StreamJobOutputRequest \<Rightarrow> (go_error + 'st) go" where
  "client_StreamJobOutput cc req =
     (case Streams (JobService_ServiceDesc :: ('ts, 'w) ServiceDesc) of
        [] \<Rightarrow> Panic
      | sd # _ \<Rightarrow> Ret (
          case cc_NewStream cc sd ''/teleworker.worker.JobService/StreamJobOutput'' of
            Inl e \<Rightarrow> Inl e
          | Inr st \<Rightarrow> (case cc_SendMsg cc st (MStreamJobOutputRequest req) of
              (Some e, st1) \<Rightarrow> Inl e
            | (None, st1) \<Rightarrow> (case cc_CloseSend cc st1 of
                (Some e, st2) \<Rightarrow> Inl e
              | (None, st2) \<Rightarrow> Inr st2))))"

text \<open>\<open>Recv\<close>: a message the library filled is of the type it was given.\<close>

definition client_Recv ::
  "('ts, 'w, 'st) ClientConn \<Rightarrow> 'st \<Rightarrow> ((go_error + StreamJobOutputResponse) \<times> 'st) go" where
  "client_Recv cc st =
     (case cc_RecvMsg cc st (MStreamJobOutputResponse StreamJobOutputResponse_zero) of
        (Inl e, st') \<Rightarrow> Ret (Inl e, st')
      | (Inr m, st') \<Rightarrow> (case as_StreamJobOutputResponse m of
          None \<Rightarrow> Panic
        | Some r \<Rightarrow> Ret (Inr r, st')))"

end
