(* ===== verification/Wire.thy ===== *)
theory Wire
  imports Stubs ClientCmd
begin

text \<open>
  Client and server joined by the gRPC library: what its transport is documented to do, as
  hypotheses about a connection; the three unary methods as interpretations of one locale, from the
  client's stub to the service's handler; and what the commands of the client then print.
\<close>

section \<open>The transport\<close>

text \<open>The name under which the library offers a method of a registered service.\<close>

definition full_method :: "('ts, 'w) ServiceDesc \<Rightarrow> string \<Rightarrow> string" where
  "full_method desc name = ''/'' @ ServiceName desc @ ''/'' @ name"

text \<open>Registration goes through the list and stores each handler under its name.\<close>

definition handler_named :: "('ts, 'w) ServiceDesc \<Rightarrow> string \<Rightarrow> ('ts, 'w) method_handler option" where
  "handler_named desc name = map_of (rev (map (\<lambda>md. (MethodName md, md_Handler md)) (Methods desc))) name"

text \<open>A decoder of a message that was sent fills a message of the same type with it.\<close>

definition decodes :: "'ts decoder \<Rightarrow> 'ts message \<Rightarrow> bool" where
  "decodes dec m \<longleftrightarrow> (\<forall>target. message_type target = message_type m \<longrightarrow> dec target = Inr m)"

text \<open>
  What the caller gets of a result: the answer, if it can be sent, or the error as the wire shows
  it. A handler that panics ends the server, one that does not return keeps its caller waiting.
\<close>

definition carried ::
  "(go_error \<Rightarrow> go_error) \<Rightarrow> ('a \<Rightarrow> bool) \<Rightarrow> ('a \<Rightarrow> 'b) \<Rightarrow> ((go_error + 'a) \<times> 'w) go option \<Rightarrow>
     ((go_error + 'b) \<times> 'w) go option \<Rightarrow> bool" where
  "carried wire ok f res out =
     (case res of
        None \<Rightarrow> out = None
      | Some Panic \<Rightarrow> out = Some Panic
      | Some Block \<Rightarrow> out = Some Block
      | Some (Ret (Inl e, w)) \<Rightarrow> out = Some (Ret (Inl (wire e), w))
      | Some (Ret (Inr x, w)) \<Rightarrow> ok x \<longrightarrow> out = Some (Ret (Inr (f x), w)))"

text \<open>
  The documented behaviour of a unary call on a connection to a server with this service and no
  interceptor: a call of a method's full name runs the handler registered for it on the request
  that was sent, and its caller gets the result. \<open>sendable\<close> are the messages the library can
  send: its strings are UTF-8 and it is not too large. Status errors arrive as they are.
\<close>

definition unary_transport ::
  "('ts, 'w) ServiceDesc \<Rightarrow> ('ts, 'w) JobServiceServer \<Rightarrow> rpc_ctx \<Rightarrow> (go_error \<Rightarrow> go_error) \<Rightarrow>
     ('ts message \<Rightarrow> bool) \<Rightarrow> ('ts, 'w, 'st) ClientConn \<Rightarrow> bool" where
  "unary_transport desc srv ctx wire sendable cc \<longleftrightarrow>
     (\<forall>code msg. wire (Status code msg) = Status code msg) \<and>
     (\<forall>name h args reply w. handler_named desc name = Some h \<and> sendable args \<longrightarrow>
        (\<exists>dec. decodes dec args \<and>
           carried wire (\<lambda>m. sendable m \<and> message_type m = message_type reply) id
             (h srv ctx dec None w) (cc_Invoke cc (full_method desc name) args reply w)))"

lemma transport_status: "unary_transport desc srv ctx wire sendable cc \<Longrightarrow> wire (Status c m) = Status c m"
  by (simp add: unary_transport_def)

text \<open>
  The serve command registers the service it makes of its worker. A connection to it is one whose
  transport goes by what was registered.
\<close>

definition serve_registration :: "'ts surroundings \<Rightarrow> ('ts, worker) ServiceDesc \<times> ('ts, worker) JobServiceServer" where
  "serve_registration su = RegisterJobServiceServer Pair (NewJobServiceServer su)"

definition connected ::
  "'ts surroundings \<Rightarrow> rpc_ctx \<Rightarrow> (go_error \<Rightarrow> go_error) \<Rightarrow> ('ts message \<Rightarrow> bool) \<Rightarrow>
     ('ts, worker, 'st) ClientConn \<Rightarrow> bool" where
  "connected su ctx wire sendable cc \<longleftrightarrow>
     (case serve_registration su of (desc, srv) \<Rightarrow> unary_transport desc srv ctx wire sendable cc)"

lemma connected_iff:
  "connected su ctx wire sendable cc \<longleftrightarrow>
     unary_transport JobService_ServiceDesc (NewJobServiceServer su) ctx wire sendable cc"
  by (simp add: connected_def serve_registration_def RegisterJobServiceServer_def)

lemma connected_status: "connected su ctx wire sendable cc \<Longrightarrow> wire (Status c m) = Status c m"
  by (simp add: connected_iff transport_status)

lemma carried_returned:
  "carried wire ok f (returned g call w) out \<longleftrightarrow> carried wire (ok \<circ> g) (f \<circ> g) (call w) out"
  by (auto simp: carried_def returned_def run_bind_def split: option.splits go.splits sum.splits)

lemma carried_invoked:
  assumes "carried wire (\<lambda>m. sendable m \<and> message_type m = message_type reply) id (returned mk call w)
      (cc_Invoke cc method args reply w)"
    and "\<And>x. as_reply (mk x) = Some x" and "\<And>x. message_type (mk x) = message_type reply"
  shows "carried wire (sendable \<circ> mk) id (call w) (invoked cc method args reply as_reply w)"
  using assms(1) unfolding carried_returned
  by (auto simp: carried_def invoked_def run_bind_def assms(2,3) split: option.splits go.splits sum.splits)

section \<open>Unary methods\<close>

text \<open>
  One unary method through all its stubs: the client's function, the name and handler in the
  descriptor, the request and response types, and the method of the server interface.
\<close>

locale unary_method =
  fixes name :: string
    and handler :: "('ts, 'w) method_handler"
    and mk_req :: "'req \<Rightarrow> 'ts message"
    and as_req :: "'ts message \<Rightarrow> 'req option"
    and zero_req :: 'req
    and mk_resp :: "'resp \<Rightarrow> 'ts message"
    and as_resp :: "'ts message \<Rightarrow> 'resp option"
    and zero_resp :: 'resp
    and srv_method :: "('ts, 'w) JobServiceServer \<Rightarrow> rpc_ctx \<Rightarrow> 'req \<Rightarrow> ('resp, 'w) call"
    and client :: "('ts, 'w, 'st) ClientConn \<Rightarrow> 'req \<Rightarrow> ('resp, 'w) call"
  assumes registered: "handler_named JobService_ServiceDesc name = Some handler"
    and handler_eq: "handler srv ctx dec interceptor =
      (case dec (mk_req zero_req) of
         Inl e \<Rightarrow> fails e
       | Inr m \<Rightarrow>
           let run = (\<lambda>ctx req. asserted (as_req req) (\<lambda>r. returned mk_resp (srv_method srv ctx r))) in
           case interceptor of
             None \<Rightarrow> run ctx m
           | Some ic \<Rightarrow> ic ctx m
               \<lparr>info_Server = srv,
                info_FullMethod = full_method (JobService_ServiceDesc :: ('ts, 'w) ServiceDesc) name\<rparr> run)"
    and client_eq: "client cc req =
      invoked cc (full_method (JobService_ServiceDesc :: ('ts, 'w) ServiceDesc) name)
        (mk_req req) (mk_resp zero_resp) as_resp"
    and as_mk_req: "as_req (mk_req r) = Some r"
    and as_mk_resp: "as_resp (mk_resp x) = Some x"
    and req_type: "message_type (mk_req r) = message_type (mk_req r')"
    and resp_type: "message_type (mk_resp x) = message_type (mk_resp x')"
begin

lemma handler_direct:
  assumes "decodes dec (mk_req r)"
  shows "handler srv ctx dec None = returned mk_resp (srv_method srv ctx r)"
proof -
  have "dec (mk_req zero_req) = Inr (mk_req r)"
    using assms req_type unfolding decodes_def by blast
  then show ?thesis by (rule_tac ext) (simp add: handler_eq as_mk_req asserted_def)
qed

lemma call_reaches_server:
  assumes "unary_transport JobService_ServiceDesc srv ctx wire sendable cc" and "sendable (mk_req r)"
  shows "carried wire (sendable \<circ> mk_resp) id (srv_method srv ctx r w) (client cc r w)"
proof -
  obtain dec where d: "decodes dec (mk_req r)"
    and c: "carried wire (\<lambda>m. sendable m \<and> message_type m = message_type (mk_resp zero_resp)) id
      (handler srv ctx dec None w)
      (cc_Invoke cc (full_method (JobService_ServiceDesc :: ('ts, 'w) ServiceDesc) name)
        (mk_req r) (mk_resp zero_resp) w)"
    using assms registered unfolding unary_transport_def by blast
  show ?thesis
    unfolding client_eq by (rule carried_invoked [OF c [unfolded handler_direct [OF d]] as_mk_resp resp_type])
qed

text \<open>An interceptor that lets only this method of this server pass changes nothing.\<close>

lemma interceptor_told:
  "handler srv ctx dec (Some (\<lambda>ctx m info run.
      if info_FullMethod info = full_method (JobService_ServiceDesc :: ('ts, 'w) ServiceDesc) name \<and>
         info_Server info = srv
      then run ctx m else fails e)) = handler srv ctx dec None"
  by (simp add: handler_eq Let_def split: sum.split)

end

lemmas stub_defs = handler_named_def full_method_def JobService_ServiceDesc_def client_GetJob_def
  client_SubmitJob_def client_StopJob_def JobService_GetJob_Handler_def JobService_SubmitJob_Handler_def
  JobService_StopJob_Handler_def

interpretation getm: unary_method "''GetJob''" JobService_GetJob_Handler MGetJobRequest as_GetJobRequest
    GetJobRequest_zero MGetJobResponse as_GetJobResponse GetJobResponse_zero srv_GetJob client_GetJob
  by unfold_locales (simp_all add: stub_defs message_defs Let_def split: sum.split option.split)

interpretation submitm: unary_method "''SubmitJob''" JobService_SubmitJob_Handler MSubmitJobRequest
    as_SubmitJobRequest SubmitJobRequest_zero MSubmitJobResponse as_SubmitJobResponse
    SubmitJobResponse_zero srv_SubmitJob client_SubmitJob
  by unfold_locales (simp_all add: stub_defs message_defs Let_def split: sum.split option.split)

interpretation stopm: unary_method "''StopJob''" JobService_StopJob_Handler MStopJobRequest as_StopJobRequest
    StopJobRequest_zero MStopJobResponse as_StopJobResponse StopJobResponse_zero srv_StopJob client_StopJob
  by unfold_locales (simp_all add: stub_defs message_defs Let_def split: sum.split option.split)

section \<open>A connection for the examples\<close>

text \<open>
  Client and server in one program: every message can be sent, a call finds its handler by name,
  and a stream is the list of what it will give.
\<close>

definition loopback ::
  "('ts, 'w) JobServiceServer \<Rightarrow> rpc_ctx \<Rightarrow> (go_error + 'ts message) list \<Rightarrow>
     ('ts, 'w, (go_error + 'ts message) list) ClientConn" where
  "loopback srv ctx strm =
     \<lparr>cc_Invoke = \<lambda>method args reply.
        (case find (\<lambda>md. full_method (JobService_ServiceDesc :: ('ts, 'w) ServiceDesc) (MethodName md) = method)
            (Methods JobService_ServiceDesc) of
           None \<Rightarrow> fails (Status Unimplemented ''unknown method'')
         | Some md \<Rightarrow> md_Handler md srv ctx
             (\<lambda>target. if message_type target = message_type args then Inr args else Inl (LibError ''type'')) None),
      cc_NewStream = \<lambda>sd method. Inr [],
      cc_SendMsg = \<lambda>st m. (None, strm),
      cc_CloseSend = \<lambda>st. (None, st),
      cc_RecvMsg = \<lambda>st target. (case st of [] \<Rightarrow> (Inl EOF, []) | r # rs \<Rightarrow> (r, rs))\<rparr>"

lemma carried_self: "(\<And>e w. res = Some (Ret (Inl e, w)) \<Longrightarrow> wire e = e) \<Longrightarrow> carried wire ok id res res"
  by (auto simp: carried_def split: option.splits go.splits sum.splits)

lemma loopback_transport:
  fixes srv :: "('ts, 'w) JobServiceServer"
  shows "unary_transport JobService_ServiceDesc srv ctx id (\<lambda>_. True) (loopback srv ctx strm)"
proof -
  have "\<exists>dec. decodes dec args \<and>
      carried id (\<lambda>m. True \<and> message_type m = message_type reply) id (h srv ctx dec None w)
        (cc_Invoke (loopback srv ctx strm) (full_method (JobService_ServiceDesc :: ('ts, 'w) ServiceDesc) name) args reply w)"
    if "handler_named (JobService_ServiceDesc :: ('ts, 'w) ServiceDesc) name = Some h" for name h args reply w
  proof (intro exI conjI)
    let ?dec = "\<lambda>target. if message_type target = message_type args then Inr args else Inl (LibError ''type'')"
    show "decodes ?dec args" by (simp add: decodes_def)
    from that have "cc_Invoke (loopback srv ctx strm)
        (full_method (JobService_ServiceDesc :: ('ts, 'w) ServiceDesc) name) args reply = h srv ctx ?dec None"
      by (auto simp: loopback_def handler_named_def full_method_def JobService_ServiceDesc_def split: if_splits)
    then show "carried id (\<lambda>m. True \<and> message_type m = message_type reply) id (h srv ctx ?dec None w)
        (cc_Invoke (loopback srv ctx strm) (full_method (JobService_ServiceDesc :: ('ts, 'w) ServiceDesc) name) args reply w)"
      by (simp add: carried_self)
  qed
  then show ?thesis by (simp add: unary_transport_def)
qed

lemma loopback_connected: "connected su ctx id (\<lambda>_. True) (loopback (NewJobServiceServer su) ctx strm)"
  unfolding connected_iff by (rule loopback_transport)

abbreviation quiet :: "int surroundings" where
  "quiet \<equiv> \<lparr>su_ts_new = id, su_env = sample_env, su_evs = \<lambda>_. [], su_before_check = [],
     su_before_stop = [], su_before_select = [EvDone 0], su_stop_err = None, su_prefer_ctx = False,
     su_chans = no_chans\<rparr>"

section \<open>Calls\<close>

lemma carried_new_server:
  "carried wire ok id (srv_GetJob (NewJobServiceServer su) ctx g w) out \<longleftrightarrow>
     carried wire (\<lambda>pb. ok \<lparr>getresp_Job = Some pb\<rparr>) (\<lambda>pb. \<lparr>getresp_Job = Some pb\<rparr>)
       (service_GetJob (su_ts_new su) (su_evs su) ctx g w) out"
  "carried wire ok' id (srv_SubmitJob (NewJobServiceServer su) ctx s w) out' \<longleftrightarrow>
     carried wire (\<lambda>pb. ok' \<lparr>submitresp_Job = Some pb\<rparr>) (\<lambda>pb. \<lparr>submitresp_Job = Some pb\<rparr>)
       (service_SubmitJob (su_ts_new su) (su_env su) (su_evs su) ctx s w) out'"
  "carried wire ok'' id (srv_StopJob (NewJobServiceServer su) ctx q w) out'' \<longleftrightarrow>
     carried wire (\<lambda>pb. ok'' \<lparr>stopresp_Job = Some pb\<rparr>) (\<lambda>pb. \<lparr>stopresp_Job = Some pb\<rparr>)
       (service_StopJob (su_ts_new su) (su_before_check su) (su_before_stop su) (su_before_select su)
          (su_evs su) (su_stop_err su) (su_prefer_ctx su) ctx q w) out''"
  by (simp_all add: NewJobServiceServer_def carried_returned comp_def)

lemma calls_carried:
  assumes "connected su ctx wire sendable cc"
  shows "sendable (MGetJobRequest g) \<Longrightarrow>
      carried wire (\<lambda>pb. sendable (MGetJobResponse \<lparr>getresp_Job = Some pb\<rparr>)) (\<lambda>pb. \<lparr>getresp_Job = Some pb\<rparr>)
        (service_GetJob (su_ts_new su) (su_evs su) ctx g w) (client_GetJob cc g w)"
    and "sendable (MSubmitJobRequest s) \<Longrightarrow>
      carried wire (\<lambda>pb. sendable (MSubmitJobResponse \<lparr>submitresp_Job = Some pb\<rparr>)) (\<lambda>pb. \<lparr>submitresp_Job = Some pb\<rparr>)
        (service_SubmitJob (su_ts_new su) (su_env su) (su_evs su) ctx s w) (client_SubmitJob cc s w)"
    and "sendable (MStopJobRequest q) \<Longrightarrow>
      carried wire (\<lambda>pb. sendable (MStopJobResponse \<lparr>stopresp_Job = Some pb\<rparr>)) (\<lambda>pb. \<lparr>stopresp_Job = Some pb\<rparr>)
        (service_StopJob (su_ts_new su) (su_before_check su) (su_before_stop su) (su_before_select su)
          (su_evs su) (su_stop_err su) (su_prefer_ctx su) ctx q w) (client_StopJob cc q w)"
  using getm.call_reaches_server [OF assms [unfolded connected_iff], of g w] submitm.call_reaches_server [OF assms [unfolded connected_iff], of s w]
    stopm.call_reaches_server [OF assms [unfolded connected_iff], of q w]
  by (simp_all add: carried_new_server comp_def)

section \<open>Properties\<close>

text \<open>C9: Every call of the client's stubs is answered by the service handler of its own name, on the
  request that was made: over any connection that carries messages as documented, a job the handler
  answers with arrives as the job of the response, a status arrives as it is, a panic of the
  handler is one of the server, and no call ends as unimplemented unless the service says so.\<close>

theorem client_calls_reach_their_handlers:
  assumes "connected su ctx wire sendable cc"
  shows "(sendable (MGetJobRequest g) \<longrightarrow>
      carried wire (\<lambda>pb. sendable (MGetJobResponse \<lparr>getresp_Job = Some pb\<rparr>)) (\<lambda>pb. \<lparr>getresp_Job = Some pb\<rparr>)
        (service_GetJob (su_ts_new su) (su_evs su) ctx g w) (client_GetJob cc g w)) \<and>
    (sendable (MSubmitJobRequest s) \<longrightarrow>
      carried wire (\<lambda>pb. sendable (MSubmitJobResponse \<lparr>submitresp_Job = Some pb\<rparr>)) (\<lambda>pb. \<lparr>submitresp_Job = Some pb\<rparr>)
        (service_SubmitJob (su_ts_new su) (su_env su) (su_evs su) ctx s w) (client_SubmitJob cc s w)) \<and>
    (sendable (MStopJobRequest q) \<longrightarrow>
      carried wire (\<lambda>pb. sendable (MStopJobResponse \<lparr>stopresp_Job = Some pb\<rparr>)) (\<lambda>pb. \<lparr>stopresp_Job = Some pb\<rparr>)
        (service_StopJob (su_ts_new su) (su_before_check su) (su_before_stop su) (su_before_select su)
          (su_evs su) (su_stop_err su) (su_prefer_ctx su) ctx q w) (client_StopJob cc q w))"
  by (intro conjI impI calls_carried [OF assms])

theorem client_calls_reach_their_handlers_witness:
  "\<exists>w'. client_GetJob (loopback (NewJobServiceServer quiet) service_ctx [])
      \<lparr>get_JobId = ''x'', get_IncludeStdout = False, get_IncludeStderr = False\<rparr> service_worker =
    Some (Ret (Inl (Status NotFound ''not found''), w'))"
proof -
  let ?r = "\<lparr>get_JobId = ''x'', get_IncludeStdout = False, get_IncludeStderr = False\<rparr>"
  obtain w' where "service_GetJob id (\<lambda>_. []) service_ctx ?r service_worker =
      Some (Ret (Inl (Status NotFound ''not found''), w'))"
    using getJob_eq [OF service_worker_inv, of service_ctx "''x''"]
    by (simp add: service_GetJob_def namespaceFromContext_def found_job_def lookup_job_def job_entry_def)
  with client_calls_reach_their_handlers [OF loopback_connected, of quiet service_ctx ?r service_worker]
  show ?thesis by (simp add: carried_def)
qed

text \<open>An interceptor of a unary call is told the name the client called and the server object, and
  goes on with the same handler: one that lets only that method of that server pass changes nothing,
  whatever it would answer to others.\<close>

theorem interceptors_are_told_the_method:
  "\<forall>md \<in> set (Methods (JobService_ServiceDesc :: ('ts, 'w) ServiceDesc)).
     md_Handler md srv ctx dec (Some (\<lambda>ctx m info run.
       if info_FullMethod info = full_method (JobService_ServiceDesc :: ('ts, 'w) ServiceDesc) (MethodName md) \<and>
          info_Server info = srv
       then run ctx m else fails e)) =
     md_Handler md srv ctx dec None"
  using getm.interceptor_told [of srv ctx dec e] submitm.interceptor_told [of srv ctx dec e]
    stopm.interceptor_told [of srv ctx dec e]
  by (simp add: JobService_ServiceDesc_def)

text \<open>C30: A SubmitJob request without a job, which the message type allows, ends the server: whoever sends
  it and whatever the worker holds, the handler panics, before it looks at the client's certificate.\<close>

theorem nil_submission_ends_server:
  assumes "connected su ctx wire sendable cc"
    and "sendable (MSubmitJobRequest SubmitJobRequest_zero)"
  shows "client_SubmitJob cc SubmitJobRequest_zero w = Some Panic"
  using calls_carried(2) [OF assms, of w]
  by (simp add: carried_def service_SubmitJob_def validateSubmitJobRequest_def SubmitJobRequest_zero_def)

theorem nil_submission_ends_server_witness:
  "client_SubmitJob (loopback (NewJobServiceServer quiet) \<lparr>ctx_peer = None\<rparr> []) SubmitJobRequest_zero service_worker =
     Some Panic"
  by (rule nil_submission_ends_server [OF loopback_connected]) simp

end
