(* ===== verification/WireCmd.thy ===== *)
theory WireCmd
  imports Wire
begin

text \<open>
  The commands of \<open>cmd/client.go\<close> against the service of \<open>workergrpc/service.go\<close>, through the
  stubs of both ends and the transport between them.
\<close>

section \<open>Handlers that return\<close>

lemma optional_output_total:
  assumes "\<forall>t. length (output_of e (job_at j evs t)) \<le> L"
  shows "\<exists>x t'. optional_output wanted (\<lambda>t. read_fn e (job_at j evs t)) t = Some (Ret (x, None, t'))"
  using job_reader.allOutput_total [OF assms, of t] by (auto simp: optional_output_def)

lemma toProtoJob_total:
  assumes "\<forall>e t. length (output_of e (job_at j evs t)) \<le> L"
  shows "\<exists>pb. toProtoJob ts_new (job_at j evs) t out err = Some (Ret (Inr pb))"
proof -
  obtain x t1 where 1: "optional_output out (\<lambda>t. read_fn False (job_at j evs t)) (Suc t) = Some (Ret (x, None, t1))"
    using optional_output_total [of False j evs L] assms by blast
  obtain y t2 where "optional_output err (\<lambda>t. read_fn True (job_at j evs t)) t1 = Some (Ret (y, None, t2))"
    using optional_output_total [of True j evs L] assms by blast
  with 1 show ?thesis by (simp add: toProtoJob_def Let_def)
qed

text \<open>GetJob for a client with a certificate, by what the worker has under its namespace.\<close>

lemma service_GetJob_found:
  assumes "worker_inv w" and "namespaceFromContext ctx = Ret (Inr ns)" and "get_JobId req \<noteq> []"
  shows "found_job w ns (get_JobId req) = Inl e \<Longrightarrow>
      \<exists>w'. service_GetJob ts_new evs ctx req w = Some (Ret (Inl e, w'))"
    and "found_job w ns (get_JobId req) = Inr p \<Longrightarrow>
      \<forall>e t. length (output_of e (job_at (heap w ! p) evs t)) \<le> L \<Longrightarrow>
      \<exists>pb w'. service_GetJob ts_new evs ctx req w = Some (Ret (Inr pb, w'))"
proof -
  have g: "\<exists>w'. getJob ctx (get_JobId req) w = Ret (found_job w ns (get_JobId req), w') \<and> heap w' = heap w"
    using getJob_eq [OF assms(1), of ctx "get_JobId req"] assms(2,3) by simp
  show "\<exists>w'. service_GetJob ts_new evs ctx req w = Some (Ret (Inl e, w'))"
    if "found_job w ns (get_JobId req) = Inl e"
    using g that by (auto simp: service_GetJob_def)
  show "\<exists>pb w'. service_GetJob ts_new evs ctx req w = Some (Ret (Inr pb, w'))"
    if "found_job w ns (get_JobId req) = Inr p" "\<forall>e t. length (output_of e (job_at (heap w ! p) evs t)) \<le> L"
    using g that toProtoJob_total [OF that(2), of ts_new 0 "get_IncludeStdout req" "get_IncludeStderr req"]
    by (auto simp: service_GetJob_def)
qed

lemma service_GetJob_here:
  assumes "worker_inv w" and "service_GetJob ts_new evs ctx req w = Some (Ret (Inr pb, w'))"
    and "namespaceFromContext ctx = Ret (Inr ns)" and "lookup_job w ns (get_JobId req) = Some p"
  shows "Namespace (heap w ! p) = ns" "ID (heap w ! p) = get_JobId req"
    "\<exists>t1 t2. pb = \<lparr>pb_Id = ID (heap w ! p), pb_Command = Command (heap w ! p) # Args (heap w ! p),
       pb_RootFs = RootFS (heap w ! p), pb_CreatedAt = Some (ts_new (CreatedAt (heap w ! p))),
       pb_Pid = word_of_int (PID (heap w ! p)),
       pb_Stdout = (if get_IncludeStdout req then stdout (job_at (heap w ! p) evs t1) else []),
       pb_Stderr = (if get_IncludeStderr req then stderr (job_at (heap w ! p) evs t2) else []),
       pb_ExitCode = map_option word_of_int (exitCode (job_at (heap w ! p) evs 0))\<rparr>"
proof -
  from service_GetJob_Ret [OF assms(1,2)] obtain ns' p' t1 t2 where a:
    "namespaceFromContext ctx = Ret (Inr ns')" "lookup_job w ns' (get_JobId req) = Some p'"
    "Namespace (heap w ! p') = ns'" "ID (heap w ! p') = get_JobId req" and pb:
    "pb = \<lparr>pb_Id = ID (heap w ! p'), pb_Command = Command (heap w ! p') # Args (heap w ! p'),
       pb_RootFs = RootFS (heap w ! p'), pb_CreatedAt = Some (ts_new (CreatedAt (heap w ! p'))),
       pb_Pid = word_of_int (PID (heap w ! p')),
       pb_Stdout = (if get_IncludeStdout req then stdout (job_at (heap w ! p') evs t1) else []),
       pb_Stderr = (if get_IncludeStderr req then stderr (job_at (heap w ! p') evs t2) else []),
       pb_ExitCode = map_option word_of_int (exitCode (job_at (heap w ! p') evs 0))\<rparr>"
    by metis
  have "ns' = ns" "p' = p" using a(1,2) assms(3,4) by auto
  with a(3,4) pb show "Namespace (heap w ! p) = ns" "ID (heap w ! p) = get_JobId req"
    "\<exists>t1 t2. pb = \<lparr>pb_Id = ID (heap w ! p), pb_Command = Command (heap w ! p) # Args (heap w ! p),
       pb_RootFs = RootFS (heap w ! p), pb_CreatedAt = Some (ts_new (CreatedAt (heap w ! p))),
       pb_Pid = word_of_int (PID (heap w ! p)),
       pb_Stdout = (if get_IncludeStdout req then stdout (job_at (heap w ! p) evs t1) else []),
       pb_Stderr = (if get_IncludeStderr req then stderr (job_at (heap w ! p) evs t2) else []),
       pb_ExitCode = map_option word_of_int (exitCode (job_at (heap w ! p) evs 0))\<rparr>"
    by blast+
qed

lemma found_job_status: "found_job w ns i = Inl e \<Longrightarrow> \<exists>c m. e = Status c m"
  by (auto simp: found_job_def split: if_splits option.splits)

lemma found_job_lookup: "found_job w ns i = Inr p \<Longrightarrow> lookup_job w ns i = Some p"
  by (auto simp: found_job_def split: if_splits option.splits)

text \<open>What a client that makes the calls of a connection gets from them, when they return.\<close>

definition answers :: "('req \<Rightarrow> ('resp, 'w) call) \<Rightarrow> 'w \<Rightarrow> ('resp \<Rightarrow> 'a) \<Rightarrow> ('req \<Rightarrow> go_error + 'a) \<Rightarrow> bool" where
  "answers client w f ask \<longleftrightarrow>
     (\<forall>req r w'. client req w = Some (Ret (r, w')) \<longrightarrow> ask req = map_sum id f r)"

lemma answersD: "answers client w f ask \<Longrightarrow> client req w = Some (Ret (r, w')) \<Longrightarrow> ask req = map_sum id f r"
  by (simp add: answers_def)

section \<open>get\<close>

lemma get_carried:
  assumes "worker_inv w" and "namespaceFromContext ctx = Ret (Inr ns)"
    and "connected su ctx wire sendable cc"
    and "sendable (MGetJobRequest req)"
    and "\<And>pb w'. service_GetJob (su_ts_new su) (su_evs su) ctx req w = Some (Ret (Inr pb, w')) \<Longrightarrow>
      sendable (MGetJobResponse \<lparr>getresp_Job = Some pb\<rparr>)"
    and "get_JobId req \<noteq> []"
    and "\<And>p e t. found_job w ns (get_JobId req) = Inr p \<Longrightarrow>
      length (output_of e (job_at (heap w ! p) (su_evs su) t)) \<le> L"
  shows "case found_job w ns (get_JobId req) of
      Inl e \<Rightarrow> \<exists>w'. client_GetJob cc req w = Some (Ret (Inl e, w'))
    | Inr p \<Rightarrow> \<exists>pb w'. client_GetJob cc req w = Some (Ret (Inr \<lparr>getresp_Job = Some pb\<rparr>, w')) \<and>
        service_GetJob (su_ts_new su) (su_evs su) ctx req w = Some (Ret (Inr pb, w'))"
proof (cases "found_job w ns (get_JobId req)")
  case (Inl e)
  obtain c m where e: "e = Status c m" using found_job_status [OF Inl] by blast
  obtain w' where "service_GetJob (su_ts_new su) (su_evs su) ctx req w = Some (Ret (Inl e, w'))"
    using service_GetJob_found(1) [OF assms(1,2,6) Inl] by blast
  with calls_carried(1) [OF assms(3,4), of w] Inl show ?thesis
    by (simp add: carried_def e connected_status [OF assms(3)])
next
  case (Inr p)
  have "\<forall>e t. length (output_of e (job_at (heap w ! p) (su_evs su) t)) \<le> L"
    using assms(7) [OF Inr] by blast
  then obtain pb w' where "service_GetJob (su_ts_new su) (su_evs su) ctx req w = Some (Ret (Inr pb, w'))"
    using service_GetJob_found(2) [OF assms(1,2,6) Inr] by blast
  with calls_carried(1) [OF assms(3,4), of w] Inr assms(5) show ?thesis
    by (simp add: carried_def)
qed

text \<open>C6: The get command from end to end, for a client whose certificate names \<open>ns\<close>: it always ends, if
  the output of the job is bounded. For an ID that is not in that namespace, or a worker that is shut
  down, it prints nothing and its error is the status of the lookup. Otherwise it prints the job of
  that namespace and ID, without output, then what it was asked for of each output, trimmed: of
  stdout what it was at some moment of the call, and once an exit code is shown, all of it for ever.\<close>

theorem get_over_the_wire:
  assumes "worker_inv w" and "namespaceFromContext ctx = Ret (Inr ns)" and "i \<noteq> []"
    and "connected su ctx wire sendable cc"
    and "req = \<lparr>get_JobId = i, get_IncludeStdout = out, get_IncludeStderr = err\<rparr>"
    and "sendable (MGetJobRequest req)"
    and "\<And>pb w'. service_GetJob (su_ts_new su) (su_evs su) ctx req w = Some (Ret (Inr pb, w')) \<Longrightarrow>
      sendable (MGetJobResponse \<lparr>getresp_Job = Some pb\<rparr>)"
    and "\<And>p e t. found_job w ns i = Inr p \<Longrightarrow>
      length (output_of e (job_at (heap w ! p) (su_evs su) t)) \<le> L \<and> timeline_ok (heap w ! p) (su_evs su)"
    and "answers (client_GetJob cc) w getresp_Job (ask cc)"
  shows "case found_job w ns i of
      Inl e \<Rightarrow> getCmd (Inr cc) ask fmt out err i = Ret (Some (Wrapf ''getting job'' e), [])
    | Inr p \<Rightarrow> \<exists>pb t1 t2.
        getCmd (Inr cc) ask fmt out err i = Ret (None,
          fmt (pb\<lparr>pb_Stdout := [], pb_Stderr := []\<rparr>) @
          (if out then bytes_of ''stdout: '' @ TrimSpace (stdout (job_at (heap w ! p) (su_evs su) t1)) @ [10] else []) @
          (if err then bytes_of ''stderr: '' @ TrimSpace (stderr (job_at (heap w ! p) (su_evs su) t2)) @ [10] else [])) \<and>
        Namespace (heap w ! p) = ns \<and> pb_Id pb = i \<and>
        pb_Command pb = Command (heap w ! p) # Args (heap w ! p) \<and>
        (pb_ExitCode pb \<noteq> None \<longrightarrow> (\<forall>t.
           stdout (job_at (heap w ! p) (su_evs su) t1) = stdout (job_at (heap w ! p) (su_evs su) t) \<and>
           stderr (job_at (heap w ! p) (su_evs su) t2) = stderr (job_at (heap w ! p) (su_evs su) t) \<and>
           pb_ExitCode pb = map_option word_of_int (exitCode (job_at (heap w ! p) (su_evs su) t))))"
proof -
  note req_def = assms(5)
  have i: "get_JobId req = i" by (simp add: req_def)
  have nil: "get_JobId req \<noteq> []" using assms(3) i by simp
  have call: "case found_job w ns i of
      Inl e \<Rightarrow> \<exists>w'. client_GetJob cc req w = Some (Ret (Inl e, w'))
    | Inr p \<Rightarrow> \<exists>pb w'. client_GetJob cc req w = Some (Ret (Inr \<lparr>getresp_Job = Some pb\<rparr>, w')) \<and>
        service_GetJob (su_ts_new su) (su_evs su) ctx req w = Some (Ret (Inr pb, w'))"
    unfolding i [symmetric]
    by (rule get_carried [where L = L, OF assms(1,2,4,6) _ nil]) (use assms(7,8) i in auto)
  show ?thesis
  proof (cases "found_job w ns i")
    case (Inl e)
    with call obtain w' where "client_GetJob cc req w = Some (Ret (Inl e, w'))" by auto
    from answersD [OF assms(9) this] Inl show ?thesis by (simp add: getCmd_def req_def Let_def)
  next
    case (Inr p)
    with call obtain pb w' where c: "client_GetJob cc req w = Some (Ret (Inr \<lparr>getresp_Job = Some pb\<rparr>, w'))"
      and s: "service_GetJob (su_ts_new su) (su_evs su) ctx req w = Some (Ret (Inr pb, w'))" by auto
    have l: "lookup_job w ns i = Some p" using found_job_lookup [OF Inr] .
    have tl: "timeline_ok (heap w ! p) (su_evs su)" using assms(8) [OF Inr] by blast
    note p = service_GetJob_here(1,2) [OF assms(1) s assms(2), unfolded i, OF l]
    obtain t1 t2 where
      pb: "pb = \<lparr>pb_Id = i, pb_Command = Command (heap w ! p) # Args (heap w ! p),
       pb_RootFs = RootFS (heap w ! p), pb_CreatedAt = Some (su_ts_new su (CreatedAt (heap w ! p))),
       pb_Pid = word_of_int (PID (heap w ! p)),
       pb_Stdout = (if out then stdout (job_at (heap w ! p) (su_evs su) t1) else []),
       pb_Stderr = (if err then stderr (job_at (heap w ! p) (su_evs su) t2) else []),
       pb_ExitCode = map_option word_of_int (exitCode (job_at (heap w ! p) (su_evs su) 0))\<rparr>"
      using service_GetJob_here(3) [OF assms(1) s assms(2), unfolded i, OF l] p(2)
      unfolding req_def by auto
    have "getCmd (Inr cc) ask fmt out err i = Ret (None,
          fmt (pb\<lparr>pb_Stdout := [], pb_Stderr := []\<rparr>) @
          (if out then bytes_of ''stdout: '' @ TrimSpace (stdout (job_at (heap w ! p) (su_evs su) t1)) @ [10] else []) @
          (if err then bytes_of ''stderr: '' @ TrimSpace (stderr (job_at (heap w ! p) (su_evs su) t2)) @ [10] else []))"
      using answersD [OF assms(9) c] by (simp add: getCmd_def req_def print_job_def Let_def pb)
    moreover have "pb_Id pb = i" "pb_Command pb = Command (heap w ! p) # Args (heap w ! p)"
      "pb_ExitCode pb = map_option word_of_int (exitCode (job_at (heap w ! p) (su_evs su) 0))"
      by (simp_all add: pb)
    ultimately show ?thesis
      using p job_at_frozen [OF tl] unfolding Inr sum.case by (intro exI [of _ pb] exI [of _ t1] exI [of _ t2]) auto
  qed
qed

lemma trim_nothing: "TrimSpace [] = []"
proof -
  have "space_at utf8_spaces [] = 0" "space_at (map rev utf8_spaces) [] = 0"
    by (simp_all add: space_at_def utf8_spaces_def)
  then show ?thesis by (simp add: TrimSpace_def trim_start.simps)
qed

text \<open>The calls of the connection of the examples, as what their client gets.\<close>

definition asked :: "('req \<Rightarrow> ('resp, 'w) call) \<Rightarrow> 'w \<Rightarrow> ('resp \<Rightarrow> 'a) \<Rightarrow> 'req \<Rightarrow> go_error + 'a" where
  "asked client w f req = (case client req w of Some (Ret (r, w')) \<Rightarrow> map_sum id f r | _ \<Rightarrow> Inl EOF)"

lemma asked_answers: "answers client w f (asked client w f)"
  by (simp add: answers_def asked_def)

lemma quiet_at: "job_at j (\<lambda>_. []) t = j"
  by (induction t) (simp_all add: job_after_def)

theorem get_over_the_wire_witness:
  "getCmd (Inr (loopback (NewJobServiceServer quiet) service_ctx []))
      (\<lambda>c. asked (client_GetJob c) service_worker getresp_Job) (\<lambda>j :: int pb_Job. [1]) True False ''i'' =
     Ret (None, [1] @ bytes_of ''stdout: '' @ [10])"
proof -
  let ?ask = "\<lambda>c. asked (client_GetJob c) service_worker getresp_Job"
  have ns: "namespaceFromContext service_ctx = Ret (Inr ''ns'')" by (simp add: namespaceFromContext_def)
  have f: "found_job service_worker ''ns'' ''i'' = Inr 0"
    by (simp add: found_job_def lookup_job_def job_entry_def)
  have l: "length (output_of e (job_at (heap service_worker ! p) (su_evs quiet) t)) \<le> 0 \<and>
      timeline_ok (heap service_worker ! p) (su_evs quiet)"
    if "found_job service_worker ''ns'' ''i'' = Inr p" for p e t
    using that f by (simp add: quiet_at output_of_def newJob_def timeline_ok_def)
  have o: "stdout (job_at (newJob 0 ''ns'' ''i'' ''echo'' [''hi'']) (\<lambda>_. []) t) = []" for t
    by (simp add: quiet_at newJob_def)
  show ?thesis
    using get_over_the_wire [where ask = ?ask and fmt = "\<lambda>j :: int pb_Job. [1]" and i = "''i''" and out = True
        and err = False and L = 0, OF service_worker_inv ns _ loopback_connected refl TrueI TrueI l asked_answers]
    by (auto simp: f o trim_nothing)
qed

section \<open>stop\<close>

lemma service_StopJob_early:
  assumes "worker_inv w" and "namespaceFromContext ctx = Ret (Inr ns)" and "stop_JobId req \<noteq> []"
  shows "found_job w ns (stop_JobId req) = Inl e \<Longrightarrow>
      \<exists>w'. service_StopJob ts_new es0 es1 es2 evs ctx_err prefer_ctx ctx req w = Some (Ret (Inl e, w')) \<and> heap w' = heap w"
    and "found_job w ns (stop_JobId req) = Inr p \<Longrightarrow> exitCode (job_after (heap w ! p) es0) \<noteq> None \<Longrightarrow>
      \<exists>w'. service_StopJob ts_new es0 es1 es2 evs ctx_err prefer_ctx ctx req w =
        Some (Ret (Inl (Status FailedPrecondition ''job already stopped''), w')) \<and> heap w' = heap w"
  using getJob_eq [OF assms(1), of ctx "stop_JobId req"] assms(2,3)
  by (auto simp: service_StopJob_def ExitCode_def Let_def)

lemma getJob_of_found:
  assumes "worker_inv w" and "namespaceFromContext ctx = Ret (Inr ns)" and "i \<noteq> []" and "found_job w ns i = Inr p"
  shows "\<exists>w'. getJob ctx i w = Ret (Inr p, w')" "Namespace (heap w ! p) = ns"
proof -
  show g: "\<exists>w'. getJob ctx i w = Ret (Inr p, w')"
    using getJob_eq [OF assms(1), of ctx i] assms(2-4) by simp
  then obtain w' where "getJob ctx i w = Ret (Inr p, w')" by blast
  from getJob_found [OF assms(1) this] show "Namespace (heap w ! p) = ns" using assms(2) by auto
qed

text \<open>What a client's call of StopJob comes to, when it returns, by what the worker has.\<close>

lemma stop_carried:
  assumes "worker_inv w" and "namespaceFromContext ctx = Ret (Inr ns)" and "stop_JobId req \<noteq> []"
    and "connected su ctx wire sendable cc" and "sendable (MStopJobRequest req)"
    and "client_StopJob cc req w = Some (Ret (r, w'))"
  shows "found_job w ns (stop_JobId req) = Inl e \<Longrightarrow> r = Inl e \<and> heap w' = heap w"
    and "found_job w ns (stop_JobId req) = Inr p \<Longrightarrow>
      exitCode (job_after (heap w ! p) (su_before_check su)) \<noteq> None \<Longrightarrow>
      r = Inl (Status FailedPrecondition ''job already stopped'') \<and> heap w' = heap w"
    and "found_job w ns (stop_JobId req) = Inr p \<Longrightarrow>
      exitCode (job_after (heap w ! p) (su_before_check su)) = None \<Longrightarrow>
      \<exists>v. heap v = (heap w)[p := Stop_request (stop_Force req) (heap w ! p)] \<and>
        ((\<exists>pb. (sendable (MStopJobResponse \<lparr>stopresp_Job = Some pb\<rparr>) \<longrightarrow>
              r = Inr \<lparr>stopresp_Job = Some pb\<rparr> \<and> w' = v) \<and>
            pb_ExitCode pb \<noteq> None \<and> pb_Id pb = stop_JobId req \<and> pb_Stdout pb = [] \<and> pb_Stderr pb = []) \<or>
         (\<exists>e. r = Inl (wire (stop_status e)) \<and> w' = v \<and> su_stop_err su = Some e))"
proof -
  let ?svc = "service_StopJob (su_ts_new su) (su_before_check su) (su_before_stop su) (su_before_select su)
    (su_evs su) (su_stop_err su) (su_prefer_ctx su) ctx req w"
  note c = calls_carried(3) [OF assms(4,5), of w]
  note status = connected_status [OF assms(4)]
  have err: "r = Inl (wire e) \<and> w' = v" if "?svc = Some (Ret (Inl e, v))" for e v
    using c that assms(6) by (simp add: carried_def)
  show "r = Inl e \<and> heap w' = heap w" if "found_job w ns (stop_JobId req) = Inl e"
    using service_StopJob_early(1) [OF assms(1-3) that] err found_job_status [OF that] status by metis
  show "r = Inl (Status FailedPrecondition ''job already stopped'') \<and> heap w' = heap w"
    if "found_job w ns (stop_JobId req) = Inr p" "exitCode (job_after (heap w ! p) (su_before_check su)) \<noteq> None"
    using service_StopJob_early(2) [OF assms(1-3) that] err status by metis
  show "\<exists>v. heap v = (heap w)[p := Stop_request (stop_Force req) (heap w ! p)] \<and>
        ((\<exists>pb. (sendable (MStopJobResponse \<lparr>stopresp_Job = Some pb\<rparr>) \<longrightarrow>
              r = Inr \<lparr>stopresp_Job = Some pb\<rparr> \<and> w' = v) \<and>
            pb_ExitCode pb \<noteq> None \<and> pb_Id pb = stop_JobId req \<and> pb_Stdout pb = [] \<and> pb_Stderr pb = []) \<or>
         (\<exists>e. r = Inl (wire (stop_status e)) \<and> w' = v \<and> su_stop_err su = Some e))"
    if f: "found_job w ns (stop_JobId req) = Inr p" "exitCode (job_after (heap w ! p) (su_before_check su)) = None"
  proof -
    obtain w1 where g: "getJob ctx (stop_JobId req) w = Ret (Inr p, w1)"
      using getJob_of_found(1) [OF assms(1-3) f(1)] by blast
    obtain res where res: "?svc = Some res" "res \<noteq> Block"
      using c assms(6) by (cases ?svc) (auto simp: carried_def split: go.splits)
    from service_StopJob_running [OF assms(1) g f(2) res(1)] res c assms(6) show ?thesis
      by (fastforce simp: carried_def)
  qed
qed

text \<open>C8: The stop command from end to end, for a client whose certificate names \<open>ns\<close>, when its call
  returns. An ID that is not in that namespace, or a worker that is shut down, is its error and no job
  is touched; so is a job that has completed. Otherwise exactly the job of that namespace and ID is
  asked to stop, by force if that was the flag, and the command prints the job with its exit code, or
  its error says that the three seconds ran out, or how else the call's context ended.\<close>

theorem stop_over_the_wire:
  assumes "worker_inv w" and "namespaceFromContext ctx = Ret (Inr ns)" and "i \<noteq> []"
    and "connected su ctx wire sendable cc"
    and "sendable (MStopJobRequest (stop_request force i))"
    and "\<And>pb. pb_Id pb = i \<Longrightarrow> pb_Stdout pb = [] \<Longrightarrow> pb_Stderr pb = [] \<Longrightarrow>
      sendable (MStopJobResponse \<lparr>stopresp_Job = Some pb\<rparr>)"
    and "client_StopJob cc (stop_request force i) w = Some (Ret (r, w'))"
    and "answers (client_StopJob cc) w (the \<circ> stopresp_Job) (ask cc)"
    and "cmd = stopCmd (Inr cc) (\<lambda>c q. StopAnswered (ask c q)) fmt force i"
  shows "case found_job w ns i of
      Inl e \<Rightarrow> cmd = (Some (Wrapf ''stopping job'' e), []) \<and> heap w' = heap w
    | Inr p \<Rightarrow> Namespace (heap w ! p) = ns \<and>
        (if exitCode (job_after (heap w ! p) (su_before_check su)) \<noteq> None
         then cmd = (Some (Wrapf ''stopping job'' (Status FailedPrecondition ''job already stopped'')), []) \<and>
           heap w' = heap w
         else heap w' = (heap w)[p := Stop_request force (heap w ! p)] \<and>
           ((\<exists>pb. cmd = (None, fmt pb @ [10]) \<and> pb_Id pb = i \<and> pb_ExitCode pb \<noteq> None \<and>
               pb_Stdout pb = [] \<and> pb_Stderr pb = []) \<or>
            (\<exists>e. su_stop_err su = Some e \<and> cmd = (Some (Wrapf ''stopping job''
               (if e = CtxDeadlineExceeded
                then Status StatusDeadlineExceeded ''failed stopping job within 3 seconds'' else wire e)), []))))"
proof -
  have i: "stop_JobId (stop_request force i) = i" "stop_Force (stop_request force i) = force"
    by (simp_all add: stop_request_def)
  have nil: "stop_JobId (stop_request force i) \<noteq> []" using assms(3) by (simp add: i)
  note c = stop_carried [OF assms(1,2) nil assms(4,5,7), unfolded i]
  have cmd: "cmd = (case r of Inl e \<Rightarrow> (Some (Wrapf ''stopping job'' e), []) | Inr x \<Rightarrow> (None, fmt (the (stopresp_Job x)) @ [10]))"
    using answersD [OF assms(8,7)] assms(9) by (simp add: stopCmd_def split: sum.split)
  show ?thesis
  proof (cases "found_job w ns i")
    case (Inl e)
    with c(1) [OF Inl] cmd show ?thesis by simp
  next
    case (Inr p)
    note ns = getJob_of_found(2) [OF assms(1-3) Inr]
    show ?thesis
    proof (cases "exitCode (job_after (heap w ! p) (su_before_check su)) = None")
      case False
      with c(2) [OF Inr False] cmd Inr ns show ?thesis by simp
    next
      case True
      from c(3) [OF Inr True] assms(6) Inr True ns cmd connected_status [OF assms(4)] show ?thesis
        by (fastforce simp: stop_status_def)
    qed
  qed
qed

theorem stop_over_the_wire_witness:
  "stopCmd (Inr (loopback (NewJobServiceServer quiet) service_ctx []))
      (\<lambda>c q. StopAnswered (asked (client_StopJob c) service_worker (the \<circ> stopresp_Job) q))
      (\<lambda>j :: int pb_Job. [1]) True ''i'' = (None, [1, 10])"
proof -
  let ?cc = "loopback (NewJobServiceServer quiet) service_ctx []"
  let ?ask = "\<lambda>c. asked (client_StopJob c) service_worker (the \<circ> stopresp_Job)"
  have ns: "namespaceFromContext service_ctx = Ret (Inr ''ns'')" by (simp add: namespaceFromContext_def)
  have f: "found_job service_worker ''ns'' ''i'' = Inr 0"
    by (simp add: found_job_def lookup_job_def job_entry_def)
  obtain v where g: "getJob service_ctx ''i'' service_worker = Ret (Inr 0, v)" "heap v = heap service_worker"
    using getJob_eq [OF service_worker_inv, of service_ctx "''i''"] ns f by simp
  have "\<exists>pb w'. service_StopJob id [] [] [EvDone 0] (\<lambda>_. []) None False service_ctx (stop_request True ''i'')
      service_worker = Some (Ret (Inr pb, w'))"
    using g by (simp add: service_StopJob_def stop_request_def ExitCode_def Let_def job_after_def newJob_def
        Stop_request_def Stop_wait_def markDone_def toProtoJob_def optional_output_def no_chans_def)
  then obtain pb w' where c: "client_StopJob ?cc (stop_request True ''i'') service_worker =
      Some (Ret (Inr \<lparr>stopresp_Job = Some pb\<rparr>, w'))"
    using calls_carried(3) [where su = quiet and q = "stop_request True ''i''" and w = service_worker,
        OF loopback_connected TrueI, of service_ctx "[]"]
    by (auto simp: carried_def)
  from stop_over_the_wire [where ask = ?ask and fmt = "\<lambda>j :: int pb_Job. [1]" and i = "''i''",
      OF service_worker_inv ns _ loopback_connected TrueI TrueI c asked_answers refl]
  show ?thesis unfolding f sum.case by (auto simp: job_after_def newJob_def)
qed

section \<open>tail\<close>

text \<open>The results of the next calls of \<open>RecvMsg\<close> on a stream.\<close>

fun receives :: "('ts, 'w, 'st) ClientConn \<Rightarrow> 'st \<Rightarrow> (go_error + 'ts message) list \<Rightarrow> bool" where
  "receives cc st [] = True"
| "receives cc st (r # rs) =
     (case cc_RecvMsg cc st (MStreamJobOutputResponse StreamJobOutputResponse_zero) of
        (r', st') \<Rightarrow> r' = r \<and> receives cc st' rs)"

text \<open>
  The documented behaviour of a server stream: the client's request is what the registered handler
  receives; when the handler ends with an error before it has sent anything, the client receives its
  status; when it has gone on to end well, as the system that reached \<open>s\<close>, the client receives
  what was passed to \<open>Send\<close>, in order, and then the end of the stream.
\<close>

definition stream_transport ::
  "('ts, 'w) ServiceDesc \<Rightarrow> ('ts, 'w) JobServiceServer \<Rightarrow> rpc_ctx \<Rightarrow> (go_error \<Rightarrow> go_error) \<Rightarrow>
     ('ts, 'w, 'st) ClientConn \<Rightarrow> StreamJobOutputRequest \<Rightarrow> 'w \<Rightarrow> stream_sys \<Rightarrow> bool" where
  "stream_transport desc srv ctx wire cc req w s \<longleftrightarrow>
     (\<forall>code msg. wire (Status code msg) = Status code msg) \<and>
     (\<forall>sd \<in> set (Streams desc). \<exists>st0 st1 st2 dec.
        cc_NewStream cc sd (full_method desc (StreamName sd)) = Inr st0 \<and>
        cc_SendMsg cc st0 (MStreamJobOutputRequest req) = (None, st1) \<and>
        cc_CloseSend cc st1 = (None, st2) \<and>
        decodes dec (MStreamJobOutputRequest req) \<and>
        (case sd_Handler sd srv \<lparr>strm_Context = ctx, strm_RecvMsg = dec\<rparr> w of
           Some (Ret (Inl e, w')) \<Rightarrow> receives cc st2 [Inl (wire e)]
         | Some (Ret (Inr s0, w')) \<Rightarrow>
             (stream_step req)\<^sup>*\<^sup>* s0 s \<and> ss_main s = MReturned None \<longrightarrow>
             receives cc st2 (map (Inr \<circ> server_Send) (ss_sent s) @ [Inl EOF])
         | _ \<Rightarrow> True))"

definition connected_stream ::
  "'ts surroundings \<Rightarrow> rpc_ctx \<Rightarrow> (go_error \<Rightarrow> go_error) \<Rightarrow> ('ts, worker, 'st) ClientConn \<Rightarrow>
     StreamJobOutputRequest \<Rightarrow> worker \<Rightarrow> stream_sys \<Rightarrow> bool" where
  "connected_stream su ctx wire cc req w s \<longleftrightarrow>
     (case serve_registration su of (desc, srv) \<Rightarrow> stream_transport desc srv ctx wire cc req w s)"

lemma connected_stream_iff:
  "connected_stream su ctx wire cc req w s \<longleftrightarrow>
     stream_transport JobService_ServiceDesc (NewJobServiceServer su) ctx wire cc req w s"
  by (simp add: connected_stream_def serve_registration_def RegisterJobServiceServer_def)

text \<open>What the client's \<open>Recv\<close> returns, up to a number of calls.\<close>

fun recv_list :: "('ts, 'w, 'st) ClientConn \<Rightarrow> nat \<Rightarrow> 'st \<Rightarrow> (go_error + StreamJobOutputResponse) list" where
  "recv_list cc 0 st = []"
| "recv_list cc (Suc n) st =
     (case client_Recv cc st of Ret (r, st') \<Rightarrow> r # recv_list cc n st' | _ \<Rightarrow> [])"

lemma recv_messages:
  assumes "receives cc st (map (Inr \<circ> server_Send) ms @ rs)" and "length ms \<le> n"
  shows "\<exists>rest. recv_list cc n st = map Inr ms @ rest"
  using assms
proof (induction ms arbitrary: st n)
  case (Cons m ms)
  obtain st' where st': "cc_RecvMsg cc st (MStreamJobOutputResponse StreamJobOutputResponse_zero) = (Inr (server_Send m), st')"
    "receives cc st' (map (Inr \<circ> server_Send) ms @ rs)" using Cons.prems(1) by (auto simp: comp_def split: prod.splits)
  obtain k where k: "n = Suc k" "length ms \<le> k" using Cons.prems(2) by (cases n) auto
  from Cons.IH [OF st'(2) k(2)] st'(1) k(1) show ?case
    by (auto simp: client_Recv_def server_Send_def as_StreamJobOutputResponse_def)
qed simp

lemma recv_error:
  assumes "receives cc st [Inl e]" and "0 < n"
  shows "\<exists>rest. recv_list cc n st = Inl e # rest"
  using assms by (cases n) (auto simp: client_Recv_def split: prod.splits)

text \<open>Opening the stream: the client gets a stream of what the service's handler sends.\<close>

lemma stream_call:
  assumes "connected_stream su ctx wire cc req w s"
  shows "\<exists>st. client_StreamJobOutput cc req = Ret (Inr st) \<and>
    (case service_StreamJobOutput ctx req (su_chans su) w of
       Ret (Inl e, w') \<Rightarrow> receives cc st [Inl (wire e)]
     | Ret (Inr s0, w') \<Rightarrow>
         (stream_step req)\<^sup>*\<^sup>* s0 s \<and> ss_main s = MReturned None \<longrightarrow>
         receives cc st (map (Inr \<circ> server_Send) (ss_sent s) @ [Inl EOF])
     | _ \<Rightarrow> True)"
proof -
  have "JobService_StreamJobOutput_Handler (NewJobServiceServer su) \<lparr>strm_Context = ctx, strm_RecvMsg = dec\<rparr> w =
      Some (service_StreamJobOutput ctx req (su_chans su) w)"
    if "decodes dec (MStreamJobOutputRequest req)" for dec
    using that by (simp add: JobService_StreamJobOutput_Handler_def decodes_def message_defs asserted_def
        NewJobServiceServer_def)
  with assms show ?thesis
    by (fastforce simp: connected_stream_iff stream_transport_def JobService_ServiceDesc_def full_method_def client_StreamJobOutput_def)
qed

text \<open>What is received after the message that ends the receiving goroutine is not looked at.\<close>

lemma tail_loop_decided: "tail_loop rs printed = (out, Some e) \<Longrightarrow> tail_loop (rs @ rest) printed = (out, Some e)"
  by (induction rs printed rule: tail_loop.induct) (auto split: option.splits StreamResponse.splits)

lemma tail_ended_well:
  assumes "reach (stream_init req) (stream_step req) s" and "ss_main s = MReturned None"
  shows "tail_loop (map Inr (ss_sent s) @ rest) [] = tail_loop (map Inr (ss_sent s)) []"
proof -
  obtain ms c where ms: "ss_sent s = ms @ [completed_message c]" "no_completion ms"
    using stream_ended [OF streams.inv_reach [OF assms(1)] assms(2)] by blast
  from tail_loop_completed [OF ms(2), of c "[]"] obtain out where
    "tail_loop (map Inr (ss_sent s)) [] = (out, Some None)" by (auto simp: ms(1))
  with tail_loop_decided [OF this, of rest] show ?thesis by simp
qed

lemma tail_of_received:
  assumes "tail_request noPast onlyStderr both i = Inr req"
    and "reach (stream_init req) (stream_step req) s" and "ss_main s = MReturned None"
    and "receives cc st (map (Inr \<circ> server_Send) (ss_sent s) @ [Inl EOF])" and "length (ss_sent s) < n"
  shows "tailCmd (Inr cc) (\<lambda>_ _. Inr (recv_list cc n st)) noPast onlyStderr both False False i =
    tailCmd (Inr cc) (\<lambda>_ _. Inr (map Inr (ss_sent s))) noPast onlyStderr both False False i"
proof -
  obtain rest where "recv_list cc n st = map Inr (ss_sent s) @ rest"
    using recv_messages [OF assms(4)] assms(5) by (meson less_imp_le)
  then show ?thesis
    using tail_ended_well [OF assms(2,3)] assms(1) by (simp add: tailCmd_def)
qed

lemma opened_stream:
  assumes "worker_inv w" and "service_StreamJobOutput ctx req cs w = Ret (Inr s, w')"
    and "\<And>p. p < length (heap w) \<Longrightarrow> {0, 1} \<inter> set (listener_list (heap w ! p)) = {}"
    and "namespaceFromContext ctx = Ret (Inr ns)"
  shows "Namespace (ss_job s) = ns" "ID (ss_job s) = stream_JobId req" "stream_init req s"
proof -
  obtain q w1 where q: "getJob ctx (stream_JobId req) w = Ret (q, w1)"
    using assms(2) by (auto simp: service_StreamJobOutput_def go_bind_eq_Ret)
  with assms(2) obtain p where g: "getJob ctx (stream_JobId req) w = Ret (Inr p, w1)"
    "s = stream_start req (heap w1 ! p) cs"
    by (cases q) (auto simp: service_StreamJobOutput_def)
  have h: "heap w1 = heap w" by (rule getJob_same(1) [OF assms(1) g(1)])
  from getJob_found [OF assms(1) g(1)] assms(4) have
    "Namespace (heap w ! p) = ns" "p < length (heap w)" "ID (heap w ! p) = stream_JobId req" "job_wf (heap w ! p)"
    by auto
  with assms(3) [of p] show "Namespace (ss_job s) = ns" "ID (ss_job s) = stream_JobId req" "stream_init req s"
    by (auto simp: g(2) h stream_start_def stream_init_def)
qed

text \<open>What opening a stream comes to, by what the worker has.\<close>

lemma stream_of_found:
  assumes "worker_inv w" and "namespaceFromContext ctx = Ret (Inr ns)" and "stream_JobId req \<noteq> []"
    and "\<forall>p < length (heap w). {0, 1} \<inter> set (listener_list (heap w ! p)) = {}"
  shows "\<exists>w'. service_StreamJobOutput ctx req cs w =
      Ret (map_sum id (\<lambda>p. stream_start req (heap w ! p) cs) (found_job w ns (stream_JobId req)), w')"
    and "found_job w ns (stream_JobId req) = Inr p \<Longrightarrow> Namespace (heap w ! p) = ns \<and>
      ID (heap w ! p) = stream_JobId req \<and> stream_init req (stream_start req (heap w ! p) cs)"
proof -
  obtain w' where "getJob ctx (stream_JobId req) w = Ret (found_job w ns (stream_JobId req), w')" "heap w' = heap w"
    using getJob_eq [OF assms(1), of ctx "stream_JobId req"] assms(2,3) by simp
  then have svc: "service_StreamJobOutput ctx req cs w =
      Ret (map_sum id (\<lambda>p. stream_start req (heap w ! p) cs) (found_job w ns (stream_JobId req)), w')"
    by (simp add: service_StreamJobOutput_def split: sum.split)
  then show "\<exists>w'. service_StreamJobOutput ctx req cs w =
      Ret (map_sum id (\<lambda>p. stream_start req (heap w ! p) cs) (found_job w ns (stream_JobId req)), w')" by blast
  show "Namespace (heap w ! p) = ns \<and> ID (heap w ! p) = stream_JobId req \<and>
      stream_init req (stream_start req (heap w ! p) cs)" if "found_job w ns (stream_JobId req) = Inr p"
  proof -
    have own: "service_StreamJobOutput ctx req cs w = Ret (Inr (stream_start req (heap w ! p) cs), w')"
      using svc that by simp
    show ?thesis
      using opened_stream [OF assms(1) own assms(4) [rule_format] assms(2)] by (simp add: stream_start_def)
  qed
qed

text \<open>A run of the handler that ends well, as its client gets it.\<close>

lemma tail_of_received_run:
  assumes "tail_request noPast onlyStderr both i = Inr req"
    and "stream_init req s0" and "stream_run (\<not> noPast) as s0 = Some s" and "ss_main s = MReturned None"
    and "(stream_step req)\<^sup>*\<^sup>* s0 s \<and> ss_main s = MReturned None \<longrightarrow>
      receives cc st (map (Inr \<circ> server_Send) (ss_sent s) @ [Inl EOF])" and "length (ss_sent s) < n"
  shows "tailCmd (Inr cc) (\<lambda>_ _. Inr (recv_list cc n st)) noPast onlyStderr both False False i =
      tailCmd (Inr cc) (\<lambda>_ _. Inr (map Inr (ss_sent s))) noPast onlyStderr both False False i"
    and "length (output_of e (ss_job s0)) \<le> opened_len (\<not> noPast) e as s0"
proof -
  have steps: "(stream_step req)\<^sup>*\<^sup>* s0 s"
    using stream_actions.run_steps [of req as s0 s] assms(3) tail_request_wants(2) [OF assms(1)] by simp
  have "reach (stream_init req) (stream_step req) s"
    by (rule reach_steps [OF steps], rule reach_init, rule assms(2))
  with tail_of_received [OF assms(1) _ assms(4) _ assms(6), of cc st] steps assms(4,5) show
    "tailCmd (Inr cc) (\<lambda>_ _. Inr (recv_list cc n st)) noPast onlyStderr both False False i =
      tailCmd (Inr cc) (\<lambda>_ _. Inr (map Inr (ss_sent s))) noPast onlyStderr both False False i" by simp
  show "length (output_of e (ss_job s0)) \<le> opened_len (\<not> noPast) e as s0"
    using prefix_length_le [OF opened_len_bounds(1) [OF assms(3), of e]] opened_len_bounds(2) [OF assms(3), of e]
    by simp
qed

text \<open>C7: The tail command from end to end, for a client whose certificate names \<open>ns\<close>. The stream always
  opens; an ID that is not in that namespace, or a worker that is shut down, shows when the first
  message is received: nothing is printed and the error is the status of the lookup. Otherwise the
  handler runs on the job of that namespace and ID, and whatever run of it ends well, the command ends
  without error and prints what was sent of the output the flags select, or an interleaving of what was
  sent of the two. What is sent of an output is a prefix of all of it, or with \<open>--no-past\<close> of what follows
  its first \<open>n\<close> bytes, and not shorter if at most one chunk came after them; \<open>n\<close> is the output's length
  when, in that run, its goroutine was about to take its first step, and no less than its length when
  the handler was called.\<close>

theorem tail_over_the_wire:
  assumes "worker_inv w" and "namespaceFromContext ctx = Ret (Inr ns)" and "i \<noteq> []"
    and "\<And>p. p < length (heap w) \<Longrightarrow> {0, 1} \<inter> set (listener_list (heap w ! p)) = {}"
    and "tail_request noPast onlyStderr both i = Inr req"
    and "connected_stream su ctx wire cc req w s"
    and "cmd = tailCmd (Inr cc)
      (\<lambda>c q. case client_StreamJobOutput c q of
         Ret (Inl e) \<Rightarrow> Inl e | Ret (Inr st) \<Rightarrow> Inr (recv_list c n st) | _ \<Rightarrow> Inl EOF)
      noPast onlyStderr both False False i"
    and "length (ss_sent s) < n"
  shows "case found_job w ns i of
      Inl e \<Rightarrow> cmd = (Some (Some (Wrapf ''reading stream'' e)), [])
    | Inr p \<Rightarrow> Namespace (heap w ! p) = ns \<and> ID (heap w ! p) = i \<and>
        (\<forall>as. stream_run (\<not> noPast) as (stream_start req (heap w ! p) (su_chans su)) = Some s \<and>
           ss_main s = MReturned None \<longrightarrow>
         (\<exists>out. cmd = (Some None, out) \<and>
            out \<in> shuffles (received False (ss_sent s)) (received True (ss_sent s)) \<and>
            (\<not> both \<longrightarrow> out = received onlyStderr (ss_sent s))) \<and>
         (\<forall>e n. (both \<or> e = onlyStderr) \<and>
             n = opened_len (\<not> noPast) e as (stream_start req (heap w ! p) (su_chans su)) \<longrightarrow>
            length (output_of e (heap w ! p)) \<le> n \<and>
            prefix (received e (ss_sent s)) (asked_output (\<not> noPast) n (output_of e (ss_job s))) \<and>
            (length (output_of e (ss_job s)) \<le> n + chunkSize \<longrightarrow>
               received e (ss_sent s) = asked_output (\<not> noPast) n (output_of e (ss_job s)))))"
proof -
  have req: "stream_JobId req = i"
    using assms(5) by (auto simp: tail_request_def Let_def split: if_splits)
  have nil: "stream_JobId req \<noteq> []" and l: "\<forall>p < length (heap w). {0, 1} \<inter> set (listener_list (heap w ! p)) = {}"
    using assms(3,4) req by simp_all
  note found = stream_of_found [OF assms(1,2) nil l, unfolded req]
  obtain w' where svc: "service_StreamJobOutput ctx req (su_chans su) w =
      Ret (map_sum id (\<lambda>p. stream_start req (heap w ! p) (su_chans su)) (found_job w ns i), w')"
    using found(1) by blast
  obtain st where st: "client_StreamJobOutput cc req = Ret (Inr st)"
    and got: "case found_job w ns i of
       Inl e \<Rightarrow> receives cc st [Inl (wire e)]
     | Inr p \<Rightarrow>
         (stream_step req)\<^sup>*\<^sup>* (stream_start req (heap w ! p) (su_chans su)) s \<and> ss_main s = MReturned None \<longrightarrow>
         receives cc st (map (Inr \<circ> server_Send) (ss_sent s) @ [Inl EOF])"
    using stream_call [OF assms(6)] unfolding svc by (cases "found_job w ns i") auto
  have cmd: "cmd = tailCmd (Inr cc) (\<lambda>_ _. Inr (recv_list cc n st)) noPast onlyStderr both False False i"
    using assms(5) st by (simp add: assms(7) tailCmd_def)
  show ?thesis
  proof (cases "found_job w ns i")
    case (Inl e)
    with got found_job_status [OF Inl] assms(6) have "receives cc st [Inl e]"
      by (auto simp: connected_stream_iff stream_transport_def)
    then obtain rest where "recv_list cc n st = Inl e # rest"
      using recv_error [of cc st e n] assms(8) by auto
    with Inl assms(5) show ?thesis by (simp add: cmd tailCmd_def tail_select_def)
  next
    case (Inr p)
    note o = found(2) [OF Inr, of "su_chans su"]
    let ?s0 = "stream_start req (heap w ! p) (su_chans su)"
    have start: "stream_init req ?s0" using o by blast
    have given: "(stream_step req)\<^sup>*\<^sup>* ?s0 s \<and> ss_main s = MReturned None \<longrightarrow>
        receives cc st (map (Inr \<circ> server_Send) (ss_sent s) @ [Inl EOF])" using got Inr by simp
    have job: "ss_job ?s0 = heap w ! p" by (simp add: stream_start_def)
    note run = tail_of_received_run [OF assms(5) start _ _ given assms(8), unfolded job]
    show ?thesis
      unfolding Inr sum.case
      using o Inr run tail_of_run(1) [OF assms(5) start, of _ s cc] tail_of_run(2) [OF assms(5) start, of _ s]
      by (auto simp: cmd)
  qed
qed

text \<open>A worker with the job of the examples of the stream, asked for by a client without a unit.\<close>

abbreviation tail_worker :: worker where
  "tail_worker \<equiv> service_worker\<lparr>jobs := Some [([], [(''i'', Some 0)])], heap := [newJob 0 [] ''i'' ''c'' []]\<rparr>"

abbreviation tail_ctx :: rpc_ctx where
  "tail_ctx \<equiv> \<lparr>ctx_peer = Some (Some (TLSInfo [[]]))\<rparr>"

lemma tail_worker_inv: "worker_inv tail_worker"
  by (auto simp: worker_inv_def table_wf_def gomap_wf_def job_entry_def entry_ok_def newJob_def
      job_wf_def listener_list_def unlocked_mutex_def split: if_splits)

lemma loopback_receives: "receives (loopback srv ctx strm) rs rs"
  by (induction rs) (simp_all add: loopback_def)

lemma loopback_stream:
  assumes "case service_StreamJobOutput ctx req (su_chans su) w of
      Ret (Inl e, w') \<Rightarrow> strm = [Inl e]
    | Ret (Inr s0, w') \<Rightarrow> strm = map (Inr \<circ> server_Send) (ss_sent s) @ [Inl EOF]
    | _ \<Rightarrow> True"
  shows "connected_stream su ctx id
    (loopback (NewJobServiceServer su) ctx strm) req w s"
proof -
  have "decodes (\<lambda>t. Inr (MStreamJobOutputRequest req)) (MStreamJobOutputRequest req)"
    by (simp add: decodes_def)
  moreover have "cc_NewStream (loopback srv ctx strm) sd m = Inr []"
    "cc_SendMsg (loopback srv ctx strm) st x = (None, strm)"
    "cc_CloseSend (loopback srv ctx strm) st = (None, st)" for srv :: "('a, worker) JobServiceServer" and sd m st x
    by (simp_all add: loopback_def)
  moreover have "JobService_StreamJobOutput_Handler (NewJobServiceServer su)
      \<lparr>strm_Context = ctx, strm_RecvMsg = \<lambda>t. Inr (MStreamJobOutputRequest req)\<rparr> w =
      Some (service_StreamJobOutput ctx req (su_chans su) w)"
    by (simp add: JobService_StreamJobOutput_Handler_def message_defs asserted_def NewJobServiceServer_def)
  ultimately show ?thesis
    using assms loopback_receives [of "NewJobServiceServer su" ctx strm strm]
    unfolding connected_stream_iff stream_transport_def
    by (auto simp: JobService_ServiceDesc_def intro!: exI [of _ "\<lambda>t. Inr (MStreamJobOutputRequest req)"]
        split: go.splits sum.splits)
qed

theorem tail_over_the_wire_witness:
  "\<exists>strm. tailCmd (Inr (loopback (NewJobServiceServer quiet) tail_ctx strm))
      (\<lambda>c q. case client_StreamJobOutput c q of
         Ret (Inl e) \<Rightarrow> Inl e | Ret (Inr st) \<Rightarrow> Inr (recv_list c (length strm) st) | _ \<Rightarrow> Inl EOF)
      False False False False False ''i'' = (Some None, [7])"
proof -
  obtain as t where t: "stream_run True (AStream False # as) stdout_start = Some t" "ss_main t = MReturned None"
    "stdout (ss_job t) = [7]"
    using late_read_ends [of "[7]"] by blast
  define strm :: "(go_error + int message) list"
    where "strm = map (Inr \<circ> server_Send) (ss_sent t) @ [Inl EOF]"
  have ns: "namespaceFromContext tail_ctx = Ret (Inr [])" by (simp add: namespaceFromContext_def)
  have f: "found_job tail_worker [] ''i'' = Inr 0"
    by (simp add: found_job_def lookup_job_def job_entry_def)
  have r: "tail_request False False False ''i'' = Inr stdout_req" by (simp add: tail_request_def)
  have l: "{0, 1} \<inter> set (listener_list (heap tail_worker ! p)) = {}" if "p < length (heap tail_worker)" for p
    using that by (simp add: newJob_def listener_list_def)
  obtain w' where "service_StreamJobOutput tail_ctx stdout_req (su_chans quiet) tail_worker =
      Ret (Inr stdout_start, w')"
    using getJob_eq [OF tail_worker_inv, of tail_ctx "''i''"] ns f by (simp add: service_StreamJobOutput_def)
  then have tr: "connected_stream quiet tail_ctx id
      (loopback (NewJobServiceServer quiet) tail_ctx strm) stdout_req tail_worker t"
    by (intro loopback_stream) (simp add: strm_def)
  have n: "length (ss_sent t) < length strm" by (simp add: strm_def)
  have run: "stream_run (\<not> False) (AStream False # as)
      (stream_start stdout_req (heap tail_worker ! 0) (su_chans quiet)) = Some t"
    using t(1) by (simp del: run_actions.simps)
  have i: "''i'' \<noteq> []" by simp
  note T = tail_over_the_wire [OF tail_worker_inv ns i l r tr refl n, unfolded f sum.case, THEN conjunct2,
      THEN conjunct2, THEN spec, THEN mp, OF _ conjI [OF run t(2)]]
  have "received False (ss_sent t) = [7]"
    using T [THEN conjunct2, THEN spec, of False] t(3)
    by (simp add: asked_output_def output_of_def chunkSize_def del: run_actions.simps)
  with T [THEN conjunct1] show ?thesis by (intro exI [of _ strm]) auto
qed

end
