(* ===== verification/Descriptor.thy ===== *)
theory Descriptor
  imports Stubs
begin

text \<open>
  The file descriptor that \<open>workergrpc/worker.pb.go\<close> embeds and registers: its bytes, the struct
  declarations with their tags, and the table of Go types. They are compared with each other and
  with the service descriptor of the stubs. The wire format and the numbers of the descriptor's own
  fields and types are the documented ones of protocol buffers (\<open>descriptor.proto\<close>).
\<close>

section \<open>The embedded bytes\<close>

text \<open>The bytes as they are in the file, cut where a message or the service begins and ends.\<close>

definition rawDesc_head :: "int list" where
  "rawDesc_head =
     [0x0a, 0x17, 0x77, 0x6f, 0x72, 0x6b, 0x65, 0x72, 0x67, 0x72, 0x70, 0x63, 0x2f, 0x77, 0x6f, 0x72,
      0x6b, 0x65, 0x72, 0x2e, 0x70, 0x72, 0x6f, 0x74, 0x6f, 0x12, 0x11, 0x74, 0x65, 0x6c, 0x65, 0x77,
      0x6f, 0x72, 0x6b, 0x65, 0x72, 0x2e, 0x77, 0x6f, 0x72, 0x6b, 0x65, 0x72, 0x1a, 0x1f, 0x67, 0x6f,
      0x6f, 0x67, 0x6c, 0x65, 0x2f, 0x70, 0x72, 0x6f, 0x74, 0x6f, 0x62, 0x75, 0x66, 0x2f, 0x74, 0x69,
      0x6d, 0x65, 0x73, 0x74, 0x61, 0x6d, 0x70, 0x2e, 0x70, 0x72, 0x6f, 0x74, 0x6f, 0x1a, 0x1e, 0x67,
      0x6f, 0x6f, 0x67, 0x6c, 0x65, 0x2f, 0x70, 0x72, 0x6f, 0x74, 0x6f, 0x62, 0x75, 0x66, 0x2f, 0x77,
      0x72, 0x61, 0x70, 0x70, 0x65, 0x72, 0x73, 0x2e, 0x70, 0x72, 0x6f, 0x74, 0x6f]"

definition rawDesc_Job :: "int list" where
  "rawDesc_Job =
     [0x0a, 0x03, 0x4a, 0x6f, 0x62, 0x12, 0x0e, 0x0a, 0x02, 0x69, 0x64, 0x18, 0x01, 0x20, 0x01, 0x28,
      0x09, 0x52, 0x02, 0x69, 0x64, 0x12, 0x18, 0x0a, 0x07, 0x63, 0x6f, 0x6d, 0x6d, 0x61, 0x6e, 0x64,
      0x18, 0x02, 0x20, 0x03, 0x28, 0x09, 0x52, 0x07, 0x63, 0x6f, 0x6d, 0x6d, 0x61, 0x6e, 0x64, 0x12,
      0x17, 0x0a, 0x07, 0x72, 0x6f, 0x6f, 0x74, 0x5f, 0x66, 0x73, 0x18, 0x03, 0x20, 0x01, 0x28, 0x09,
      0x52, 0x06, 0x72, 0x6f, 0x6f, 0x74, 0x46, 0x73, 0x12, 0x39, 0x0a, 0x0a, 0x63, 0x72, 0x65, 0x61,
      0x74, 0x65, 0x64, 0x5f, 0x61, 0x74, 0x18, 0x04, 0x20, 0x01, 0x28, 0x0b, 0x32, 0x1a, 0x2e, 0x67,
      0x6f, 0x6f, 0x67, 0x6c, 0x65, 0x2e, 0x70, 0x72, 0x6f, 0x74, 0x6f, 0x62, 0x75, 0x66, 0x2e, 0x54,
      0x69, 0x6d, 0x65, 0x73, 0x74, 0x61, 0x6d, 0x70, 0x52, 0x09, 0x63, 0x72, 0x65, 0x61, 0x74, 0x65,
      0x64, 0x41, 0x74, 0x12, 0x10, 0x0a, 0x03, 0x70, 0x69, 0x64, 0x18, 0x05, 0x20, 0x01, 0x28, 0x03,
      0x52, 0x03, 0x70, 0x69, 0x64, 0x12, 0x16, 0x0a, 0x06, 0x73, 0x74, 0x64, 0x6f, 0x75, 0x74, 0x18,
      0x06, 0x20, 0x01, 0x28, 0x0c, 0x52, 0x06, 0x73, 0x74, 0x64, 0x6f, 0x75, 0x74, 0x12, 0x16, 0x0a,
      0x06, 0x73, 0x74, 0x64, 0x65, 0x72, 0x72, 0x18, 0x07, 0x20, 0x01, 0x28, 0x0c, 0x52, 0x06, 0x73,
      0x74, 0x64, 0x65, 0x72, 0x72, 0x12, 0x38, 0x0a, 0x09, 0x65, 0x78, 0x69, 0x74, 0x5f, 0x63, 0x6f,
      0x64, 0x65, 0x18, 0x08, 0x20, 0x01, 0x28, 0x0b, 0x32, 0x1b, 0x2e, 0x67, 0x6f, 0x6f, 0x67, 0x6c,
      0x65, 0x2e, 0x70, 0x72, 0x6f, 0x74, 0x6f, 0x62, 0x75, 0x66, 0x2e, 0x49, 0x6e, 0x74, 0x33, 0x32,
      0x56, 0x61, 0x6c, 0x75, 0x65, 0x52, 0x08, 0x65, 0x78, 0x69, 0x74, 0x43, 0x6f, 0x64, 0x65]"

definition rawDesc_GetJobRequest :: "int list" where
  "rawDesc_GetJobRequest =
     [0x0a, 0x0d, 0x47, 0x65, 0x74, 0x4a, 0x6f, 0x62, 0x52, 0x65, 0x71, 0x75, 0x65, 0x73, 0x74, 0x12,
      0x15, 0x0a, 0x06, 0x6a, 0x6f, 0x62, 0x5f, 0x69, 0x64, 0x18, 0x01, 0x20, 0x01, 0x28, 0x09, 0x52,
      0x05, 0x6a, 0x6f, 0x62, 0x49, 0x64, 0x12, 0x25, 0x0a, 0x0e, 0x69, 0x6e, 0x63, 0x6c, 0x75, 0x64,
      0x65, 0x5f, 0x73, 0x74, 0x64, 0x6f, 0x75, 0x74, 0x18, 0x02, 0x20, 0x01, 0x28, 0x08, 0x52, 0x0d,
      0x69, 0x6e, 0x63, 0x6c, 0x75, 0x64, 0x65, 0x53, 0x74, 0x64, 0x6f, 0x75, 0x74, 0x12, 0x25, 0x0a,
      0x0e, 0x69, 0x6e, 0x63, 0x6c, 0x75, 0x64, 0x65, 0x5f, 0x73, 0x74, 0x64, 0x65, 0x72, 0x72, 0x18,
      0x03, 0x20, 0x01, 0x28, 0x08, 0x52, 0x0d, 0x69, 0x6e, 0x63, 0x6c, 0x75, 0x64, 0x65, 0x53, 0x74,
      0x64, 0x65, 0x72, 0x72]"

definition rawDesc_GetJobResponse :: "int list" where
  "rawDesc_GetJobResponse =
     [0x0a, 0x0e, 0x47, 0x65, 0x74, 0x4a, 0x6f, 0x62, 0x52, 0x65, 0x73, 0x70, 0x6f, 0x6e, 0x73, 0x65,
      0x12, 0x28, 0x0a, 0x03, 0x6a, 0x6f, 0x62, 0x18, 0x01, 0x20, 0x01, 0x28, 0x0b, 0x32, 0x16, 0x2e,
      0x74, 0x65, 0x6c, 0x65, 0x77, 0x6f, 0x72, 0x6b, 0x65, 0x72, 0x2e, 0x77, 0x6f, 0x72, 0x6b, 0x65,
      0x72, 0x2e, 0x4a, 0x6f, 0x62, 0x52, 0x03, 0x6a, 0x6f, 0x62]"

definition rawDesc_SubmitJobRequest :: "int list" where
  "rawDesc_SubmitJobRequest =
     [0x0a, 0x10, 0x53, 0x75, 0x62, 0x6d, 0x69, 0x74, 0x4a, 0x6f, 0x62, 0x52, 0x65, 0x71, 0x75, 0x65,
      0x73, 0x74, 0x12, 0x28, 0x0a, 0x03, 0x6a, 0x6f, 0x62, 0x18, 0x01, 0x20, 0x01, 0x28, 0x0b, 0x32,
      0x16, 0x2e, 0x74, 0x65, 0x6c, 0x65, 0x77, 0x6f, 0x72, 0x6b, 0x65, 0x72, 0x2e, 0x77, 0x6f, 0x72,
      0x6b, 0x65, 0x72, 0x2e, 0x4a, 0x6f, 0x62, 0x52, 0x03, 0x6a, 0x6f, 0x62]"

definition rawDesc_SubmitJobResponse :: "int list" where
  "rawDesc_SubmitJobResponse =
     [0x0a, 0x11, 0x53, 0x75, 0x62, 0x6d, 0x69, 0x74, 0x4a, 0x6f, 0x62, 0x52, 0x65, 0x73, 0x70, 0x6f,
      0x6e, 0x73, 0x65, 0x12, 0x28, 0x0a, 0x03, 0x6a, 0x6f, 0x62, 0x18, 0x01, 0x20, 0x01, 0x28, 0x0b,
      0x32, 0x16, 0x2e, 0x74, 0x65, 0x6c, 0x65, 0x77, 0x6f, 0x72, 0x6b, 0x65, 0x72, 0x2e, 0x77, 0x6f,
      0x72, 0x6b, 0x65, 0x72, 0x2e, 0x4a, 0x6f, 0x62, 0x52, 0x03, 0x6a, 0x6f, 0x62]"

definition rawDesc_StopJobRequest :: "int list" where
  "rawDesc_StopJobRequest =
     [0x0a, 0x0e, 0x53, 0x74, 0x6f, 0x70, 0x4a, 0x6f, 0x62, 0x52, 0x65, 0x71, 0x75, 0x65, 0x73, 0x74,
      0x12, 0x15, 0x0a, 0x06, 0x6a, 0x6f, 0x62, 0x5f, 0x69, 0x64, 0x18, 0x01, 0x20, 0x01, 0x28, 0x09,
      0x52, 0x05, 0x6a, 0x6f, 0x62, 0x49, 0x64, 0x12, 0x14, 0x0a, 0x05, 0x66, 0x6f, 0x72, 0x63, 0x65,
      0x18, 0x02, 0x20, 0x01, 0x28, 0x08, 0x52, 0x05, 0x66, 0x6f, 0x72, 0x63, 0x65]"

definition rawDesc_StopJobResponse :: "int list" where
  "rawDesc_StopJobResponse =
     [0x0a, 0x0f, 0x53, 0x74, 0x6f, 0x70, 0x4a, 0x6f, 0x62, 0x52, 0x65, 0x73, 0x70, 0x6f, 0x6e, 0x73,
      0x65, 0x12, 0x28, 0x0a, 0x03, 0x6a, 0x6f, 0x62, 0x18, 0x01, 0x20, 0x01, 0x28, 0x0b, 0x32, 0x16,
      0x2e, 0x74, 0x65, 0x6c, 0x65, 0x77, 0x6f, 0x72, 0x6b, 0x65, 0x72, 0x2e, 0x77, 0x6f, 0x72, 0x6b,
      0x65, 0x72, 0x2e, 0x4a, 0x6f, 0x62, 0x52, 0x03, 0x6a, 0x6f, 0x62]"

definition rawDesc_StreamJobOutputRequest :: "int list" where
  "rawDesc_StreamJobOutputRequest =
     [0x0a, 0x16, 0x53, 0x74, 0x72, 0x65, 0x61, 0x6d, 0x4a, 0x6f, 0x62, 0x4f, 0x75, 0x74, 0x70, 0x75,
      0x74, 0x52, 0x65, 0x71, 0x75, 0x65, 0x73, 0x74, 0x12, 0x15, 0x0a, 0x06, 0x6a, 0x6f, 0x62, 0x5f,
      0x69, 0x64, 0x18, 0x01, 0x20, 0x01, 0x28, 0x09, 0x52, 0x05, 0x6a, 0x6f, 0x62, 0x49, 0x64, 0x12,
      0x21, 0x0a, 0x0b, 0x6f, 0x6e, 0x6c, 0x79, 0x5f, 0x73, 0x74, 0x64, 0x6f, 0x75, 0x74, 0x18, 0x02,
      0x20, 0x01, 0x28, 0x08, 0x48, 0x00, 0x52, 0x0a, 0x6f, 0x6e, 0x6c, 0x79, 0x53, 0x74, 0x64, 0x6f,
      0x75, 0x74, 0x12, 0x21, 0x0a, 0x0b, 0x6f, 0x6e, 0x6c, 0x79, 0x5f, 0x73, 0x74, 0x64, 0x65, 0x72,
      0x72, 0x18, 0x03, 0x20, 0x01, 0x28, 0x08, 0x48, 0x00, 0x52, 0x0a, 0x6f, 0x6e, 0x6c, 0x79, 0x53,
      0x74, 0x64, 0x65, 0x72, 0x72, 0x12, 0x25, 0x0a, 0x0e, 0x66, 0x72, 0x6f, 0x6d, 0x5f, 0x62, 0x65,
      0x67, 0x69, 0x6e, 0x6e, 0x69, 0x6e, 0x67, 0x18, 0x04, 0x20, 0x01, 0x28, 0x08, 0x52, 0x0d, 0x66,
      0x72, 0x6f, 0x6d, 0x42, 0x65, 0x67, 0x69, 0x6e, 0x6e, 0x69, 0x6e, 0x67, 0x42, 0x0e, 0x0a, 0x0c,
      0x73, 0x74, 0x72, 0x65, 0x61, 0x6d, 0x5f, 0x6c, 0x69, 0x6d, 0x69, 0x74]"

definition rawDesc_StreamJobOutputResponse :: "int list" where
  "rawDesc_StreamJobOutputResponse =
     [0x0a, 0x17, 0x53, 0x74, 0x72, 0x65, 0x61, 0x6d, 0x4a, 0x6f, 0x62, 0x4f, 0x75, 0x74, 0x70, 0x75,
      0x74, 0x52, 0x65, 0x73, 0x70, 0x6f, 0x6e, 0x73, 0x65, 0x12, 0x18, 0x0a, 0x06, 0x73, 0x74, 0x64,
      0x6f, 0x75, 0x74, 0x18, 0x01, 0x20, 0x01, 0x28, 0x0c, 0x48, 0x00, 0x52, 0x06, 0x73, 0x74, 0x64,
      0x6f, 0x75, 0x74, 0x12, 0x18, 0x0a, 0x06, 0x73, 0x74, 0x64, 0x65, 0x72, 0x72, 0x18, 0x02, 0x20,
      0x01, 0x28, 0x0c, 0x48, 0x00, 0x52, 0x06, 0x73, 0x74, 0x64, 0x65, 0x72, 0x72, 0x12, 0x30, 0x0a,
      0x13, 0x63, 0x6f, 0x6d, 0x70, 0x6c, 0x65, 0x74, 0x65, 0x64, 0x5f, 0x65, 0x78, 0x69, 0x74, 0x5f,
      0x63, 0x6f, 0x64, 0x65, 0x18, 0x03, 0x20, 0x01, 0x28, 0x05, 0x48, 0x00, 0x52, 0x11, 0x63, 0x6f,
      0x6d, 0x70, 0x6c, 0x65, 0x74, 0x65, 0x64, 0x45, 0x78, 0x69, 0x74, 0x43, 0x6f, 0x64, 0x65, 0x12,
      0x12, 0x0a, 0x04, 0x70, 0x61, 0x73, 0x74, 0x18, 0x04, 0x20, 0x01, 0x28, 0x08, 0x52, 0x04, 0x70,
      0x61, 0x73, 0x74, 0x42, 0x0a, 0x0a, 0x08, 0x72, 0x65, 0x73, 0x70, 0x6f, 0x6e, 0x73, 0x65]"

definition rawDesc_JobService :: "int list" where
  "rawDesc_JobService =
     [0x0a, 0x0a, 0x4a, 0x6f, 0x62, 0x53, 0x65, 0x72, 0x76, 0x69, 0x63, 0x65, 0x12, 0x4d, 0x0a, 0x06,
      0x47, 0x65, 0x74, 0x4a, 0x6f, 0x62, 0x12, 0x20, 0x2e, 0x74, 0x65, 0x6c, 0x65, 0x77, 0x6f, 0x72,
      0x6b, 0x65, 0x72, 0x2e, 0x77, 0x6f, 0x72, 0x6b, 0x65, 0x72, 0x2e, 0x47, 0x65, 0x74, 0x4a, 0x6f,
      0x62, 0x52, 0x65, 0x71, 0x75, 0x65, 0x73, 0x74, 0x1a, 0x21, 0x2e, 0x74, 0x65, 0x6c, 0x65, 0x77,
      0x6f, 0x72, 0x6b, 0x65, 0x72, 0x2e, 0x77, 0x6f, 0x72, 0x6b, 0x65, 0x72, 0x2e, 0x47, 0x65, 0x74,
      0x4a, 0x6f, 0x62, 0x52, 0x65, 0x73, 0x70, 0x6f, 0x6e, 0x73, 0x65, 0x12, 0x56, 0x0a, 0x09, 0x53,
      0x75, 0x62, 0x6d, 0x69, 0x74, 0x4a, 0x6f, 0x62, 0x12, 0x23, 0x2e, 0x74, 0x65, 0x6c, 0x65, 0x77,
      0x6f, 0x72, 0x6b, 0x65, 0x72, 0x2e, 0x77, 0x6f, 0x72, 0x6b, 0x65, 0x72, 0x2e, 0x53, 0x75, 0x62,
      0x6d, 0x69, 0x74, 0x4a, 0x6f, 0x62, 0x52, 0x65, 0x71, 0x75, 0x65, 0x73, 0x74, 0x1a, 0x24, 0x2e,
      0x74, 0x65, 0x6c, 0x65, 0x77, 0x6f, 0x72, 0x6b, 0x65, 0x72, 0x2e, 0x77, 0x6f, 0x72, 0x6b, 0x65,
      0x72, 0x2e, 0x53, 0x75, 0x62, 0x6d, 0x69, 0x74, 0x4a, 0x6f, 0x62, 0x52, 0x65, 0x73, 0x70, 0x6f,
      0x6e, 0x73, 0x65, 0x12, 0x50, 0x0a, 0x07, 0x53, 0x74, 0x6f, 0x70, 0x4a, 0x6f, 0x62, 0x12, 0x21,
      0x2e, 0x74, 0x65, 0x6c, 0x65, 0x77, 0x6f, 0x72, 0x6b, 0x65, 0x72, 0x2e, 0x77, 0x6f, 0x72, 0x6b,
      0x65, 0x72, 0x2e, 0x53, 0x74, 0x6f, 0x70, 0x4a, 0x6f, 0x62, 0x52, 0x65, 0x71, 0x75, 0x65, 0x73,
      0x74, 0x1a, 0x22, 0x2e, 0x74, 0x65, 0x6c, 0x65, 0x77, 0x6f, 0x72, 0x6b, 0x65, 0x72, 0x2e, 0x77,
      0x6f, 0x72, 0x6b, 0x65, 0x72, 0x2e, 0x53, 0x74, 0x6f, 0x70, 0x4a, 0x6f, 0x62, 0x52, 0x65, 0x73,
      0x70, 0x6f, 0x6e, 0x73, 0x65, 0x12, 0x6a, 0x0a, 0x0f, 0x53, 0x74, 0x72, 0x65, 0x61, 0x6d, 0x4a,
      0x6f, 0x62, 0x4f, 0x75, 0x74, 0x70, 0x75, 0x74, 0x12, 0x29, 0x2e, 0x74, 0x65, 0x6c, 0x65, 0x77,
      0x6f, 0x72, 0x6b, 0x65, 0x72, 0x2e, 0x77, 0x6f, 0x72, 0x6b, 0x65, 0x72, 0x2e, 0x53, 0x74, 0x72,
      0x65, 0x61, 0x6d, 0x4a, 0x6f, 0x62, 0x4f, 0x75, 0x74, 0x70, 0x75, 0x74, 0x52, 0x65, 0x71, 0x75,
      0x65, 0x73, 0x74, 0x1a, 0x2a, 0x2e, 0x74, 0x65, 0x6c, 0x65, 0x77, 0x6f, 0x72, 0x6b, 0x65, 0x72,
      0x2e, 0x77, 0x6f, 0x72, 0x6b, 0x65, 0x72, 0x2e, 0x53, 0x74, 0x72, 0x65, 0x61, 0x6d, 0x4a, 0x6f,
      0x62, 0x4f, 0x75, 0x74, 0x70, 0x75, 0x74, 0x52, 0x65, 0x73, 0x70, 0x6f, 0x6e, 0x73, 0x65, 0x30,
      0x01]"

definition rawDesc_tail :: "int list" where
  "rawDesc_tail =
     [0x42, 0x28, 0x5a, 0x26, 0x67, 0x69, 0x74, 0x68, 0x75, 0x62, 0x2e, 0x63, 0x6f, 0x6d, 0x2f, 0x63,
      0x72, 0x65, 0x74, 0x7a, 0x2f, 0x74, 0x65, 0x6c, 0x65, 0x77, 0x6f, 0x72, 0x6b, 0x65, 0x72, 0x2f,
      0x77, 0x6f, 0x72, 0x6b, 0x65, 0x72, 0x67, 0x72, 0x70, 0x63, 0x62, 0x06, 0x70, 0x72, 0x6f, 0x74,
      0x6f, 0x33]"

definition rawDesc :: "int list" where
  "rawDesc =
     rawDesc_head @
     ([0x22, 0xff, 0x01] @ rawDesc_Job) @
     ([0x22, 0x74] @ rawDesc_GetJobRequest) @
     ([0x22, 0x3a] @ rawDesc_GetJobResponse) @
     ([0x22, 0x3c] @ rawDesc_SubmitJobRequest) @
     ([0x22, 0x3d] @ rawDesc_SubmitJobResponse) @
     ([0x22, 0x3d] @ rawDesc_StopJobRequest) @
     ([0x22, 0x3b] @ rawDesc_StopJobResponse) @
     ([0x22, 0xac, 0x01] @ rawDesc_StreamJobOutputRequest) @
     ([0x22, 0x9f, 0x01] @ rawDesc_StreamJobOutputResponse) @
     ([0x32, 0xf1, 0x02] @ rawDesc_JobService) @
     rawDesc_tail"

section \<open>The struct declarations\<close>

text \<open>
  A field with its Go type and \<open>protobuf\<close> tag, or a \<open>oneof\<close> with its interface and
  \<open>protobuf_oneof\<close> tag, whose fields are those of its wrapper structs.
\<close>

datatype go_field =
    GoField string (go_type: string) (go_tag: string)
  | GoOneof string (go_type: string) (go_tag: string)

definition Job_struct :: "go_field list" where
  "Job_struct =
     [GoField ''Id'' ''string'' ''bytes,1,opt,name=id,proto3'',
      GoField ''Command'' ''[]string'' ''bytes,2,rep,name=command,proto3'',
      GoField ''RootFs'' ''string'' ''bytes,3,opt,name=root_fs,json=rootFs,proto3'',
      GoField ''CreatedAt'' ''*timestamppb.Timestamp'' ''bytes,4,opt,name=created_at,json=createdAt,proto3'',
      GoField ''Pid'' ''int64'' ''varint,5,opt,name=pid,proto3'',
      GoField ''Stdout'' ''[]byte'' ''bytes,6,opt,name=stdout,proto3'',
      GoField ''Stderr'' ''[]byte'' ''bytes,7,opt,name=stderr,proto3'',
      GoField ''ExitCode'' ''*wrapperspb.Int32Value'' ''bytes,8,opt,name=exit_code,json=exitCode,proto3'']"

definition GetJobRequest_struct :: "go_field list" where
  "GetJobRequest_struct =
     [GoField ''JobId'' ''string'' ''bytes,1,opt,name=job_id,json=jobId,proto3'',
      GoField ''IncludeStdout'' ''bool'' ''varint,2,opt,name=include_stdout,json=includeStdout,proto3'',
      GoField ''IncludeStderr'' ''bool'' ''varint,3,opt,name=include_stderr,json=includeStderr,proto3'']"

definition GetJobResponse_struct :: "go_field list" where
  "GetJobResponse_struct =
     [GoField ''Job'' ''*Job'' ''bytes,1,opt,name=job,proto3'']"

definition SubmitJobRequest_struct :: "go_field list" where
  "SubmitJobRequest_struct =
     [GoField ''Job'' ''*Job'' ''bytes,1,opt,name=job,proto3'']"

definition SubmitJobResponse_struct :: "go_field list" where
  "SubmitJobResponse_struct =
     [GoField ''Job'' ''*Job'' ''bytes,1,opt,name=job,proto3'']"

definition StopJobRequest_struct :: "go_field list" where
  "StopJobRequest_struct =
     [GoField ''JobId'' ''string'' ''bytes,1,opt,name=job_id,json=jobId,proto3'',
      GoField ''Force'' ''bool'' ''varint,2,opt,name=force,proto3'']"

definition StopJobResponse_struct :: "go_field list" where
  "StopJobResponse_struct =
     [GoField ''Job'' ''*Job'' ''bytes,1,opt,name=job,proto3'']"

definition StreamJobOutputRequest_struct :: "go_field list" where
  "StreamJobOutputRequest_struct =
     [GoField ''JobId'' ''string'' ''bytes,1,opt,name=job_id,json=jobId,proto3'',
      GoOneof ''StreamLimit'' ''isStreamJobOutputRequest_StreamLimit'' ''stream_limit'',
      GoField ''FromBeginning'' ''bool'' ''varint,4,opt,name=from_beginning,json=fromBeginning,proto3'']"

definition StreamJobOutputResponse_struct :: "go_field list" where
  "StreamJobOutputResponse_struct =
     [GoOneof ''Response'' ''isStreamJobOutputResponse_Response'' ''response'',
      GoField ''Past'' ''bool'' ''varint,4,opt,name=past,proto3'']"

definition StreamLimit_wrappers :: "go_field list" where
  "StreamLimit_wrappers =
     [GoField ''OnlyStdout'' ''bool'' ''varint,2,opt,name=only_stdout,json=onlyStdout,proto3,oneof'',
      GoField ''OnlyStderr'' ''bool'' ''varint,3,opt,name=only_stderr,json=onlyStderr,proto3,oneof'']"

definition Response_wrappers :: "go_field list" where
  "Response_wrappers =
     [GoField ''Stdout'' ''[]byte'' ''bytes,1,opt,name=stdout,proto3,oneof'',
      GoField ''Stderr'' ''[]byte'' ''bytes,2,opt,name=stderr,proto3,oneof'',
      GoField ''CompletedExitCode'' ''int32'' ''varint,3,opt,name=completed_exit_code,json=completedExitCode,proto3,oneof'']"

text \<open>The types in the order of \<open>goTypes\<close>, which starts with the nine messages of the file.\<close>

definition goTypes :: "string list" where
  "goTypes =
     [''*Job'', ''*GetJobRequest'', ''*GetJobResponse'', ''*SubmitJobRequest'', ''*SubmitJobResponse'',
      ''*StopJobRequest'', ''*StopJobResponse'', ''*StreamJobOutputRequest'', ''*StreamJobOutputResponse'',
      ''*timestamppb.Timestamp'', ''*wrapperspb.Int32Value'']"

text \<open>
  \<open>depIdxs\<close>: for each use of a message type in the file an index of \<open>goTypes\<close>; the last five
  entries say where the lists of output, input, extension and field types begin.
\<close>

definition depIdxs :: "nat list" where
  "depIdxs = [9, 10, 0, 0, 0, 0, 1, 3, 5, 7, 2, 4, 6, 8, 10, 6, 6, 6, 0]"

definition message_structs :: "go_field list list" where
  "message_structs =
     [Job_struct, GetJobRequest_struct, GetJobResponse_struct, SubmitJobRequest_struct,
      SubmitJobResponse_struct, StopJobRequest_struct, StopJobResponse_struct,
      StreamJobOutputRequest_struct, StreamJobOutputResponse_struct]"

definition OneofWrappers :: "nat \<Rightarrow> go_field list" where
  "OneofWrappers i = (if i = 7 then StreamLimit_wrappers else if i = 8 then Response_wrappers else [])"

section \<open>What a struct declares\<close>

record field_desc =
  fd_name :: string
  fd_number :: int
  fd_label :: int
  fd_type :: int
  fd_json :: string
  fd_oneof :: bool

fun split_on :: "char \<Rightarrow> string \<Rightarrow> string list" where
  "split_on c [] = [[]]"
| "split_on c (x # xs) =
     (if x = c then [] # split_on c xs
      else case split_on c xs of [] \<Rightarrow> [[x]] | p # ps \<Rightarrow> (x # p) # ps)"

definition decimal :: "string \<Rightarrow> int" where
  "decimal s = fold (\<lambda>c n. 10 * n + (of_char c - 48)) s 0"

fun strip_prefix :: "string \<Rightarrow> string \<Rightarrow> string option" where
  "strip_prefix [] s = Some s"
| "strip_prefix (p # ps) [] = None"
| "strip_prefix (p # ps) (x # xs) = (if p = x then strip_prefix ps xs else None)"

text \<open>The value of an entry \<open>key=value\<close> of a tag.\<close>

fun tag_value :: "string \<Rightarrow> string list \<Rightarrow> string option" where
  "tag_value key [] = None"
| "tag_value key (p # ps) = (case strip_prefix key p of Some v \<Rightarrow> Some v | None \<Rightarrow> tag_value key ps)"

definition type_of_go :: "string \<Rightarrow> int" where
  "type_of_go t =
     (if t = ''int64'' then 3 else if t = ''int32'' then 5 else if t = ''bool'' then 8
      else if t = ''string'' \<or> t = ''[]string'' then 9 else if t = ''[]byte'' then 12
      else if take 1 t = ''*'' then 11 else 0)"

definition wire_kind :: "int \<Rightarrow> string" where
  "wire_kind t = (if t \<in> {3, 5, 8} then ''varint'' else ''bytes'')"

text \<open>The field a struct field declares; a tag whose kind is not that of the Go type is none.\<close>

definition declared_field :: "go_field \<Rightarrow> field_desc option" where
  "declared_field f =
     (case split_on CHR '','' (go_tag f) of
        kind # num # label # rest \<Rightarrow>
          (case tag_value ''name='' rest of
             None \<Rightarrow> None
           | Some n \<Rightarrow>
               if kind = wire_kind (type_of_go (go_type f)) \<and> label = (if take 2 (go_type f) = ''[]'' \<and> go_type f \<noteq> ''[]byte'' then ''rep'' else ''opt'')
               then Some \<lparr>fd_name = n, fd_number = decimal num, fd_label = (if label = ''rep'' then 3 else 1),
                  fd_type = type_of_go (go_type f),
                  fd_json = (case tag_value ''json='' rest of None \<Rightarrow> n | Some js \<Rightarrow> js),
                  fd_oneof = List.member rest ''oneof''\<rparr>
               else None)
      | _ \<Rightarrow> None)"

definition is_oneof :: "go_field \<Rightarrow> bool" where
  "is_oneof f = (case f of GoOneof n t tag \<Rightarrow> True | _ \<Rightarrow> False)"

definition struct_fields :: "nat \<Rightarrow> go_field list" where
  "struct_fields i = concat (map (\<lambda>f. if is_oneof f then OneofWrappers i else [f]) (message_structs ! i))"

text \<open>A message: its name, its fields, the names of its \<open>oneof\<close> groups.\<close>

definition declared_message :: "nat \<Rightarrow> string \<times> field_desc option list \<times> string list" where
  "declared_message i =
     (drop 1 (goTypes ! i), map declared_field (struct_fields i), map go_tag (filter is_oneof (message_structs ! i)))"

text \<open>The message types the fields refer to, in the order of the file, and their registered names.\<close>

definition field_types :: "string list" where
  "field_types = filter (\<lambda>t. type_of_go t = 11) (map go_type (concat (map struct_fields [0..<9])))"

definition proto_name :: "string \<Rightarrow> string" where
  "proto_name t =
     (if t = ''*timestamppb.Timestamp'' then ''.google.protobuf.Timestamp''
      else if t = ''*wrapperspb.Int32Value'' then ''.google.protobuf.Int32Value''
      else ''.teleworker.worker.'' @ drop 1 t)"

text \<open>The section of \<open>depIdxs\<close> that begins where its entry from the end says.\<close>

definition dep_types :: "nat \<Rightarrow> nat \<Rightarrow> string list" where
  "dep_types k n = map ((!) goTypes) (take n (drop (rev depIdxs ! k) depIdxs))"

section \<open>What the bytes declare\<close>

datatype wire_value = Varint int | Bytes "int list"

fun varint :: "int list \<Rightarrow> (int \<times> int list) option" where
  "varint [] = None"
| "varint (b # bs) =
     (if b < 128 then Some (b, bs)
      else case varint bs of None \<Rightarrow> None | Some (v, rest) \<Rightarrow> Some (b - 128 + 128 * v, rest))"

fun cut :: "int \<Rightarrow> int list \<Rightarrow> (int list \<times> int list) option" where
  "cut n [] = (if n = 0 then Some ([], []) else None)"
| "cut n (b # bs) =
     (if n = 0 then Some ([], b # bs)
      else case cut (n - 1) bs of None \<Rightarrow> None | Some (xs, rest) \<Rightarrow> Some (b # xs, rest))"

lemma varint_shorter: "varint bs = Some (v, rest) \<Longrightarrow> length rest < length bs"
  by (induction bs arbitrary: v rest) (auto split: if_splits option.splits)

lemma cut_shorter: "cut n bs = Some (xs, rest) \<Longrightarrow> length rest \<le> length bs"
  by (induction n bs arbitrary: xs rest rule: cut.induct) (auto split: if_splits option.splits)

text \<open>A message on the wire: fields with their numbers; only the two kinds that occur are read.\<close>

function wire_fields :: "int list \<Rightarrow> (int \<times> wire_value) list option" where
  "wire_fields bs =
     (if bs = [] then Some []
      else case varint bs of
        None \<Rightarrow> None
      | Some (key, rest) \<Rightarrow> (case varint rest of
          None \<Rightarrow> None
        | Some (v, rest') \<Rightarrow>
            if key mod 8 = 0 then map_option ((#) (key div 8, Varint v)) (wire_fields rest')
            else if key mod 8 = 2 then (case cut v rest' of
                None \<Rightarrow> None
              | Some (xs, rest'') \<Rightarrow> map_option ((#) (key div 8, Bytes xs)) (wire_fields rest''))
            else None))"
  by pat_completeness auto
termination
  by (relation "measure length")
    (auto dest!: varint_shorter cut_shorter)

declare wire_fields.simps [simp del]

definition bytes_at :: "int \<Rightarrow> (int \<times> wire_value) list \<Rightarrow> int list list" where
  "bytes_at n fs = concat (map (\<lambda>(k, v). case v of Bytes b \<Rightarrow> if k = n then [b] else [] | _ \<Rightarrow> []) fs)"

definition varint_at :: "int \<Rightarrow> (int \<times> wire_value) list \<Rightarrow> int option" where
  "varint_at n fs = (case filter (\<lambda>(k, v). k = n) fs of (k, Varint v) # _ \<Rightarrow> Some v | _ \<Rightarrow> None)"

definition text_of :: "int list \<Rightarrow> string" where
  "text_of b = map char_of b"

definition string_at :: "int \<Rightarrow> (int \<times> wire_value) list \<Rightarrow> string" where
  "string_at n fs = (case bytes_at n fs of b # _ \<Rightarrow> text_of b | [] \<Rightarrow> [])"

definition submessages :: "int \<Rightarrow> int list \<Rightarrow> (int \<times> wire_value) list option list" where
  "submessages n bs = (case wire_fields bs of None \<Rightarrow> [] | Some fs \<Rightarrow> map wire_fields (bytes_at n fs))"

text \<open>The numbers are those of \<open>FileDescriptorProto\<close> and the messages it is made of.\<close>

definition embedded_field :: "(int \<times> wire_value) list option \<Rightarrow> field_desc option" where
  "embedded_field m =
     (case m of
        None \<Rightarrow> None
      | Some fs \<Rightarrow>
          (case (varint_at 3 fs, varint_at 4 fs, varint_at 5 fs) of
             (Some num, Some label, Some t) \<Rightarrow> Some
               \<lparr>fd_name = string_at 1 fs, fd_number = num, fd_label = label, fd_type = t,
                fd_json = string_at 10 fs, fd_oneof = varint_at 9 fs \<noteq> None\<rparr>
           | _ \<Rightarrow> None))"

definition embedded_message :: "int list \<Rightarrow> string \<times> field_desc option list \<times> string list" where
  "embedded_message bs =
     (case wire_fields bs of
        None \<Rightarrow> ([], [], [])
      | Some fs \<Rightarrow> (string_at 1 fs, map embedded_field (map wire_fields (bytes_at 2 fs)),
          map (\<lambda>m. case m of None \<Rightarrow> [] | Some d \<Rightarrow> string_at 1 d) (map wire_fields (bytes_at 8 fs))))"

definition embedded_field_types :: "int list \<Rightarrow> string list" where
  "embedded_field_types bs = concat (map (\<lambda>m. case m of None \<Rightarrow> [] | Some fs \<Rightarrow> map text_of (bytes_at 6 fs))
     (submessages 2 bs))"

text \<open>A method: its name, its input and output types, whether the client and the server stream.\<close>

definition embedded_method :: "(int \<times> wire_value) list option \<Rightarrow> string \<times> string \<times> string \<times> bool \<times> bool" where
  "embedded_method m =
     (case m of
        None \<Rightarrow> ([], [], [], False, False)
      | Some fs \<Rightarrow> (string_at 1 fs, string_at 2 fs, string_at 3 fs, varint_at 5 fs = Some 1, varint_at 6 fs = Some 1))"

record file_desc =
  file_name :: string
  file_package :: string
  file_messages :: "(string \<times> field_desc option list \<times> string list) list"
  file_field_types :: "string list"
  file_services :: "(string \<times> (string \<times> string \<times> string \<times> bool \<times> bool) list) list"

definition embedded_file :: "int list \<Rightarrow> file_desc option" where
  "embedded_file bs =
     (case wire_fields bs of
        None \<Rightarrow> None
      | Some fs \<Rightarrow> Some
          \<lparr>file_name = string_at 1 fs, file_package = string_at 2 fs,
           file_messages = map embedded_message (bytes_at 4 fs),
           file_field_types = concat (map embedded_field_types (bytes_at 4 fs)),
           file_services = map (\<lambda>b. (case wire_fields b of None \<Rightarrow> [] | Some ss \<Rightarrow> string_at 1 ss,
             map embedded_method (submessages 2 b))) (bytes_at 6 fs)\<rparr>)"

section \<open>Reading the embedded bytes\<close>

lemma varint_append: "varint bs = Some (v, rest) \<Longrightarrow> varint (bs @ r) = Some (v, rest @ r)"
  by (induction bs arbitrary: v rest) (auto split: if_splits option.splits)

lemma cut_append: "cut n bs = Some (xs, rest) \<Longrightarrow> cut n (bs @ r) = Some (xs, rest @ r)"
proof (induction n bs arbitrary: xs rest rule: cut.induct)
  case (1 n)
  then show ?case by (cases r) (auto split: if_splits)
qed (auto split: if_splits option.splits)

lemma cut_all: "cut (int (length p)) p = Some (p, [])"
  by (induction p) auto

text \<open>Fields one after the other are read one after the other.\<close>

lemma wire_fields_append:
  "wire_fields bs = Some fs \<Longrightarrow> wire_fields (bs @ r) = map_option ((@) fs) (wire_fields r)"
proof (induction bs arbitrary: fs rule: wire_fields.induct)
  case (1 bs)
  show ?case
  proof (cases "bs = []")
    case True
    with 1(3) show ?thesis by (simp add: wire_fields.simps [of "[]"] option.map_ident)
  next
    case False
    obtain key rest v rest' where k: "varint bs = Some (key, rest)" "varint rest = Some (v, rest')"
      using 1(3) False by (subst (asm) wire_fields.simps) (auto split: option.splits)
    note step = wire_fields.simps [of bs] wire_fields.simps [of "bs @ r"]
    show ?thesis
    proof (cases "key mod 8 = 0")
      case True
      with 1(3) False k obtain gs where "wire_fields rest' = Some gs" "fs = (key div 8, Varint v) # gs"
        by (auto simp: step(1))
      with 1(1) [OF False k(1) refl k(2) refl True] True False varint_append [OF k(1)] varint_append [OF k(2)]
      show ?thesis by (cases "wire_fields r") (simp_all add: step(2))
    next
      case two: False
      with 1(3) False k obtain xs rest'' where x: "key mod 8 = 2" "cut v rest' = Some (xs, rest'')"
        by (auto simp: step(1) split: if_splits option.splits)
      with 1(3) False two k obtain gs where "wire_fields rest'' = Some gs" "fs = (key div 8, Bytes xs) # gs"
        by (auto simp: step(1))
      with 1(2) [OF False k(1) refl k(2) refl two x(1,2) refl] two x False varint_append [OF k(1)]
        varint_append [OF k(2)] cut_append [OF x(2)]
      show ?thesis by (cases "wire_fields r") (simp_all add: step(2))
    qed
  qed
qed

lemma wire_fields_bytes:
  assumes "case varint h of None \<Rightarrow> False
    | Some (key, rest) \<Rightarrow> varint rest = Some (int (length p), []) \<and> key mod 8 = 2 \<and> n = key div 8"
  shows "wire_fields (h @ p) = Some [(n, Bytes p)]"
proof -
  obtain key rest where h: "varint h = Some (key, rest)" "varint rest = Some (int (length p), [])"
    "key mod 8 = 2" "n = key div 8" using assms by (auto split: option.splits)
  then show ?thesis
    using varint_append [OF h(1), of p] varint_append [OF h(2), of p]
    by (subst wire_fields.simps) (auto simp: cut_all wire_fields.simps [of "[]"])
qed

lemmas rawDesc_parts = rawDesc_Job_def rawDesc_GetJobRequest_def rawDesc_GetJobResponse_def
  rawDesc_SubmitJobRequest_def rawDesc_SubmitJobResponse_def rawDesc_StopJobRequest_def
  rawDesc_StopJobResponse_def rawDesc_StreamJobOutputRequest_def rawDesc_StreamJobOutputResponse_def
  rawDesc_JobService_def

lemma length_rawDesc:
  "length rawDesc_Job = 255" "length rawDesc_GetJobRequest = 116" "length rawDesc_GetJobResponse = 58"
  "length rawDesc_SubmitJobRequest = 60" "length rawDesc_SubmitJobResponse = 61"
  "length rawDesc_StopJobRequest = 61" "length rawDesc_StopJobResponse = 59"
  "length rawDesc_StreamJobOutputRequest = 172" "length rawDesc_StreamJobOutputResponse = 159"
  "length rawDesc_JobService = 369"
  by (simp_all add: rawDesc_parts)

lemma wire_messages:
  "wire_fields ([0x22, 0xff, 0x01] @ rawDesc_Job) = Some [(4, Bytes rawDesc_Job)]"
  "wire_fields ([0x22, 0x74] @ rawDesc_GetJobRequest) = Some [(4, Bytes rawDesc_GetJobRequest)]"
  "wire_fields ([0x22, 0x3a] @ rawDesc_GetJobResponse) = Some [(4, Bytes rawDesc_GetJobResponse)]"
  "wire_fields ([0x22, 0x3c] @ rawDesc_SubmitJobRequest) = Some [(4, Bytes rawDesc_SubmitJobRequest)]"
  "wire_fields ([0x22, 0x3d] @ rawDesc_SubmitJobResponse) = Some [(4, Bytes rawDesc_SubmitJobResponse)]"
  "wire_fields ([0x22, 0x3d] @ rawDesc_StopJobRequest) = Some [(4, Bytes rawDesc_StopJobRequest)]"
  "wire_fields ([0x22, 0x3b] @ rawDesc_StopJobResponse) = Some [(4, Bytes rawDesc_StopJobResponse)]"
  "wire_fields ([0x22, 0xac, 0x01] @ rawDesc_StreamJobOutputRequest) = Some [(4, Bytes rawDesc_StreamJobOutputRequest)]"
  "wire_fields ([0x22, 0x9f, 0x01] @ rawDesc_StreamJobOutputResponse) = Some [(4, Bytes rawDesc_StreamJobOutputResponse)]"
  "wire_fields ([0x32, 0xf1, 0x02] @ rawDesc_JobService) = Some [(6, Bytes rawDesc_JobService)]"
  by - (rule wire_fields_bytes; simp add: length_rawDesc)+

lemma embedded_messages:
  "embedded_message rawDesc_Job = declared_message 0"
  "embedded_message rawDesc_GetJobRequest = declared_message 1"
  "embedded_message rawDesc_GetJobResponse = declared_message 2"
  "embedded_message rawDesc_SubmitJobRequest = declared_message 3"
  "embedded_message rawDesc_SubmitJobResponse = declared_message 4"
  "embedded_message rawDesc_StopJobRequest = declared_message 5"
  "embedded_message rawDesc_StopJobResponse = declared_message 6"
  "embedded_message rawDesc_StreamJobOutputRequest = declared_message 7"
  "embedded_message rawDesc_StreamJobOutputResponse = declared_message 8"
  by code_simp+

lemma wire_head:
  "case wire_fields rawDesc_head of None \<Rightarrow> False
   | Some fs \<Rightarrow> string_at 1 fs = ''workergrpc/worker.proto'' \<and> string_at 2 fs = ''teleworker.worker'' \<and>
       bytes_at 1 fs \<noteq> [] \<and> bytes_at 2 fs \<noteq> [] \<and> bytes_at 4 fs = [] \<and> bytes_at 6 fs = []"
  by code_simp

lemma wire_tail:
  "case wire_fields rawDesc_tail of None \<Rightarrow> False | Some fs \<Rightarrow> bytes_at 4 fs = [] \<and> bytes_at 6 fs = []"
  by code_simp

lemma bytes_at_append: "bytes_at n (fs @ gs) = bytes_at n fs @ bytes_at n gs"
  by (simp add: bytes_at_def)

lemma bytes_at_single: "bytes_at n [(k, Bytes b)] = (if k = n then [b] else [])"
  by (simp add: bytes_at_def)

lemma string_at_append: "bytes_at n fs \<noteq> [] \<Longrightarrow> string_at n (fs @ gs) = string_at n fs"
  by (auto simp: string_at_def bytes_at_append split: list.splits)

lemma wire_rawDesc:
  "\<exists>fs. wire_fields rawDesc = Some fs \<and> string_at 1 fs = ''workergrpc/worker.proto'' \<and>
     string_at 2 fs = ''teleworker.worker'' \<and>
     bytes_at 4 fs = [rawDesc_Job, rawDesc_GetJobRequest, rawDesc_GetJobResponse, rawDesc_SubmitJobRequest,
       rawDesc_SubmitJobResponse, rawDesc_StopJobRequest, rawDesc_StopJobResponse,
       rawDesc_StreamJobOutputRequest, rawDesc_StreamJobOutputResponse] \<and>
     bytes_at 6 fs = [rawDesc_JobService]"
proof -
  obtain hs where h: "wire_fields rawDesc_head = Some hs" "string_at 1 hs = ''workergrpc/worker.proto''"
    "string_at 2 hs = ''teleworker.worker''" "bytes_at 1 hs \<noteq> []" "bytes_at 2 hs \<noteq> []"
    "bytes_at 4 hs = []" "bytes_at 6 hs = []"
    using wire_head by (auto split: option.splits)
  obtain ts where t: "wire_fields rawDesc_tail = Some ts" "bytes_at 4 ts = []" "bytes_at 6 ts = []"
    using wire_tail by (auto split: option.splits)
  define rs where "rs = [(4, Bytes rawDesc_Job)] @ [(4, Bytes rawDesc_GetJobRequest)] @
    [(4, Bytes rawDesc_GetJobResponse)] @ [(4, Bytes rawDesc_SubmitJobRequest)] @
    [(4, Bytes rawDesc_SubmitJobResponse)] @ [(4, Bytes rawDesc_StopJobRequest)] @
    [(4, Bytes rawDesc_StopJobResponse)] @ [(4, Bytes rawDesc_StreamJobOutputRequest)] @
    [(4, Bytes rawDesc_StreamJobOutputResponse)] @ [(6, Bytes rawDesc_JobService)] @ ts"
  have "wire_fields rawDesc = Some (hs @ rs)"
    unfolding rawDesc_def rs_def
    by (simp only: wire_fields_append [OF h(1)] wire_messages [THEN wire_fields_append] t(1) option.map)
  then show ?thesis
    using h t
    by (intro exI [of _ "hs @ rs"])
      (simp add: string_at_append bytes_at_append rs_def bytes_at_single del: append.simps)
qed

lemma embedded_service:
  "(case wire_fields rawDesc_JobService of None \<Rightarrow> [] | Some ss \<Rightarrow> string_at 1 ss) = ''JobService''"
  "map embedded_method (submessages 2 rawDesc_JobService) =
    [(''GetJob'', ''.teleworker.worker.GetJobRequest'', ''.teleworker.worker.GetJobResponse'', False, False),
     (''SubmitJob'', ''.teleworker.worker.SubmitJobRequest'', ''.teleworker.worker.SubmitJobResponse'', False, False),
     (''StopJob'', ''.teleworker.worker.StopJobRequest'', ''.teleworker.worker.StopJobResponse'', False, False),
     (''StreamJobOutput'', ''.teleworker.worker.StreamJobOutputRequest'',
        ''.teleworker.worker.StreamJobOutputResponse'', False, True)]"
  by code_simp+

lemma embedded_types:
  "embedded_field_types rawDesc_Job = [''.google.protobuf.Timestamp'', ''.google.protobuf.Int32Value'']"
  "embedded_field_types rawDesc_GetJobRequest = []"
  "embedded_field_types rawDesc_GetJobResponse = [''.teleworker.worker.Job'']"
  "embedded_field_types rawDesc_SubmitJobRequest = [''.teleworker.worker.Job'']"
  "embedded_field_types rawDesc_SubmitJobResponse = [''.teleworker.worker.Job'']"
  "embedded_field_types rawDesc_StopJobRequest = []"
  "embedded_field_types rawDesc_StopJobResponse = [''.teleworker.worker.Job'']"
  "embedded_field_types rawDesc_StreamJobOutputRequest = []"
  "embedded_field_types rawDesc_StreamJobOutputResponse = []"
  by code_simp+

lemma upt_nine: "[0..<9] = [0, 1, 2, 3, 4, 5, 6, 7, 8 :: nat]"
  by (simp add: upt_rec)

lemma dep_types_eq:
  "dep_types 0 6 = [''*timestamppb.Timestamp'', ''*wrapperspb.Int32Value'', ''*Job'', ''*Job'', ''*Job'', ''*Job'']"
  "dep_types 3 4 = [''*GetJobRequest'', ''*SubmitJobRequest'', ''*StopJobRequest'', ''*StreamJobOutputRequest'']"
  "dep_types 4 4 = [''*GetJobResponse'', ''*SubmitJobResponse'', ''*StopJobResponse'', ''*StreamJobOutputResponse'']"
  by (simp_all add: dep_types_def depIdxs_def goTypes_def)

lemma embedded_rawDesc:
  "embedded_file rawDesc = Some
     \<lparr>file_name = ''workergrpc/worker.proto'', file_package = ''teleworker.worker'',
      file_messages = map declared_message [0..<9], file_field_types = map proto_name (dep_types 0 6),
      file_services = [(''JobService'', map embedded_method (submessages 2 rawDesc_JobService))]\<rparr>"
proof -
  obtain fs where fs: "wire_fields rawDesc = Some fs" "string_at 1 fs = ''workergrpc/worker.proto''"
     "string_at 2 fs = ''teleworker.worker''"
     "bytes_at 4 fs = [rawDesc_Job, rawDesc_GetJobRequest, rawDesc_GetJobResponse, rawDesc_SubmitJobRequest,
       rawDesc_SubmitJobResponse, rawDesc_StopJobRequest, rawDesc_StopJobResponse,
       rawDesc_StreamJobOutputRequest, rawDesc_StreamJobOutputResponse]"
     "bytes_at 6 fs = [rawDesc_JobService]"
    using wire_rawDesc by blast
  have t: "concat (map embedded_field_types (bytes_at 4 fs)) = map proto_name (dep_types 0 6)"
    by (simp add: fs(4) embedded_types dep_types_eq proto_name_def)
  have m: "map embedded_message (bytes_at 4 fs) = map declared_message [0..<9]"
    by (simp only: fs(4) upt_nine list.map embedded_messages)
  show ?thesis
    using fs(1-3,5) by (simp add: embedded_file_def embedded_service(1) m t del: upt_rec_numeral)
qed

section \<open>Registration\<close>

text \<open>
  The package's variables; what \<open>init\<close>, guarded by its first lines, gives to the \<open>TypeBuilder\<close>
  of the library (the parameter \<open>build\<close>; the package path and the message infos, which the library
  owns, are left out); and the compressed descriptor, which is made once, by the parameter
  \<open>compress\<close>. \<open>rawDescData\<close> starts as the same slice as \<open>rawDesc\<close>, which \<open>init\<close> forgets.
\<close>

record type_builder =
  RawDescriptor :: "int list"
  NumEnums :: nat
  NumMessages :: nat
  NumExtensions :: nat
  NumServices :: nat
  GoTypes :: "string list"
  DependencyIndexes :: "nat list"

record 'f proto_vars =
  pv_File :: "'f option"
  pv_rawDesc :: "int list"
  pv_goTypes :: "string list"
  pv_depIdxs :: "nat list"
  pv_rawDescOnce :: bool
  pv_rawDescData :: "int list"

definition proto_start :: "'f proto_vars" where
  "proto_start = \<lparr>pv_File = None, pv_rawDesc = rawDesc, pv_goTypes = goTypes, pv_depIdxs = depIdxs,
     pv_rawDescOnce = False, pv_rawDescData = rawDesc\<rparr>"

definition worker_proto_init :: "(type_builder \<Rightarrow> 'f) \<Rightarrow> 'f proto_vars \<Rightarrow> 'f proto_vars" where
  "worker_proto_init build v =
     (if pv_File v \<noteq> None then v
      else v\<lparr>pv_File := Some (build
          \<lparr>RawDescriptor = pv_rawDesc v, NumEnums = 0, NumMessages = 9, NumExtensions = 0, NumServices = 1,
           GoTypes = pv_goTypes v, DependencyIndexes = pv_depIdxs v\<rparr>),
        pv_rawDesc := [], pv_goTypes := [], pv_depIdxs := []\<rparr>)"

definition rawDescGZIP :: "(int list \<Rightarrow> int list) \<Rightarrow> 'f proto_vars \<Rightarrow> int list \<times> 'f proto_vars" where
  "rawDescGZIP compress v =
     (let v' = (if pv_rawDescOnce v then v
        else v\<lparr>pv_rawDescOnce := True, pv_rawDescData := compress (pv_rawDescData v)\<rparr>)
      in (pv_rawDescData v', v'))"

text \<open>What every state of the package satisfies, whatever was called before.\<close>

definition proto_ok :: "(type_builder \<Rightarrow> 'f) \<Rightarrow> (int list \<Rightarrow> int list) \<Rightarrow> 'f proto_vars \<Rightarrow> bool" where
  "proto_ok build compress v \<longleftrightarrow>
     pv_rawDescData v = (if pv_rawDescOnce v then compress rawDesc else rawDesc) \<and>
     (case pv_File v of
        None \<Rightarrow> pv_rawDesc v = rawDesc \<and> pv_goTypes v = goTypes \<and> pv_depIdxs v = depIdxs
      | Some f \<Rightarrow> f = build \<lparr>RawDescriptor = rawDesc, NumEnums = 0, NumMessages = 9, NumExtensions = 0,
          NumServices = 1, GoTypes = goTypes, DependencyIndexes = depIdxs\<rparr>)"

inductive proto_call :: "(type_builder \<Rightarrow> 'f) \<Rightarrow> (int list \<Rightarrow> int list) \<Rightarrow> 'f proto_vars \<Rightarrow> 'f proto_vars \<Rightarrow> bool"
  for build compress where
  "proto_call build compress v (worker_proto_init build v)"
| "proto_call build compress v (snd (rawDescGZIP compress v))"

interpretation proto: invariant_system "\<lambda>v. v = proto_start" "proto_call build compress" "proto_ok build compress"
  for build compress
proof
  show "proto_ok build compress t" if "proto_ok build compress s" "proto_call build compress s t" for s t
    using that(2,1)
    by (cases rule: proto_call.cases)
      (auto simp: proto_ok_def worker_proto_init_def rawDescGZIP_def Let_def split: option.splits)
qed (simp add: proto_ok_def proto_start_def)

text \<open>
  The file is built once, of the whole table, with the counts that the embedded bytes have; the
  compressed descriptor is that of the bytes, also after \<open>init\<close> has forgotten them.
\<close>

lemma registration_is_complete:
  assumes "reach (\<lambda>v. v = proto_start) (proto_call build compress) v"
  shows "fst (rawDescGZIP compress v) = compress rawDesc \<and>
    pv_File (worker_proto_init build v) = Some (build
      \<lparr>RawDescriptor = rawDesc, NumEnums = 0, NumMessages = length (file_messages (the (embedded_file rawDesc))),
       NumExtensions = 0, NumServices = length (file_services (the (embedded_file rawDesc))),
       GoTypes = goTypes, DependencyIndexes = depIdxs\<rparr>)"
  using proto.inv_reach [OF assms]
  by (auto simp: proto_ok_def rawDescGZIP_def worker_proto_init_def Let_def embedded_rawDesc split: option.splits)

section \<open>Property\<close>

text \<open>C31: The file descriptor embedded as bytes declares what the Go code has. It has the nine messages in
  the order of the registered types, each with exactly the fields of its struct: names, distinct
  numbers, labels, types, JSON names, and the \<open>oneof\<close> groups. The message types of the fields are the
  registered ones, and those of the Go fields. Its one service has the full name, the methods and
  streams, and the streaming flags of the service descriptor of the stubs; its input and output types
  are the registered ones, and each handler asks its decoder for that input type.\<close>

theorem embedded_descriptor_matches_stubs:
  fixes srv :: "('ts, 'w) JobServiceServer"
  shows "\<exists>file methods.
    embedded_file rawDesc = Some file \<and> file_name file = Metadata JobService_ServiceDesc \<and>
    file_messages file = map declared_message [0..<9] \<and>
    list_all (\<lambda>i. list_all (\<lambda>f. declared_field f \<noteq> None) (struct_fields i) \<and>
       distinct (map (\<lambda>f. fd_number (the (declared_field f))) (struct_fields i))) [0..<9] \<and>
    file_field_types file = map proto_name field_types \<and> field_types = dep_types 0 6 \<and>
    file_services file = [(''JobService'', methods)] \<and>
    ServiceName JobService_ServiceDesc = file_package file @ ''.'' @ ''JobService'' \<and>
    map fst methods =
      map MethodName (Methods JobService_ServiceDesc) @ map StreamName (Streams JobService_ServiceDesc) \<and>
    map (\<lambda>(n, i, out, cs, ss). (cs, ss)) methods =
      map (\<lambda>_. (False, False)) (Methods JobService_ServiceDesc) @
      map (\<lambda>sd. (ClientStreams sd, ServerStreams sd)) (Streams JobService_ServiceDesc) \<and>
    map (\<lambda>(n, i, out, cs, ss). i) methods = map proto_name (dep_types 3 4) \<and>
    map (\<lambda>(n, i, out, cs, ss). out) methods = map proto_name (dep_types 4 4) \<and>
    map (\<lambda>md. md_Handler md srv ctx (\<lambda>t. Inl (LibError (''*'' @ message_type t))) None)
        (Methods JobService_ServiceDesc) =
      map (\<lambda>t. fails (LibError t)) (take 3 (dep_types 3 4)) \<and>
    map (\<lambda>sd. sd_Handler sd srv
          \<lparr>strm_Context = ctx, strm_RecvMsg = \<lambda>t. Inl (LibError (''*'' @ message_type t))\<rparr>)
        (Streams JobService_ServiceDesc) =
      map (\<lambda>t. fails (LibError t)) (drop 3 (dep_types 3 4))"
proof -
  have fields: "list_all (\<lambda>i. list_all (\<lambda>f. declared_field f \<noteq> None) (struct_fields i) \<and>
       distinct (map (\<lambda>f. fd_number (the (declared_field f))) (struct_fields i))) [0..<9]"
    unfolding upt_nine by code_simp
  have ft: "field_types = dep_types 0 6" by code_simp
  show ?thesis
    unfolding embedded_rawDesc
    by (intro exI conjI, rule refl, simp_all only: file_desc.select_convs ft fields)
      (simp_all add: JobService_ServiceDesc_def embedded_service(2) dep_types_eq proto_name_def message_type_def
        JobService_GetJob_Handler_def JobService_SubmitJob_Handler_def JobService_StopJob_Handler_def
        JobService_StreamJobOutput_Handler_def)
qed

end
