(* ===== verification/Spec2Isabelle.thy ===== *)
theory Spec2Isabelle
  imports ShutdownWait SharedRegistry LiveJob Cli WireCmd Descriptor
begin

text \<open>
  Teleworker runs commands as jobs on a machine and lets clients submit, look up, stop and tail
  them over mutually authenticated gRPC. This library models its Go code, shallowly: functions of
  the program are HOL functions on explicit state, concurrent parts are step relations.

  \<^bold>\<open>The program and its theories.\<close> A \<open>Worker\<close> keeps a table of jobs per namespace. It makes
  a \<open>Job\<close> and starts it with a \<open>runner\<close>: the plain one runs the command, the limited one runs
  the program itself again (\<open>child-exec\<close>), which applies limits and then runs the command. The
  service translates requests into calls of the worker in the namespace that the client's
  certificate names. The command line serves, talks to a server, or runs one job directly.

  \<^item> \<open>Prelude\<close>: bytes, Go errors, the outcome of running alone (\<open>Panic\<close>, \<open>Block\<close>,
    \<open>Ret\<close>), maps (locale \<open>go_map\<close>), \<open>copy\<close>, \<open>sync.RWMutex\<close>, and step relations with
    their actions and invariants (locales \<open>action_system\<close>, \<open>invariant_system\<close>, \<open>stable_system\<close>).
  \<^item> \<open>Job\<close> (\<open>worker/job.go\<close>): the record of a job and its methods; each critical section of
    \<open>updateLock\<close> is one definition. Listener channels are a map from identities to buffers.
  \<^item> \<open>Runner\<close>, \<open>JobProcess\<close> (\<open>worker/runner.go\<close>): \<open>startCmd\<close> and the pipe loop; then
    the goroutines it leaves (two readers, a waiter, a stopper) as the step system \<open>proc_exec\<close>.
  \<^item> \<open>Paths\<close>, \<open>Limits\<close> (\<open>worker/runner_linux.go\<close>, \<open>runner_nonlinux.go\<close>): the limited
    runner and its child as sequences of system calls that a \<open>kernel\<close> may let fail; and, apart from
    the program, what such calls do to the directories and files of the host (\<open>host_after\<close>).
  \<^item> \<open>Worker\<close>, \<open>ShutdownWait\<close>, \<open>WorkerConc\<close>, \<open>Registry\<close>, \<open>SharedRegistry\<close>
    (\<open>worker/worker.go\<close>): the operations run alone; the goroutines of \<open>Shutdown\<close>; any number of
    calls interleaved at their locks; the abstract registry that the operations refine, and the one
    that the interleaved worker refines (locale \<open>event_simulation\<close>).
  \<^item> \<open>Proto\<close>, \<open>JobReads\<close>, \<open>Service\<close>, \<open>JobStream\<close>, \<open>StreamCall\<close>
    (\<open>workergrpc/worker.pb.go\<close>, \<open>service.go\<close>): the messages, a job read repeatedly while it
    goes on (locale \<open>output_reader\<close>), the handlers, and the output stream with its goroutines.
  \<^item> \<open>Messages\<close> (\<open>workergrpc/worker.pb.go\<close>): \<open>Reset\<close> and the accessors (locale \<open>nil_safe\<close>).
    \<open>Stubs\<close> (\<open>workergrpc/worker_grpc.pb.go\<close>): the client, the server interface, the handlers, the
    service descriptor. \<open>Descriptor\<close>: the file descriptor embedded as bytes, the struct tags, the type
    tables and their registration, read as the protocol buffer format says and compared.
  \<^item> \<open>Wire\<close>, \<open>WireCmd\<close>: both ends joined by a transport that behaves as gRPC documents
    (\<open>connected\<close>, \<open>connected_stream\<close>); each unary method is an interpretation of the locale
    \<open>unary_method\<close>; then the client's commands against the service, over that transport.
  \<^item> \<open>Certificate\<close> (\<open>workergrpc/certificate.go\<close>): credentials and generated certificates.
  \<^item> \<open>ServerCmd\<close>, \<open>ClientCmd\<close>, \<open>DirectExec\<close>, \<open>Commands\<close> (\<open>cmd/\<close>): serve; get,
    stop, submit and tail; direct-exec; \<open>Execute\<close>, gen-cert and diag.
  \<^item> \<open>Cli\<close> (\<open>cmd/\<close>): the command tree, and for each command its declaration, its flags with the
    variables they are bound to (locale \<open>flag_set\<close>), and what its \<open>RunE\<close> takes of the arguments.
  \<^item> \<open>LimitedRun\<close>: \<open>limitedRunner.start\<close>, \<open>main\<close> and \<open>ExecLimitedChild\<close> composed.
  \<^item> \<open>LiveJob\<close>: a command that writes into its pipes and exits, the goroutines of its job, and a
    client's stream, composed as one step system (\<open>live_exec\<close>).

  \<^bold>\<open>State and time.\<close> Jobs live in a list, the heap of the worker; a \<open>*Job\<close> is an index and nil
  is \<open>None\<close>. Code that reads a job several times takes a function from access numbers to what
  the job is then (\<open>job_at\<close>); only events that the job's own lock allows happen in between, so
  every interleaving at the granularity of that lock is covered. The worker's concurrent model
  has one step for each lock operation and each critical section of its two locks.

  \<^bold>\<open>What is shown.\<close> Worker: a submission stores exactly its job under a free key, a failed one
  changes nothing, concurrent ones never share a key, no interleaving panics, and the answers are
  those of the registry, also for calls that interleave. Process: output is frozen once there is an
  exit code, signals follow stop requests and no request is lost, and no reachable state is a dead
  end. Limits: the command runs iff every call of the setup succeeded, and then each limit is in force
  on the host and the process has joined each group; removing the groups that were made is the last
  thing asked for; and the exit code comes back through the second process. From end to end: nothing a command writes is
  lost, a client that tails a submitted job gets what the command wrote and the status it exited
  with, and a job whose command has ended can always be served to its end by the server's own steps.
  Service: requests stay in their namespace, an exit code in an answer means the output with it is
  complete, the stream delivers in order, misses no wake-up, can always complete, and sends chunks
  of 1 to 1024 bytes; what is past is measured at the first step of an output's goroutine in the run
  (\<open>opened_len\<close>, \<open>live_opened\<close>), not taken from what that goroutine keeps. Command line: every flag reaches its own variable, the argument rules protect
  what the commands index, a command submitted from the command line comes back, generated
  certificates have one purpose and their files load. Over the wire: every call of a client stub is
  answered by the service handler of its own name, get, stop and tail print what the worker of the
  server has for their namespace or the status why not, and the embedded descriptor says of messages,
  methods and types what the Go code says.

  \<^bold>\<open>Where the code does not do what it means to\<close>, the theorems state what it does:
  \<open>get_job_makes_shutdown_block\<close> (\<open>GetJob\<close> read-locks twice), \<open>force_stop_spins\<close>,
  \<open>cgroup_removal_after_pivot\<close>, \<open>cgroup_removal_requests\<close> (the child is a member of the groups it
  asks to have removed), \<open>failed_runner_loses_device_limit\<close>,
  \<open>shutdown_can_report_success_with_running_job\<close>, \<open>nil_submission_ends_server\<close> (a nil job panics),
  \<open>stream_can_drop_tail\<close>, \<open>direct_exec_swaps_streams\<close>, \<open>forced_stop_gets_no_time\<close> and
  \<open>forced_shutdown_never_forces\<close>. The exit code of a limited command that a signal ended is 255, not
  the -1 of the message's comment (\<open>limited_job_runs_its_command\<close>).

  \<^bold>\<open>Termination and fuel.\<close> No definition uses fuel. Loops that may go on for ever are
  \<open>partial_function (option)\<close>: \<open>allOutput\<close> (proved to return if the output stays
  within some bound), \<open>drain_loop\<close> (which a job that keeps writing can keep going, so its
  property is about the runs that end) and \<open>disk_loop\<close> (proved to return for every block size
  but zero). The others
  are \<open>fun\<close> or \<open>function\<close> with a measure; goroutines that wait are step systems.

  \<^bold>\<open>Parameters.\<close> Code outside the repository is an argument: the kernel, process start, JSON,
  UUIDs, the clock, cryptography and PEM (\<open>crypto\<close>), the gRPC transport, prototext, and the
  timestamp message. Of the flag library only the documented effect is used: each occurrence of a flag
  stores its value through the pointer that was registered, after the default. Each property names the behaviour of these it relies on as a hypothesis.

  \<^bold>\<open>Not modelled.\<close> What the protobuf runtime does with a message (its reflection interface, text form,
  cached message info and encoding: a connection either can or cannot send a message, and a message
  that is sent arrives as it was), the parsing of the command line and the help texts made of it
  (cobra), log output, the real-time length of time-outs (a context is done or not), the rounding of
  \<open>DiskBPS\<close>, network failures during a call (the hypotheses on a connection describe calls that go
  through), and the tests. In the composition \<open>live_exec\<close> a pipe's read ends only at its end of file
  and waiting for the command only gives its exit status; other errors of the two are in
  \<open>proc_exec\<close>. The code given to \<open>os.Exit\<close> is cut to its low eight bits where a process reads it
  (\<open>LimitedRun\<close>), not in \<open>DirectExec\<close>.
\<close>

end
